(* ===== verification/Py_Regex.thy ===== *)
theory Py_Regex
  imports Prelude
begin

text \<open>
  The part of Python's \<open>re\<close> that the repository's patterns use: character classes, sequence,
  ordered alternation, greedy and lazy repetition, word boundaries and anchors, with
  \<open>match\<close>, \<open>search\<close>, \<open>finditer\<close> and \<open>sub\<close>. The matcher \<open>ends r s i\<close> lists the end positions of
  the matches that start at \<open>i\<close> in the order in which Python's backtracking finds them, so
  its head is the match Python reports. \<open>matches\<close> is the declarative reading, and
  \<open>ends_iff_matches\<close> shows the two agree.
\<close>

datatype re =
    Eps
  | Cls "char \<Rightarrow> bool"
  | Seq re re
  | Alt re re
  | Star re
  | LazyStar re
  | Bound
  | Bos
  | Eos

definition word_at :: "string \<Rightarrow> nat \<Rightarrow> bool" where
  "word_at s i \<longleftrightarrow> i < length s \<and> is_word (s ! i)"

definition boundary :: "string \<Rightarrow> nat \<Rightarrow> bool" where
  "boundary s i \<longleftrightarrow> (0 < i \<and> word_at s (i - 1)) \<noteq> word_at s i"

text \<open>\<open>$\<close> matches at the end and before a newline that ends the text.\<close>

definition at_end :: "string \<Rightarrow> nat \<Rightarrow> bool" where
  "at_end s i \<longleftrightarrow> i = length s \<or> (Suc i = length s \<and> s ! i = char_of (10 :: nat))"

function (sequential) ends :: "re \<Rightarrow> string \<Rightarrow> nat \<Rightarrow> nat list" where
  "ends Eps s i = [i]"
| "ends (Cls p) s i = (if i < length s \<and> p (s ! i) then [Suc i] else [])"
| "ends (Seq a b) s i = concat (map (\<lambda>j. ends b s j) (ends a s i))"
| "ends (Alt a b) s i = ends a s i @ ends b s i"
| "ends (Star r) s i =
     concat (map (\<lambda>j. if i < j \<and> j \<le> length s then ends (Star r) s j else []) (ends r s i)) @ [i]"
| "ends (LazyStar r) s i =
     i # concat (map (\<lambda>j. if i < j \<and> j \<le> length s then ends (LazyStar r) s j else [])
                     (ends r s i))"
| "ends Bound s i = (if boundary s i then [i] else [])"
| "ends Bos s i = (if i = 0 then [i] else [])"
| "ends Eos s i = (if at_end s i then [i] else [])"
  by pat_completeness auto
termination
  by (relation "measures [\<lambda>(r, s, i). size r, \<lambda>(r, s, i). length s - i]") auto

lemmas ends_Star = ends.simps(5)
lemmas ends_LazyStar = ends.simps(6)

declare ends.simps(5,6) [simp del]

subsection \<open>The declarative semantics\<close>

inductive matches :: "re \<Rightarrow> string \<Rightarrow> nat \<Rightarrow> nat \<Rightarrow> bool" where
  m_eps: "matches Eps s i i"
| m_cls: "i < length s \<Longrightarrow> p (s ! i) \<Longrightarrow> matches (Cls p) s i (Suc i)"
| m_seq: "matches a s i j \<Longrightarrow> matches b s j k \<Longrightarrow> matches (Seq a b) s i k"
| m_alt1: "matches a s i j \<Longrightarrow> matches (Alt a b) s i j"
| m_alt2: "matches b s i j \<Longrightarrow> matches (Alt a b) s i j"
| m_star0: "matches (Star r) s i i"
| m_star1: "matches r s i j \<Longrightarrow> matches (Star r) s j k \<Longrightarrow> matches (Star r) s i k"
| m_lazy0: "matches (LazyStar r) s i i"
| m_lazy1: "matches r s i j \<Longrightarrow> matches (LazyStar r) s j k \<Longrightarrow> matches (LazyStar r) s i k"
| m_bound: "boundary s i \<Longrightarrow> matches Bound s i i"
| m_bos: "matches Bos s 0 0"
| m_eos: "at_end s i \<Longrightarrow> matches Eos s i i"

inductive_simps matches_simps:
  "matches Eps s i j" "matches (Cls p) s i j" "matches (Seq a b) s i j"
  "matches (Alt a b) s i j" "matches Bound s i j" "matches Bos s i j" "matches Eos s i j"

lemma matches_mono: "matches r s i j \<Longrightarrow> i \<le> j"
  by (induction rule: matches.induct) auto

lemma matches_bounded: "matches r s i j \<Longrightarrow> i \<le> length s \<Longrightarrow> j \<le> length s"
  by (induction rule: matches.induct) auto

lemma ends_sound: "j \<in> set (ends r s i) \<Longrightarrow> matches r s i j"
proof (induction r s i arbitrary: j rule: ends.induct)
  case (5 r s i)
  from "5.prems" consider "j = i"
    | m where "m \<in> set (ends r s i)" "i < m" "m \<le> length s" "j \<in> set (ends (Star r) s m)"
    unfolding ends_Star [of r s i] by (auto split: if_splits)
  then show ?case by cases (auto intro: matches.intros "5.IH")
next
  case (6 r s i)
  from "6.prems" consider "j = i"
    | m where "m \<in> set (ends r s i)" "i < m" "m \<le> length s" "j \<in> set (ends (LazyStar r) s m)"
    unfolding ends_LazyStar [of r s i] by (auto split: if_splits)
  then show ?case by cases (auto intro: matches.intros "6.IH")
qed (auto simp: matches_simps split: if_splits)

lemma ends_Star_step:
  "j \<in> set (ends r s i) \<Longrightarrow> j \<le> length s \<Longrightarrow> i \<le> j \<Longrightarrow> k \<in> set (ends (Star r) s j)
    \<Longrightarrow> k \<in> set (ends (Star r) s i)"
proof (cases "i = j")
  case False
  assume "j \<in> set (ends r s i)" "j \<le> length s" "i \<le> j" "k \<in> set (ends (Star r) s j)"
  with False have "\<exists>j' \<in> set (ends r s i). i < j' \<and> j' \<le> length s \<and> k \<in> set (ends (Star r) s j')"
    by (intro bexI [of _ j]) simp_all
  then show ?thesis unfolding ends_Star [of r s i] by auto
qed simp

lemma ends_LazyStar_step:
  "j \<in> set (ends r s i) \<Longrightarrow> j \<le> length s \<Longrightarrow> i \<le> j \<Longrightarrow> k \<in> set (ends (LazyStar r) s j)
    \<Longrightarrow> k \<in> set (ends (LazyStar r) s i)"
proof (cases "i = j")
  case False
  assume "j \<in> set (ends r s i)" "j \<le> length s" "i \<le> j" "k \<in> set (ends (LazyStar r) s j)"
  with False have "\<exists>j' \<in> set (ends r s i). i < j' \<and> j' \<le> length s \<and> k \<in> set (ends (LazyStar r) s j')"
    by (intro bexI [of _ j]) simp_all
  then show ?thesis unfolding ends_LazyStar [of r s i] by auto
qed simp

lemma ends_complete: "matches r s i j \<Longrightarrow> i \<le> length s \<Longrightarrow> j \<in> set (ends r s i)"
proof (induction rule: matches.induct)
  case (m_seq a s i j b k)
  have "j \<in> set (ends a s i)" by (rule m_seq.IH(1) [OF m_seq.prems])
  moreover have "k \<in> set (ends b s j)"
    by (rule m_seq.IH(2) [OF matches_bounded [OF m_seq.hyps(1) m_seq.prems]])
  ultimately show ?case by auto
next
  case (m_star1 r s i j k)
  have j: "j \<le> length s" "i \<le> j"
    using matches_bounded [OF m_star1.hyps(1) m_star1.prems] matches_mono [OF m_star1.hyps(1)] by blast+
  from m_star1.IH(1) [OF m_star1.prems] j m_star1.IH(2) [OF j(1)] show ?case
    by (rule ends_Star_step)
next
  case (m_lazy1 r s i j k)
  have j: "j \<le> length s" "i \<le> j"
    using matches_bounded [OF m_lazy1.hyps(1) m_lazy1.prems] matches_mono [OF m_lazy1.hyps(1)] by blast+
  from m_lazy1.IH(1) [OF m_lazy1.prems] j m_lazy1.IH(2) [OF j(1)] show ?case
    by (rule ends_LazyStar_step)
next
  case (m_star0 r s i)
  then show ?case unfolding ends_Star [of r s i] by simp
next
  case (m_lazy0 r s i)
  then show ?case unfolding ends_LazyStar [of r s i] by simp
qed auto

theorem ends_iff_matches: "i \<le> length s \<Longrightarrow> j \<in> set (ends r s i) \<longleftrightarrow> matches r s i j"
  using ends_sound ends_complete by blast

lemma ends_range: "j \<in> set (ends r s i) \<Longrightarrow> i \<le> length s \<Longrightarrow> i \<le> j \<and> j \<le> length s"
  using ends_sound matches_mono matches_bounded by blast

subsection \<open>match, search, finditer, sub\<close>

definition re_match :: "re \<Rightarrow> string \<Rightarrow> bool" where
  "re_match r s \<longleftrightarrow> ends r s 0 \<noteq> []"

definition first_from :: "re \<Rightarrow> string \<Rightarrow> nat \<Rightarrow> (nat \<times> nat) option" where
  "first_from r s i =
     map_option (\<lambda>a. (a, hd (ends r s a))) (find (\<lambda>a. ends r s a \<noteq> []) [i..<Suc (length s)])"

definition re_search :: "re \<Rightarrow> string \<Rightarrow> bool" where
  "re_search r s \<longleftrightarrow> first_from r s 0 \<noteq> None"

lemma find_SomeD: "find P xs = Some x \<Longrightarrow> x \<in> set xs \<and> P x"
  by (induction xs) (auto split: if_splits)

lemma first_from_SomeD:
  assumes "first_from r s i = Some (a, b)"
  shows "i \<le> a \<and> a \<le> b \<and> b \<le> length s \<and> matches r s a b"
proof -
  from assms have f: "find (\<lambda>a. ends r s a \<noteq> []) [i..<Suc (length s)] = Some a"
    and e2: "b = hd (ends r s a)"
    unfolding first_from_def by (simp_all del: upt_Suc)
  from find_SomeD [OF f] have a: "a \<in> set [i..<Suc (length s)]" and e: "ends r s a \<noteq> []"
    by blast+
  from e e2 have b: "b \<in> set (ends r s a)" by simp
  from a have "i \<le> a" "a \<le> length s" by auto
  with b ends_range [OF b] ends_sound [OF b] show ?thesis by simp
qed

theorem re_search_iff: "re_search r s \<longleftrightarrow> (\<exists>i j. i \<le> length s \<and> matches r s i j)"
proof -
  have "re_search r s \<longleftrightarrow> (\<exists>i \<le> length s. ends r s i \<noteq> [])"
    by (auto simp: re_search_def first_from_def find_None_iff less_Suc_eq_le simp del: upt_Suc)
  also have "\<dots> \<longleftrightarrow> (\<exists>i \<le> length s. \<exists>j. j \<in> set (ends r s i))"
    by (metis list.set_intros(1) neq_Nil_conv list.set(1) empty_iff)
  finally show ?thesis using ends_iff_matches by blast
qed

function finditer :: "re \<Rightarrow> string \<Rightarrow> nat \<Rightarrow> (nat \<times> nat) list" where
  "finditer r s i =
     (case first_from r s i of
        None \<Rightarrow> []
      | Some (a, b) \<Rightarrow> (a, b) # finditer r s (if a < b then b else Suc b))"
  by pat_completeness auto
termination
  by (relation "measure (\<lambda>(r, s, i). Suc (length s) - i)")
     (auto dest!: first_from_SomeD)

declare finditer.simps [simp del]

lemma finditer_sound: "(a, b) \<in> set (finditer r s i) \<Longrightarrow> i \<le> a \<and> b \<le> length s \<and> matches r s a b"
proof (induction r s i rule: finditer.induct)
  case (1 r s i)
  show ?case
  proof (cases "first_from r s i")
    case None
    with "1.prems" show ?thesis by (subst (asm) finditer.simps) simp
  next
    case (Some p)
    obtain c d where p: "p = (c, d)" by (cases p)
    note f = first_from_SomeD [OF Some [unfolded p]]
    from "1.prems" Some p have "(a, b) = (c, d)
        \<or> (a, b) \<in> set (finditer r s (if c < d then d else Suc d))"
      by (subst (asm) finditer.simps) auto
    then show ?thesis
    proof
      assume "(a, b) = (c, d)"
      with f show ?thesis by auto
    next
      assume "(a, b) \<in> set (finditer r s (if c < d then d else Suc d))"
      from "1.IH" [OF Some p [symmetric] this] f show ?thesis by (auto split: if_splits)
    qed
  qed
qed

text \<open>\<open>pattern.sub(new, s)\<close>: the text between the matches is kept.\<close>

fun splice_at :: "string \<Rightarrow> string \<Rightarrow> nat \<Rightarrow> (nat \<times> nat) list \<Rightarrow> string" where
  "splice_at new s i [] = drop i s"
| "splice_at new s i ((a, b) # ms) = take (a - i) (drop i s) @ new @ splice_at new s b ms"

definition re_sub :: "re \<Rightarrow> string \<Rightarrow> string \<Rightarrow> string" where
  "re_sub r new s = splice_at new s 0 (finditer r s 0)"

lemma re_sub_no_match: "\<not> re_search r s \<Longrightarrow> re_sub r new s = s"
  by (cases "first_from r s 0") (simp_all add: re_sub_def re_search_def finditer.simps [of r s 0])

subsection \<open>Pattern building blocks\<close>

definition char_re :: "char \<Rightarrow> re" where
  "char_re c = Cls (\<lambda>x. x = c)"

text \<open>A literal under \<open>re.IGNORECASE\<close>, given in lower case.\<close>

definition lit_char :: "char \<Rightarrow> re" where
  "lit_char c = Cls (\<lambda>x. lower_char x = c)"

fun seq_all :: "re list \<Rightarrow> re" where
  "seq_all [] = Eps"
| "seq_all [r] = r"
| "seq_all (r # q # rs) = Seq r (seq_all (q # rs))"

fun alt_all :: "re list \<Rightarrow> re" where
  "alt_all [] = Cls (\<lambda>_. False)"
| "alt_all [r] = r"
| "alt_all (r # q # rs) = Alt r (alt_all (q # rs))"

definition lit :: "string \<Rightarrow> re" where
  "lit s = seq_all (map lit_char s)"

definition exact :: "string \<Rightarrow> re" where
  "exact s = seq_all (map char_re s)"

definition Plus :: "re \<Rightarrow> re" where
  "Plus r = Seq r (Star r)"

definition Opt :: "re \<Rightarrow> re" where
  "Opt r = Alt r Eps"

definition one_of :: "char list \<Rightarrow> re" where
  "one_of cs = Cls (\<lambda>x. x \<in> set cs)"

definition any_but_newline :: re where
  "any_but_newline = Cls (\<lambda>x. code_of x \<noteq> 10)"

fun upto_times :: "nat \<Rightarrow> re \<Rightarrow> re" where
  "upto_times 0 r = Eps"
| "upto_times (Suc n) r = Opt (Seq r (upto_times n r))"

lemmas re_block_defs = char_re_def lit_char_def lit_def exact_def Plus_def Opt_def one_of_def
  any_but_newline_def

end
