(* ===== verification/Coord_Types.thy ===== *)
theory Coord_Types
  imports Prelude
begin

text \<open>
  The data of one coordinator turn: the actions a decision may take, the blocks of a draft, the
  results the tools return, the observations the model reads and the terminals a turn ends
  with (app/conversation/coordinator/contracts.py, action_lifecycle.py, runtime.py, and the
  result types of app/business_query and app/rag the coordinator reads). Records hold the
  fields the coordinator reads; pydantic's validators are the \<open>wf_\<close> predicates.
\<close>

subsection \<open>Kinds and statuses\<close>

datatype tool_kind = Query_business | Search_documents | Explain_sources

datatype action_kind = Tool tool_kind | Finish_answer | Clarify_kind

datatype action_status = Succeeded | Denied | Failed | Timed_out | Cancelled

datatype question_origin = From_user | From_model

datatype claim_type = General | Evidence | Suggestion

datatype stop_reason =
    Decision_limit | Action_limit | Business_query_limit | Document_search_limit
  | Action_not_allowed | Malformed_response | Explanation_unavailable
  | Context_budget_exceeded | Budget_expired | Cancelled_turn | Action_protocol_error

fun tool_name :: "tool_kind \<Rightarrow> string" where
  "tool_name Query_business = ''query_business''"
| "tool_name Search_documents = ''search_documents''"
| "tool_name Explain_sources = ''explain_sources''"

fun status_name :: "action_status \<Rightarrow> string" where
  "status_name Succeeded = ''succeeded''"
| "status_name Denied = ''denied''"
| "status_name Failed = ''failed''"
| "status_name Timed_out = ''timed_out''"
| "status_name Cancelled = ''cancelled''"

subsection \<open>Decisions\<close>

record record_binding =
  rb_resource :: string
  rb_member :: string
  rb_value :: string

record business_question =
  bq_raw :: string
  bq_reading :: string
  bq_binding :: "record_binding option"

record query_business_action =
  qa_question :: string
  qa_continues :: "string option"
  qa_binding :: "record_binding option"
  qa_compound :: bool
  qa_out_of_scope :: "string option"

record answer_block =
  ab_text :: string
  ab_evidence :: "string list"
  ab_value_refs :: "string list"
  ab_claim :: claim_type

record finish_draft =
  fd_blocks :: "answer_block list"
  fd_unanswered :: "string option"

record clarify_action =
  ca_question :: string
  ca_choices :: "string list"

datatype action =
    AQuery query_business_action
  | ASearch string
  | AExplain "int list"
  | AFinish finish_draft
  | AClarify clarify_action

fun kind_of :: "action \<Rightarrow> action_kind" where
  "kind_of (AQuery _) = Tool Query_business"
| "kind_of (ASearch _) = Tool Search_documents"
| "kind_of (AExplain _) = Tool Explain_sources"
| "kind_of (AFinish _) = Finish_answer"
| "kind_of (AClarify _) = Clarify_kind"

subsection \<open>Validators\<close>

text \<open>An evidence block names its evidence, and no other block may name any.\<close>

definition wf_block :: "answer_block \<Rightarrow> bool" where
  "wf_block b \<longleftrightarrow>
     1 \<le> length (ab_text b) \<and> length (ab_text b) \<le> 1600
     \<and> length (ab_evidence b) \<le> 8 \<and> length (ab_value_refs b) \<le> 16
     \<and> (if ab_claim b = Evidence then ab_evidence b \<noteq> [] else ab_evidence b = [])"

definition wf_finish :: "finish_draft \<Rightarrow> bool" where
  "wf_finish d \<longleftrightarrow>
     1 \<le> length (fd_blocks d) \<and> length (fd_blocks d) \<le> 8 \<and> list_all wf_block (fd_blocks d)
     \<and> (case fd_unanswered d of None \<Rightarrow> True | Some u \<Rightarrow> 2 \<le> length u \<and> length u \<le> 160)"

definition wf_binding :: "record_binding \<Rightarrow> bool" where
  "wf_binding b \<longleftrightarrow> rb_resource b \<noteq> [] \<and> rb_member b \<noteq> [] \<and> rb_value b \<noteq> []
     \<and> length (rb_value b) \<le> 128"

definition wf_query :: "query_business_action \<Rightarrow> bool" where
  "wf_query q \<longleftrightarrow>
     1 \<le> length (qa_question q) \<and> length (qa_question q) \<le> 2000
     \<and> (case qa_binding q of None \<Rightarrow> True | Some b \<Rightarrow> wf_binding b)
     \<and> (case qa_out_of_scope q of None \<Rightarrow> True | Some p \<Rightarrow> 2 \<le> length p \<and> length p \<le> 120)"

definition MAX_SOURCE_CANDIDATES :: int where
  "MAX_SOURCE_CANDIDATES = 20"

definition wf_selection :: "int list \<Rightarrow> bool" where
  "wf_selection ps \<longleftrightarrow> 1 \<le> length ps \<and> length ps \<le> 8 \<and> distinct ps
     \<and> list_all (\<lambda>p. 1 \<le> p \<and> p \<le> MAX_SOURCE_CANDIDATES) ps"

text \<open>\<open>Clarify._tidy_choices\<close>: an item that is not a string is \<open>None\<close> here.\<close>

definition MIN_CLARIFY_CHOICES :: nat where "MIN_CLARIFY_CHOICES = 2"
definition MAX_CLARIFY_CHOICES :: nat where "MAX_CLARIFY_CHOICES = 4"
definition MAX_CLARIFY_CHOICE_CHARS :: nat where "MAX_CLARIFY_CHOICE_CHARS = 80"

definition catch_all :: "string \<Rightarrow> bool" where
  "catch_all label \<longleftrightarrow>
     prefix ''something else'' (py_lower label) \<or> prefix ''anything else'' (py_lower label)"

definition choice_label :: "string option \<Rightarrow> string" where
  "choice_label item =
     (case item of Some t \<Rightarrow> take MAX_CLARIFY_CHOICE_CHARS (py_strip t) | None \<Rightarrow> [])"

fun keep_choices :: "string list \<Rightarrow> string option list \<Rightarrow> string list" where
  "keep_choices kept [] = kept"
| "keep_choices kept (item # items) =
     (let label = choice_label item in
      keep_choices (if label \<noteq> [] \<and> \<not> catch_all label \<and> label \<notin> set kept
                    then kept @ [label] else kept) items)"

definition tidy_choices :: "string option list option \<Rightarrow> string list" where
  "tidy_choices value =
     (case value of
        None \<Rightarrow> []
      | Some items \<Rightarrow>
          (let kept = keep_choices [] items in
           if MIN_CLARIFY_CHOICES \<le> length kept then take MAX_CLARIFY_CHOICES kept else []))"

lemma keep_choices_ok:
  assumes "distinct kept"
    and "\<forall>l \<in> set kept. l \<noteq> [] \<and> length l \<le> MAX_CLARIFY_CHOICE_CHARS \<and> \<not> catch_all l"
  shows "distinct (keep_choices kept items) \<and> (\<forall>l \<in> set (keep_choices kept items).
    l \<noteq> [] \<and> length l \<le> MAX_CLARIFY_CHOICE_CHARS \<and> \<not> catch_all l)"
  using assms
proof (induction items arbitrary: kept)
  case Nil
  then show ?case by simp
next
  case (Cons item items)
  have short: "length (choice_label item) \<le> MAX_CLARIFY_CHOICE_CHARS"
    by (simp add: choice_label_def split: option.split)
  show ?case
    unfolding keep_choices.simps Let_def
    by (rule Cons.IH) (use Cons.prems short in auto)
qed

definition wf_clarify :: "clarify_action \<Rightarrow> bool" where
  "wf_clarify c \<longleftrightarrow> 1 \<le> length (ca_question c) \<and> length (ca_question c) \<le> 500
     \<and> (ca_choices c = [] \<or> (MIN_CLARIFY_CHOICES \<le> length (ca_choices c)
           \<and> length (ca_choices c) \<le> MAX_CLARIFY_CHOICES))"

fun wf_action :: "action \<Rightarrow> bool" where
  "wf_action (AQuery q) = wf_query q"
| "wf_action (ASearch q) = (1 \<le> length q \<and> length q \<le> 2000)"
| "wf_action (AExplain ps) = wf_selection ps"
| "wf_action (AFinish d) = wf_finish d"
| "wf_action (AClarify c) = wf_clarify c"

subsection \<open>Business results\<close>

text \<open>
  A cell of a result row. A float is carried by its \<open>repr\<close>; a value of any other type (a
  Decimal, a date) by its \<open>str\<close>.
\<close>

datatype cell = CNone | CStr string | CInt int | CFloat string | CBool bool | COther string

fun show_cell :: "cell \<Rightarrow> string" where
  "show_cell CNone = ''None''"
| "show_cell (CStr s) = s"
| "show_cell (CInt i) = show_int i"
| "show_cell (CFloat r) = r"
| "show_cell (CBool b) = (if b then ''True'' else ''False'')"
| "show_cell (COther s) = s"

record result_column =
  rc_key :: string
  rc_kind :: string
  rc_identifier :: bool
  rc_label :: "string option"
  rc_display_key :: "string option"

record row_identity =
  ri_anchor :: string
  ri_expanded :: "string option"
  ri_anchor_count :: nat
  ri_requested :: "nat option"
  ri_row_count :: nat
  ri_childless :: nat

record presentation =
  pr_title :: string
  pr_filters :: "string list"
  pr_scope :: "string option"

record envelope =
  en_rows :: "(string, cell) dict list"
  en_columns :: "result_column list"
  en_presentation :: "presentation option"
  en_partial :: bool
  en_returned :: int
  en_total :: int
  en_identity :: "row_identity option"
  en_tier_patch :: bool
  en_changes :: "string list"

record wire_outcome =
  wo_envelope :: "envelope option"
  wo_envelopes :: "envelope list"
  wo_has_choices :: bool

record failure_note =
  fn_reason :: string
  fn_advice :: string

datatype disposition =
  Answered | Clarification_required | Unsupported | Incomplete | Bq_denied | Shadowed

text \<open>The set-context text of the result's plan (\<open>format_set_context\<close>) stands for the plan.\<close>

record ask_result =
  ar_disposition :: disposition
  ar_answer_text :: string
  ar_stop_reason :: "string option"
  ar_capability_unavailable :: bool
  ar_plan_context :: "string option"
  ar_wire :: "wire_outcome option"
  ar_failure :: "failure_note option"

subsection \<open>Documents and restored answers\<close>

record passage =
  pg_id :: string
  pg_file :: string
  pg_content :: string

record doc_result =
  dr_passages :: "passage list"
  dr_truncated :: bool
  dr_offers :: "(string \<times> string) list"

record doc_failure =
  df_timeout :: bool
  df_code :: string

record restored_turn =
  rt_exchange :: string
  rt_answer :: string
  rt_title :: "string option"
  rt_wire :: "wire_outcome option"
  rt_selected :: "string list"
  rt_source_types :: "string option list"

record selected_sources =
  ss_exchanges :: "string list"
  ss_turns :: "restored_turn list"

datatype tool_result =
    RNone
  | RCommitted ask_result
  | RAsk ask_result
  | RDocs doc_result
  | RDocFailure doc_failure
  | RSources selected_sources
  | RError string

record action_outcome =
  ao_turn :: string
  ao_id :: string
  ao_kind :: tool_kind
  ao_status :: action_status
  ao_result :: tool_result
  ao_elapsed :: "nat option"

subsection \<open>Observations\<close>

datatype obs_kind = Acted tool_kind | Decision_invalid

record value_ref =
  vr_id :: string
  vr_label :: string
  vr_formatted :: string

record observed_column =
  oc_key :: string
  oc_kind :: string
  oc_identifier :: bool
  oc_label :: "string option"

record observed_table =
  ot_heading :: string
  ot_rows :: nat
  ot_identity :: "row_identity option"

record observation =
  ob_action :: string
  ob_kind :: obs_kind
  ob_status :: action_status
  ob_origin :: "question_origin option"
  ob_evidence :: "string list"
  ob_values :: "value_ref list"
  ob_columns :: "observed_column list"
  ob_rows :: "(string, cell) dict list"
  ob_identity :: "row_identity option"
  ob_tables :: "observed_table list"
  ob_failure :: "failure_note option"
  ob_summary :: string
  ob_truncated :: bool
  ob_page_offers :: "(string \<times> string) list"
  ob_document_answers :: "string list"

text \<open>The length constraints pydantic puts on an observation and its tables.\<close>

definition wf_table :: "observed_table \<Rightarrow> bool" where
  "wf_table t \<longleftrightarrow> length (ot_heading t) \<le> 600"

definition wf_observation :: "observation \<Rightarrow> bool" where
  "wf_observation ob \<longleftrightarrow>
     length (ob_values ob) \<le> 16 \<and> length (ob_rows ob) \<le> 20 \<and> length (ob_tables ob) \<le> 4
     \<and> length (ob_summary ob) \<le> 2000 \<and> list_all wf_table (ob_tables ob)"

definition blank_observation :: "string \<Rightarrow> obs_kind \<Rightarrow> action_status \<Rightarrow> observation" where
  "blank_observation aid k st =
     \<lparr>ob_action = aid, ob_kind = k, ob_status = st, ob_origin = None, ob_evidence = [],
      ob_values = [], ob_columns = [], ob_rows = [], ob_identity = None, ob_tables = [],
      ob_failure = None, ob_summary = [], ob_truncated = False, ob_page_offers = [],
      ob_document_answers = []\<rparr>"

subsection \<open>Context and terminals\<close>

record history_line =
  hl_exchange :: string
  hl_text :: string

record coord_context =
  cx_turn :: string
  cx_question :: string
  cx_history :: "history_line list"
  cx_candidates :: nat
  cx_unreachable :: "string list"

datatype answer_mode = Explanation | Direct

datatype text_kind = Narrative | Table_fallback

record finished_draft =
  fin_draft :: finish_draft
  fin_observations :: "observation list"
  fin_outcomes :: "action_outcome list"
  fin_mode :: "answer_mode option"
  fin_text_kind :: text_kind

datatype terminal =
    Finished finished_draft
  | ClarifyRequested string "string list" "action_outcome list"
  | BqTerminal ask_result "action_outcome list"
  | Stopped stop_reason "observation list" "action_outcome list"

subsection \<open>What the tidied choices keep\<close>

lemma tidy_choices_bounds:
  "tidy_choices v = []
    \<or> (2 \<le> length (tidy_choices v) \<and> length (tidy_choices v) \<le> 4)"
  by (auto simp: tidy_choices_def Let_def MIN_CLARIFY_CHOICES_def MAX_CLARIFY_CHOICES_def
      split: option.split)

lemma tidy_choices_labels:
  "distinct (tidy_choices v)
    \<and> (\<forall>l \<in> set (tidy_choices v). l \<noteq> [] \<and> length l \<le> 80 \<and> \<not> catch_all l)"
proof (cases v)
  case None
  then show ?thesis by (simp add: tidy_choices_def)
next
  case (Some items)
  from keep_choices_ok [of "[]" items] show ?thesis
    by (auto simp: Some tidy_choices_def Let_def MAX_CLARIFY_CHOICE_CHARS_def dest!: in_set_takeD)
qed

text \<open>
  The choices a clarification keeps are none, or two to four distinct, nonempty labels of
  at most 80 characters, none of them a catch-all, whatever the model sent.
\<close>

theorem tidy_choices_ok:
  "(tidy_choices v = [] \<or> length (tidy_choices v) \<in> {2, 3, 4})
    \<and> distinct (tidy_choices v)
    \<and> list_all (\<lambda>l. 1 \<le> length l \<and> length l \<le> 80 \<and> \<not> catch_all l) (tidy_choices v)"
  using tidy_choices_bounds [of v] tidy_choices_labels [of v]
  by (auto simp: list_all_iff Suc_le_eq)

end
