(* ===== verification/Lifecycle.thy ===== *)
theory Lifecycle
  imports Coord_Types
begin

text \<open>
  \<open>ActionLifecycle\<close> (app/conversation/coordinator/action_lifecycle.py): every tool action of a
  turn is admitted once, started once and completed once, with an outcome that names it. The
  locale \<open>action_protocol\<close> states what the coordinator's nodes rely on; it is interpreted on
  the class's model at the end.
\<close>

subsection \<open>State and operations\<close>

datatype protocol_error =
    Duplicate_action
  | Cannot_start_unadmitted
  | Cannot_complete_not_running
  | Outcome_identity_mismatch
  | Outcome_kind_mismatch
  | Actions_pending

record lifecycle =
  lc_turn :: string
  lc_admitted :: "(string, tool_kind) dict"
  lc_running :: "(string, tool_kind) dict"
  lc_completed :: "string set"
  lc_outcomes :: "action_outcome list"
  lc_started :: "string \<rightharpoonup> rat"
  lc_elapsed :: "string \<rightharpoonup> int"

definition new_lifecycle :: "string \<Rightarrow> lifecycle" where
  "new_lifecycle turn =
     \<lparr>lc_turn = turn, lc_admitted = [], lc_running = [], lc_completed = {}, lc_outcomes = [],
      lc_started = Map.empty, lc_elapsed = Map.empty\<rparr>"

definition admit :: "string \<Rightarrow> tool_kind \<Rightarrow> lifecycle \<Rightarrow> protocol_error + lifecycle" where
  "admit aid k l =
     (if dict_has (lc_admitted l) aid \<or> dict_has (lc_running l) aid \<or> aid \<in> lc_completed l
      then Inl Duplicate_action
      else Inr (l\<lparr>lc_admitted := dict_set (lc_admitted l) aid k\<rparr>))"

definition start :: "rat \<Rightarrow> string \<Rightarrow> lifecycle \<Rightarrow> protocol_error + lifecycle" where
  "start now aid l =
     (case dict_get (lc_admitted l) aid of
        None \<Rightarrow> Inl Cannot_start_unadmitted
      | Some k \<Rightarrow> Inr (l\<lparr>lc_admitted := dict_del (lc_admitted l) aid,
                        lc_running := dict_set (lc_running l) aid k,
                        lc_started := (lc_started l)(aid \<mapsto> now)\<rparr>))"

text \<open>\<open>max(0, int((now - started) * 1000))\<close>.\<close>

definition elapsed_since :: "rat \<Rightarrow> rat \<Rightarrow> int" where
  "elapsed_since now started = max 0 \<lfloor>(now - started) * 1000\<rfloor>"

definition complete ::
    "rat \<Rightarrow> string \<Rightarrow> action_outcome \<Rightarrow> lifecycle \<Rightarrow> protocol_error + lifecycle" where
  "complete now aid oc l =
     (case dict_get (lc_running l) aid of
        None \<Rightarrow> Inl Cannot_complete_not_running
      | Some k \<Rightarrow>
          if ao_turn oc \<noteq> lc_turn l \<or> ao_id oc \<noteq> aid then Inl Outcome_identity_mismatch
          else if ao_kind oc \<noteq> k then Inl Outcome_kind_mismatch
          else Inr (l\<lparr>lc_running := dict_del (lc_running l) aid,
                     lc_completed := insert aid (lc_completed l),
                     lc_elapsed :=
                       (case ao_elapsed oc of
                          Some ms \<Rightarrow> (lc_elapsed l)(aid \<mapsto> int ms)
                        | None \<Rightarrow>
                            (case lc_started l aid of
                               Some t \<Rightarrow> (lc_elapsed l)(aid \<mapsto> elapsed_since now t)
                             | None \<Rightarrow> lc_elapsed l)),
                     lc_outcomes := lc_outcomes l @ [oc]\<rparr>))"

definition elapsed_ms :: "rat \<Rightarrow> string \<Rightarrow> lifecycle \<Rightarrow> int option" where
  "elapsed_ms now aid l =
     (case lc_elapsed l aid of
        Some ms \<Rightarrow> Some ms
      | None \<Rightarrow> map_option (elapsed_since now) (lc_started l aid))"

definition assert_ready_for_model :: "lifecycle \<Rightarrow> protocol_error + unit" where
  "assert_ready_for_model l =
     (if lc_admitted l \<noteq> [] \<or> lc_running l \<noteq> [] then Inl Actions_pending else Inr ())"

subsection \<open>The invariant\<close>

text \<open>
  An action is in at most one stage, the completed set is the set of the outcomes' ids, no id
  has two outcomes, every outcome is of this turn, and a running action has a start time.
\<close>

definition lifecycle_inv :: "lifecycle \<Rightarrow> bool" where
  "lifecycle_inv l \<longleftrightarrow>
     distinct (map fst (lc_admitted l)) \<and> distinct (map fst (lc_running l))
     \<and> (\<forall>a. \<not> (dict_has (lc_admitted l) a \<and> dict_has (lc_running l) a))
     \<and> (\<forall>a \<in> lc_completed l. \<not> dict_has (lc_admitted l) a \<and> \<not> dict_has (lc_running l) a)
     \<and> lc_completed l = ao_id ` set (lc_outcomes l)
     \<and> distinct (map ao_id (lc_outcomes l))
     \<and> (\<forall>oc \<in> set (lc_outcomes l). ao_turn oc = lc_turn l)
     \<and> (\<forall>a. dict_has (lc_running l) a \<or> a \<in> lc_completed l \<longrightarrow> lc_started l a \<noteq> None)"

lemma new_lifecycle_inv [inv_intros]: "lifecycle_inv (new_lifecycle t)"
  by (simp add: lifecycle_inv_def new_lifecycle_def)

lemma admit_inv [inv_intros]: "lifecycle_inv l \<Longrightarrow> admit a k l = Inr l' \<Longrightarrow> lifecycle_inv l'"
  by (auto simp: lifecycle_inv_def admit_def distinct_update split: if_splits)

lemma start_inv [inv_intros]: "lifecycle_inv l \<Longrightarrow> start t a l = Inr l' \<Longrightarrow> lifecycle_inv l'"
proof -
  assume inv: "lifecycle_inv l" and ok: "start t a l = Inr l'"
  from ok obtain k where k: "dict_get (lc_admitted l) a = Some k"
    and l': "l' = l\<lparr>lc_admitted := dict_del (lc_admitted l) a,
                    lc_running := dict_set (lc_running l) a k,
                    lc_started := (lc_started l)(a \<mapsto> t)\<rparr>"
    by (auto simp: start_def split: option.splits)
  from k have "dict_has (lc_admitted l) a" by (simp add: dict_has_iff)
  with inv show ?thesis
    unfolding l' by (auto simp: lifecycle_inv_def distinct_update distinct_delete)
qed

lemma complete_inv [inv_intros]:
  assumes inv: "lifecycle_inv l" and ok: "complete t a oc l = Inr l'"
  shows "lifecycle_inv l'"
proof -
  from ok have run: "dict_has (lc_running l) a" and oc: "ao_turn oc = lc_turn l" "ao_id oc = a"
    by (auto simp: complete_def dict_has_iff split: option.splits if_splits)
  with inv have "a \<notin> lc_completed l" "\<not> dict_has (lc_admitted l) a"
    by (auto simp: lifecycle_inv_def)
  moreover from ok have
    "lc_running l' = dict_del (lc_running l) a" "lc_completed l' = insert a (lc_completed l)"
    "lc_outcomes l' = lc_outcomes l @ [oc]" "lc_turn l' = lc_turn l"
    "lc_admitted l' = lc_admitted l" "lc_started l' = lc_started l"
    by (auto simp: complete_def split: option.splits if_splits)
  ultimately show ?thesis
    using inv run oc by (auto simp: lifecycle_inv_def distinct_delete)
qed

subsection \<open>The machine over any sequence of calls\<close>

datatype lc_event =
    Ev_admit string tool_kind
  | Ev_start rat string
  | Ev_complete rat string action_outcome

fun lc_apply :: "lc_event \<Rightarrow> lifecycle \<Rightarrow> protocol_error + lifecycle" where
  "lc_apply (Ev_admit a k) l = admit a k l"
| "lc_apply (Ev_start t a) l = start t a l"
| "lc_apply (Ev_complete t a oc) l = complete t a oc l"

text \<open>A refused call raises and leaves the state as it was.\<close>

inductive lc_reachable :: "string \<Rightarrow> lifecycle \<Rightarrow> bool" for turn where
  fresh: "lc_reachable turn (new_lifecycle turn)"
| applied: "lc_reachable turn l \<Longrightarrow> lc_apply e l = Inr l' \<Longrightarrow> lc_reachable turn l'"

lemma lc_reachable_inv: "lc_reachable turn l \<Longrightarrow> lifecycle_inv l"
proof (induction rule: lc_reachable.induct)
  case fresh
  show ?case by (rule new_lifecycle_inv)
next
  case (applied l e l')
  then show ?case by (cases e) (auto intro: inv_intros)
qed

lemma lc_apply_turn: "lc_apply e l = Inr l' \<Longrightarrow> lc_turn l' = lc_turn l"
  by (cases e) (auto simp: admit_def start_def complete_def split: option.splits if_splits)

lemma lc_apply_outcomes_prefix:
  "lc_apply e l = Inr l' \<Longrightarrow> prefix (lc_outcomes l) (lc_outcomes l')"
  by (cases e) (auto simp: admit_def start_def complete_def split: option.splits if_splits)

lemma lc_reachable_turn: "lc_reachable turn l \<Longrightarrow> lc_turn l = turn"
  by (induction rule: lc_reachable.induct) (auto simp: new_lifecycle_def dest: lc_apply_turn)

subsection \<open>The interface the coordinator relies on\<close>

text \<open>
  \<open>idle\<close> is the state in which the model may be asked, and \<open>unused a\<close> says that \<open>a\<close> was never
  admitted. The three calls of one action, with an outcome that names it, succeed from an
  idle state, return to an idle state, append exactly that outcome, and use up one id.
\<close>

locale action_protocol =
  fixes adm :: "string \<Rightarrow> tool_kind \<Rightarrow> 'l \<Rightarrow> protocol_error + 'l"
    and strt :: "rat \<Rightarrow> string \<Rightarrow> 'l \<Rightarrow> protocol_error + 'l"
    and comp :: "rat \<Rightarrow> string \<Rightarrow> action_outcome \<Rightarrow> 'l \<Rightarrow> protocol_error + 'l"
    and ready :: "'l \<Rightarrow> protocol_error + unit"
    and turn :: "'l \<Rightarrow> string"
    and log :: "'l \<Rightarrow> action_outcome list"
    and good :: "'l \<Rightarrow> bool"
  assumes ready_run:
    "good l \<Longrightarrow> ready l = Inr () \<Longrightarrow> a \<notin> ao_id ` set (log l) \<Longrightarrow>
     \<exists>l2. rbind (adm a k l) (strt t a) = Inr l2
        \<and> log l2 = log l \<and> turn l2 = turn l
        \<and> (\<forall>t' oc. ao_turn oc = turn l \<and> ao_id oc = a \<and> ao_kind oc = k \<longrightarrow>
             (\<exists>l3. comp t' a oc l2 = Inr l3 \<and> good l3 \<and> ready l3 = Inr ()
                 \<and> log l3 = log l @ [oc] \<and> turn l3 = turn l))"
begin

text \<open>One whole action: admit, start, and complete with an outcome built for it.\<close>

definition perform :: "(rat \<times> rat \<times> action_outcome) \<Rightarrow> 'l \<Rightarrow> protocol_error + 'l" where
  "perform x l =
     (case x of (t, t', oc) \<Rightarrow>
        rbind (adm (ao_id oc) (ao_kind oc) l)
          (\<lambda>l1. rbind (strt t (ao_id oc) l1) (\<lambda>l2. comp t' (ao_id oc) oc l2)))"

lemma begin_ok:
  assumes "good l" "ready l = Inr ()" "a \<notin> ao_id ` set (log l)"
  obtains l2 where "rbind (adm a k l) (strt t a) = Inr l2" "log l2 = log l" "turn l2 = turn l"
    "\<And>t' oc. ao_turn oc = turn l \<Longrightarrow> ao_id oc = a \<Longrightarrow> ao_kind oc = k \<Longrightarrow>
       \<exists>l3. comp t' a oc l2 = Inr l3 \<and> good l3 \<and> ready l3 = Inr ()
          \<and> log l3 = log l @ [oc] \<and> turn l3 = turn l"
  using ready_run [OF assms, of k t] by blast

lemma perform_ok:
  assumes "good l" "ready l = Inr ()" "ao_id oc \<notin> ao_id ` set (log l)" "ao_turn oc = turn l"
  shows "\<exists>l3. perform (t, t', oc) l = Inr l3 \<and> good l3 \<and> ready l3 = Inr ()
       \<and> log l3 = log l @ [oc] \<and> turn l3 = turn l"
proof -
  obtain l2 where l2: "rbind (adm (ao_id oc) (ao_kind oc) l) (strt t (ao_id oc)) = Inr l2"
    and c: "\<exists>l3. comp t' (ao_id oc) oc l2 = Inr l3 \<and> good l3 \<and> ready l3 = Inr ()
          \<and> log l3 = log l @ [oc] \<and> turn l3 = turn l"
    using begin_ok [OF assms(1-3), of "ao_kind oc" t] assms(4) by metis
  then show ?thesis by (auto simp: perform_def)
qed

text \<open>A sequence of actions with distinct fresh ids never meets a protocol error.\<close>

lemma performs_ok:
  assumes "good l" "ready l = Inr ()"
    and "distinct (map ao_id (log l @ map (snd \<circ> snd) xs))"
    and "\<forall>x \<in> set xs. ao_turn (snd (snd x)) = turn l"
  shows "\<exists>l'. rfold (\<lambda>l x. perform x l) l xs = Inr l' \<and> good l' \<and> ready l' = Inr ()
       \<and> log l' = log l @ map (snd \<circ> snd) xs"
  using assms
proof (induction xs arbitrary: l)
  case Nil
  then show ?case by simp
next
  case (Cons x xs)
  obtain t t' oc where x: "x = (t, t', oc)" by (cases x)
  from Cons.prems(3,4) have "ao_id oc \<notin> ao_id ` set (log l)" "ao_turn oc = turn l"
    by (auto simp: x)
  from perform_ok [OF Cons.prems(1,2) this, of t t'] obtain l3 where l3:
    "perform (t, t', oc) l = Inr l3" "good l3" "ready l3 = Inr ()" "log l3 = log l @ [oc]"
    "turn l3 = turn l"
    by blast
  from Cons.prems(3) have "distinct (map ao_id (log l3 @ map (snd \<circ> snd) xs))"
    unfolding l3(4) x by (simp add: comp_def)
  moreover from Cons.prems(4) have "\<forall>y \<in> set xs. ao_turn (snd (snd y)) = turn l3"
    by (simp add: l3(5))
  ultimately obtain l' where "rfold (\<lambda>l x. perform x l) l3 xs = Inr l'" "good l'"
    "ready l' = Inr ()" "log l' = log l3 @ map (snd \<circ> snd) xs"
    using Cons.IH [OF l3(2,3)] by blast
  with l3(1,4) show ?case by (intro exI [of _ l']) (simp add: x)
qed

end

interpretation lcp: action_protocol admit start complete assert_ready_for_model
  lc_turn lc_outcomes lifecycle_inv
proof
  fix l a k t
  assume inv: "lifecycle_inv l" and ready: "assert_ready_for_model l = Inr ()"
    and fresh: "a \<notin> ao_id ` set (lc_outcomes l)"
  from ready have none: "lc_admitted l = []" "lc_running l = []"
    by (auto simp: assert_ready_for_model_def split: if_splits)
  with fresh inv have a: "a \<notin> lc_completed l" by (simp add: lifecycle_inv_def)
  let ?l2 = "l\<lparr>lc_running := [(a, k)], lc_started := (lc_started l)(a \<mapsto> t)\<rparr>"
  have l2: "rbind (admit a k l) (start t a) = Inr ?l2"
    using none a by (simp add: admit_def start_def)
  have inv2: "lifecycle_inv ?l2"
    using inv none a by (auto simp: lifecycle_inv_def dict_has_def)
  have "\<exists>l3. complete t' a oc ?l2 = Inr l3 \<and> lifecycle_inv l3
      \<and> assert_ready_for_model l3 = Inr () \<and> lc_outcomes l3 = lc_outcomes l @ [oc]
      \<and> lc_turn l3 = lc_turn l"
    if oc: "ao_turn oc = lc_turn l" "ao_id oc = a" "ao_kind oc = k" for t' oc
  proof -
    from oc none obtain l3 where l3: "complete t' a oc ?l2 = Inr l3"
      and eqs: "lc_outcomes l3 = lc_outcomes l @ [oc]" "lc_turn l3 = lc_turn l"
        "lc_admitted l3 = []" "lc_running l3 = []"
      by (simp add: complete_def)
    from complete_inv [OF inv2 l3] show ?thesis
      using l3 eqs by (simp add: assert_ready_for_model_def)
  qed
  then show "\<exists>l2. rbind (admit a k l) (start t a) = Inr l2
      \<and> lc_outcomes l2 = lc_outcomes l \<and> lc_turn l2 = lc_turn l
      \<and> (\<forall>t' oc. ao_turn oc = lc_turn l \<and> ao_id oc = a \<and> ao_kind oc = k \<longrightarrow>
           (\<exists>l3. complete t' a oc l2 = Inr l3 \<and> lifecycle_inv l3
               \<and> assert_ready_for_model l3 = Inr () \<and> lc_outcomes l3 = lc_outcomes l @ [oc]
               \<and> lc_turn l3 = lc_turn l))"
    using l2 by (intro exI [of _ ?l2]) simp
qed

subsection \<open>What any sequence of calls keeps\<close>

text \<open>
  No action is reported twice: in every state the lifecycle can reach by any sequence of
  admit, start and complete calls, refused ones included, the outcomes have distinct ids, all
  belong to the turn, are exactly the completed actions, and a completed action is neither
  waiting nor running nor ever admitted again.
\<close>

theorem outcomes_unique:
  assumes "lc_reachable turn l"
  shows "distinct (map ao_id (lc_outcomes l))
    \<and> ao_id ` set (lc_outcomes l) = lc_completed l
    \<and> (\<forall>oc \<in> set (lc_outcomes l). ao_turn oc = turn
         \<and> \<not> dict_has (lc_admitted l) (ao_id oc) \<and> \<not> dict_has (lc_running l) (ao_id oc)
         \<and> admit (ao_id oc) k l = Inl Duplicate_action)"
  using lc_reachable_inv [OF assms] lc_reachable_turn [OF assms]
  by (auto simp: lifecycle_inv_def admit_def)

definition demo_outcome :: action_outcome where
  "demo_outcome = \<lparr>ao_turn = ''t1'', ao_id = ''act-1'', ao_kind = Query_business,
     ao_status = Succeeded, ao_result = RNone, ao_elapsed = None\<rparr>"

definition demo_done :: lifecycle where
  "demo_done = \<lparr>lc_turn = ''t1'', lc_admitted = [], lc_running = [], lc_completed = {''act-1''},
     lc_outcomes = [demo_outcome], lc_started = [''act-1'' \<mapsto> 1], lc_elapsed = [''act-1'' \<mapsto> 1000]\<rparr>"

lemma demo_done_reachable: "lc_reachable ''t1'' demo_done"
proof -
  have "lc_reachable ''t1'' (new_lifecycle ''t1'')" by (rule lc_reachable.fresh)
  then have "lc_reachable ''t1'' ((new_lifecycle ''t1'')\<lparr>lc_admitted := [(''act-1'', Query_business)]\<rparr>)"
    by (rule lc_reachable.applied [of _ _ "Ev_admit ''act-1'' Query_business"])
      (simp add: admit_def new_lifecycle_def)
  then have "lc_reachable ''t1'' ((new_lifecycle ''t1'')\<lparr>lc_running := [(''act-1'', Query_business)],
      lc_started := [''act-1'' \<mapsto> 1]\<rparr>)"
    by (rule lc_reachable.applied [of _ _ "Ev_start 1 ''act-1''"])
      (simp add: start_def new_lifecycle_def)
  then show ?thesis
    by (rule lc_reachable.applied [of _ _ "Ev_complete 2 ''act-1'' demo_outcome"])
      (simp add: complete_def new_lifecycle_def demo_outcome_def demo_done_def elapsed_since_def)
qed

theorem outcomes_unique_witness: "admit ''act-1'' Search_documents demo_done = Inl Duplicate_action"
  using outcomes_unique [OF demo_done_reachable, of Search_documents]
  by (simp add: demo_done_def demo_outcome_def)

end
