(* ===== verification/Coord_Policy.thy ===== *)
theory Coord_Policy
  imports Coord_Types Py_Regex
begin

text \<open>
  The ceilings of a coordinator turn and the actions they leave open
  (app/conversation/coordinator/policy.py): the counters of a turn, \<open>allowed_actions\<close>, the rule
  that a lone table answer is not narrated, and the out-of-scope sentence. The two decision
  ceilings in seconds are scaled by the budget multiplier of app/core/ask_budget.py.
\<close>

record policy =
  max_decisions :: nat
  max_actions :: nat
  max_business_queries :: nat
  max_document_searches :: nat
  max_restores :: nat
  decision_ceiling :: rat
  final_decision_ceiling :: rat

definition default_policy :: policy where
  "default_policy =
     \<lparr>max_decisions = 6, max_actions = 4, max_business_queries = 1, max_document_searches = 2,
      max_restores = 1, decision_ceiling = 10, final_decision_ceiling = 15\<rparr>"

datatype budget_error = Multiplier_not_positive

definition ask_budget_multiplier :: "rat \<Rightarrow> budget_error + rat" where
  "ask_budget_multiplier setting =
     (if setting \<le> 0 then Inl Multiplier_not_positive else Inr setting)"

definition scale_ask_seconds :: "rat \<Rightarrow> rat \<Rightarrow> budget_error + rat" where
  "scale_ask_seconds setting seconds =
     rbind (ask_budget_multiplier setting) (\<lambda>m. Inr (seconds * m))"

definition scaled_coordinator_policy :: "rat \<Rightarrow> budget_error + policy" where
  "scaled_coordinator_policy setting =
     rbind (scale_ask_seconds setting (decision_ceiling default_policy)) (\<lambda>d.
     rbind (scale_ask_seconds setting (final_decision_ceiling default_policy)) (\<lambda>f.
       Inr (default_policy\<lparr>decision_ceiling := d, final_decision_ceiling := f\<rparr>)))"

record turn_counters =
  used_actions :: nat
  used_decisions :: nat
  used_queries :: nat
  used_searches :: nat
  used_restores :: nat
  used_explained :: bool
  query_failed :: bool

definition ALL_ACTIONS :: "action_kind set" where
  "ALL_ACTIONS = {Tool Query_business, Tool Search_documents, Tool Explain_sources,
                  Finish_answer, Clarify_kind}"

definition ALL_ENDINGS :: "action_kind set" where
  "ALL_ENDINGS = {Finish_answer, Clarify_kind}"

definition TOOL_ACTIONS :: "action_kind set" where
  "TOOL_ACTIONS = {Tool Query_business, Tool Search_documents, Tool Explain_sources}"

definition business_query_failed :: "action_outcome list \<Rightarrow> bool" where
  "business_query_failed outcomes \<longleftrightarrow>
     list_ex (\<lambda>oc. ao_kind oc = Query_business \<and> ao_status oc \<noteq> Succeeded) outcomes"

text \<open>
  \<open>used.decisions >= policy.max_decisions - 1\<close> is written over the integers, as Python
  computes it.
\<close>

definition at_ceiling :: "policy \<Rightarrow> turn_counters \<Rightarrow> bool" where
  "at_ceiling p u \<longleftrightarrow>
     max_actions p \<le> used_actions u \<or> int (max_decisions p) - 1 \<le> int (used_decisions u)"

definition allowed_actions ::
    "policy \<Rightarrow> turn_counters \<Rightarrow> bool \<Rightarrow> action_kind set \<Rightarrow> action_kind set" where
  "allowed_actions p u has_candidates available =
     (let queried = (query_failed u \<or> 0 < used_queries u) in
      if at_ceiling p u then (if queried then {Finish_answer} else ALL_ENDINGS)
      else
        (let a0 = ALL_ACTIONS - (TOOL_ACTIONS - available);
             a1 = (if max_business_queries p \<le> used_queries u
                   then a0 - {Tool Query_business} else a0);
             a2 = (if max_document_searches p \<le> used_searches u
                   then a1 - {Tool Search_documents} else a1);
             a3 = (if max_restores p \<le> used_restores u \<or> \<not> has_candidates
                   then a2 - {Tool Explain_sources} else a2)
         in if queried then a3 - {Clarify_kind} else a3))"

text \<open>\<open>\b(why|explain|how come|what does .+ mean|compare)\b\<close>, ignoring case.\<close>

definition explanation_re :: re where
  "explanation_re =
     Seq Bound (Seq (alt_all
       [lit ''why'', lit ''explain'', lit ''how come'',
        Seq (lit ''what does '') (Seq (Plus any_but_newline) (lit '' mean'')),
        lit ''compare'']) Bound)"

definition finishes_without_narration ::
    "action_outcome list \<Rightarrow> observation list \<Rightarrow> string \<Rightarrow> bool \<Rightarrow> string option \<Rightarrow> bool" where
  "finishes_without_narration outcomes observations question compound out_of_scope \<longleftrightarrow>
     \<not> compound \<and> \<not> truthy_str out_of_scope
     \<and> (case outcomes of
          [oc] \<Rightarrow> ao_kind oc = Query_business \<and> ao_status oc = Succeeded
        | _ \<Rightarrow> False)
     \<and> observations \<noteq> []
     \<and> ob_rows (last observations) \<noteq> [] \<and> length (ob_tables (last observations)) \<le> 1
     \<and> \<not> re_search explanation_re question"

definition out_of_scope_sentence :: "string \<Rightarrow> string" where
  "out_of_scope_sentence part =
     ''I can only help with the company's records and documents, so I can't help with ''
     @ py_rstrip_chars ''.?!'' (py_strip part) @ ''.''"

subsection \<open>What the allowed actions are\<close>

lemma allowed_in_all: "allowed_actions p u c av \<subseteq> ALL_ACTIONS"
  by (auto simp: allowed_actions_def Let_def ALL_ACTIONS_def ALL_ENDINGS_def)

lemma finish_always_allowed: "Finish_answer \<in> allowed_actions p u c av"
  by (simp add: allowed_actions_def Let_def ALL_ACTIONS_def ALL_ENDINGS_def TOOL_ACTIONS_def)

lemma query_allowed_iff:
  "Tool Query_business \<in> allowed_actions p u c av \<longleftrightarrow>
     \<not> at_ceiling p u \<and> Tool Query_business \<in> av \<and> used_queries u < max_business_queries p"
  by (auto simp: allowed_actions_def Let_def ALL_ACTIONS_def ALL_ENDINGS_def TOOL_ACTIONS_def)

lemma search_allowed_iff:
  "Tool Search_documents \<in> allowed_actions p u c av \<longleftrightarrow>
     \<not> at_ceiling p u \<and> Tool Search_documents \<in> av \<and> used_searches u < max_document_searches p"
  by (auto simp: allowed_actions_def Let_def ALL_ACTIONS_def ALL_ENDINGS_def TOOL_ACTIONS_def)

lemma explain_allowed_iff:
  "Tool Explain_sources \<in> allowed_actions p u c av \<longleftrightarrow>
     \<not> at_ceiling p u \<and> Tool Explain_sources \<in> av \<and> used_restores u < max_restores p \<and> c"
  by (auto simp: allowed_actions_def Let_def ALL_ACTIONS_def ALL_ENDINGS_def TOOL_ACTIONS_def)

lemma clarify_allowed_iff:
  "Clarify_kind \<in> allowed_actions p u c av \<longleftrightarrow> \<not> query_failed u \<and> used_queries u = 0"
  by (auto simp: allowed_actions_def Let_def ALL_ACTIONS_def ALL_ENDINGS_def TOOL_ACTIONS_def)

lemmas allowed_iffs = finish_always_allowed query_allowed_iff search_allowed_iff
  explain_allowed_iff clarify_allowed_iff

lemma tool_allowed_below:
  "Tool k \<in> allowed_actions p u c av \<Longrightarrow> used_actions u < max_actions p"
  by (cases k) (auto simp: allowed_iffs at_ceiling_def)

text \<open>
  What a decision may be, exactly: finishing always; a tool when it is available, its own
  ceiling is not reached, at least two decisions and one action are left, and, for a restore,
  there are candidates; clarifying until a business query was made or failed.
\<close>

theorem allowed_actions_spec:
  "allowed_actions p u has_candidates available = {a \<in> ALL_ACTIONS.
     case a of
       Finish_answer \<Rightarrow> True
     | Clarify_kind \<Rightarrow> \<not> query_failed u \<and> used_queries u = 0
     | Tool k \<Rightarrow> Tool k \<in> available \<and> used_actions u < max_actions p
         \<and> int (used_decisions u) < int (max_decisions p) - 1
         \<and> (case k of
              Query_business \<Rightarrow> used_queries u < max_business_queries p
            | Search_documents \<Rightarrow> used_searches u < max_document_searches p
            | Explain_sources \<Rightarrow> used_restores u < max_restores p \<and> has_candidates)}"
proof (rule set_eqI)
  fix a
  have ceil: "at_ceiling p u \<longleftrightarrow> \<not> (used_actions u < max_actions p
      \<and> int (used_decisions u) < int (max_decisions p) - 1)"
    by (auto simp: at_ceiling_def)
  have all: "a \<in> ALL_ACTIONS"
    by (cases a rule: action_kind.exhaust; cases "case a of Tool k \<Rightarrow> k | _ \<Rightarrow> Query_business")
      (simp_all add: ALL_ACTIONS_def)
  show "a \<in> allowed_actions p u has_candidates available \<longleftrightarrow> a \<in> {a \<in> ALL_ACTIONS.
     case a of
       Finish_answer \<Rightarrow> True
     | Clarify_kind \<Rightarrow> \<not> query_failed u \<and> used_queries u = 0
     | Tool k \<Rightarrow> Tool k \<in> available \<and> used_actions u < max_actions p
         \<and> int (used_decisions u) < int (max_decisions p) - 1
         \<and> (case k of
              Query_business \<Rightarrow> used_queries u < max_business_queries p
            | Search_documents \<Rightarrow> used_searches u < max_document_searches p
            | Explain_sources \<Rightarrow> used_restores u < max_restores p \<and> has_candidates)}"
  proof (cases a)
    case (Tool k)
    with all show ?thesis by (cases k) (auto simp: allowed_iffs ceil)
  qed (use all in \<open>simp_all add: allowed_iffs\<close>)
qed

end
