(* ===== verification/Draft_Checks.thy ===== *)
theory Draft_Checks
  imports Coord_Policy
begin

text \<open>
  The rules a draft must keep before the turn ends with it
  (app/conversation/coordinator/draft_checks.py): evidence ids come from observations, no record
  id is stated as an amount, a restated document answer cites passages, a failed query leaves
  a suggestion, and a clarification offers choices about records the person can see.
\<close>

subsection \<open>The patterns\<close>

abbreviation spaces :: re where "spaces \<equiv> Star (Cls is_space)"

definition assistant_voice_re :: re where
  "assistant_voice_re =
     Seq spaces (Seq (alt_all [lit ''you could'', lit ''would you like'', lit ''i can'']) Bound)"

definition placeholder_re :: re where
  "placeholder_re =
     Seq (char_re CHR ''['') (Seq (Star (Cls (\<lambda>c. c \<noteq> CHR '']''))) (char_re CHR '']''))"

definition instruction_re :: re where
  "instruction_re =
     Seq spaces (Seq (Opt (Alt (Seq (lit ''first'') (Plus (Cls is_space)))
                               (Seq (lit ''then'') (Plus (Cls is_space)))))
       (Seq (lit ''ask'') Bound))"

text \<open>\<open>\b[A-Z]{3}\s?(\d[\d,]*(?:\.\d+)?)\<close>: a currency code and the figure after it.\<close>

definition amount_prefix_re :: re where
  "amount_prefix_re =
     Seq Bound (Seq (Cls is_upper) (Seq (Cls is_upper) (Seq (Cls is_upper) (Opt (Cls is_space)))))"

definition amount_number_re :: re where
  "amount_number_re =
     Seq (Cls is_digit) (Seq (Star (Cls (\<lambda>c. is_digit c \<or> c = CHR '','')))
       (Opt (Seq (char_re CHR ''.'') (Plus (Cls is_digit)))))"

definition amount_re :: re where
  "amount_re = Seq amount_prefix_re amount_number_re"

definition amount_group :: "string \<Rightarrow> nat \<Rightarrow> string" where
  "amount_group s a =
     (case concat (map (\<lambda>j. map (\<lambda>k. (j, k)) (ends amount_number_re s j))
                       (ends amount_prefix_re s a)) of
        [] \<Rightarrow> []
      | (j, k) # _ \<Rightarrow> take (k - j) (drop j s))"

subsection \<open>Decimal(str(value).replace(",", ""))\<close>

text \<open>
  The finite decimals. Infinities and quiet NaNs parse in Python too, but equal no figure a
  draft can state, so they are \<open>None\<close> here; a cell spelled \<open>sNaN\<close>, which Python cannot put in
  a set, is outside the model.
\<close>

definition split_sign :: "string \<Rightarrow> bool \<times> string" where
  "split_sign s =
     (case s of
        c # cs \<Rightarrow> if c = CHR ''-'' then (True, cs) else if c = CHR ''+'' then (False, cs)
                  else (False, s)
      | [] \<Rightarrow> (False, []))"

definition parse_exponent :: "string \<Rightarrow> int option" where
  "parse_exponent s =
     (case s of
        [] \<Rightarrow> Some 0
      | c # cs \<Rightarrow>
          if lower_char c \<noteq> CHR ''e'' then None
          else (case split_sign cs of (neg, ds) \<Rightarrow>
                  if ds = [] \<or> \<not> list_all is_digit ds then None
                  else Some (if neg then - int (read_digits ds) else int (read_digits ds))))"

definition ten_power :: "int \<Rightarrow> rat" where
  "ten_power e = (if 0 \<le> e then 10 ^ nat e else 1 / 10 ^ nat (- e))"

definition parse_decimal :: "string \<Rightarrow> rat option" where
  "parse_decimal text =
     (let t = filter (\<lambda>c. c \<noteq> CHR ''_'') (py_strip text);
          (neg, body) = split_sign t;
          whole = takeWhile is_digit body;
          rest = dropWhile is_digit body;
          (frac, rest2) =
            (case rest of
               c # cs \<Rightarrow> if c = CHR ''.'' then (takeWhile is_digit cs, dropWhile is_digit cs)
                         else ([], rest)
             | [] \<Rightarrow> ([], []))
      in if whole = [] \<and> frac = [] then None
         else map_option
           (\<lambda>e. (if neg then -1 else 1) * of_nat (read_digits (whole @ frac))
                 * ten_power (e - int (length frac)))
           (parse_exponent rest2))"

definition number_of :: "string \<Rightarrow> rat option" where
  "number_of s = parse_decimal (filter (\<lambda>c. c \<noteq> CHR '','') s)"

subsection \<open>Checks on a finished draft\<close>

definition in_assistants_voice :: "string \<Rightarrow> bool" where
  "in_assistants_voice text \<longleftrightarrow> re_match assistant_voice_re text"

definition not_a_next_question :: "string \<Rightarrow> bool" where
  "not_a_next_question text \<longleftrightarrow>
     in_assistants_voice text \<or> re_search placeholder_re text \<or> re_match instruction_re text"

definition lacks_a_suggestion :: "finish_draft \<Rightarrow> observation list \<Rightarrow> bool" where
  "lacks_a_suggestion d obs \<longleftrightarrow>
     list_ex (\<lambda>ob. ob_failure ob \<noteq> None) obs
     \<and> \<not> list_ex (\<lambda>b. ab_claim b = Suggestion \<and> \<not> not_a_next_question (ab_text b)) (fd_blocks d)"

definition stood_on_documents :: "restored_turn \<Rightarrow> bool" where
  "stood_on_documents t \<longleftrightarrow>
     ''document_search'' \<in> set (rt_selected t) \<or> None \<in> set (rt_source_types t)"

definition cited_ids :: "finish_draft \<Rightarrow> string set" where
  "cited_ids d = \<Union> ((\<lambda>b. set (ab_evidence b)) ` set (fd_blocks d))"

definition known_ids :: "observation list \<Rightarrow> string set" where
  "known_ids obs = \<Union> ((\<lambda>ob. set (ob_evidence ob)) ` set obs)"

definition restored_document_ids :: "action_outcome list \<Rightarrow> string set" where
  "restored_document_ids outcomes =
     \<Union> ((\<lambda>oc. case ao_result oc of
                 RSources ss \<Rightarrow> rt_exchange ` set (filter stood_on_documents (ss_turns ss))
               | _ \<Rightarrow> {}) ` set outcomes)"

definition searched_passage_ids :: "action_outcome list \<Rightarrow> string set" where
  "searched_passage_ids outcomes =
     \<Union> ((\<lambda>oc. case ao_result oc of
                 RDocs r \<Rightarrow> if ao_status oc = Succeeded then pg_id ` set (dr_passages r) else {}
               | _ \<Rightarrow> {}) ` set outcomes)"

definition restates_a_document_answer :: "finish_draft \<Rightarrow> action_outcome list \<Rightarrow> bool" where
  "restates_a_document_answer d outcomes \<longleftrightarrow>
     cited_ids d \<inter> restored_document_ids outcomes \<noteq> {}
     \<and> cited_ids d \<inter> searched_passage_ids outcomes = {}"

definition names_a_record_type :: "string \<Rightarrow> string list \<Rightarrow> bool" where
  "names_a_record_type text types \<longleftrightarrow>
     list_ex (\<lambda>t. let label = lit (py_lower (map (\<lambda>c. if c = CHR ''_'' then CHR '' '' else c) t))
                  in re_search (Seq Bound (Seq (alt_all
                       [label, Seq label (lit ''s''), Seq label (lit ''es'')]) Bound)) text) types"

definition cites_an_earlier_answer_text :: "action_kind set \<Rightarrow> string" where
  "cites_an_earlier_answer_text allowed =
     (if Tool Explain_sources \<in> allowed
      then ''it cites an earlier answer as evidence: restore it with explain_sources and ''
           @ ''cite what that returns, or write that sentence as a general block with no ''
           @ ''evidence ids''
      else ''it cites an earlier answer that this turn did not restore, and no restore is ''
           @ ''left: write that sentence as a general block with no evidence ids'')"

definition column_keys :: "observation list \<Rightarrow> bool \<Rightarrow> string set" where
  "column_keys obs identifier =
     \<Union> ((\<lambda>ob. oc_key ` set (filter (\<lambda>c. oc_identifier c = identifier) (ob_columns ob))) ` set obs)"

definition cell_numbers :: "observation list \<Rightarrow> bool \<Rightarrow> rat set" where
  "cell_numbers obs identifier =
     (let keys = column_keys obs identifier in
      set (List.map_filter (\<lambda>(k, v). if k \<in> keys then number_of (show_cell v) else None)
             (concat (concat (map ob_rows obs)))))"

definition stated_amounts :: "finish_draft \<Rightarrow> rat set" where
  "stated_amounts d =
     set (List.map_filter number_of
       (concat (map (\<lambda>b. map (\<lambda>(a, _). amount_group (ab_text b) a) (finditer amount_re (ab_text b) 0))
                 (filter (\<lambda>b. ab_claim b = Evidence) (fd_blocks d)))))"

definition states_an_id_as_an_amount :: "finish_draft \<Rightarrow> observation list \<Rightarrow> bool" where
  "states_an_id_as_an_amount d obs \<longleftrightarrow>
     (\<exists>n \<in> stated_amounts d. n \<in> cell_numbers obs True \<and> n \<notin> cell_numbers obs False)"

definition draft_problems ::
    "finish_draft \<Rightarrow> observation list \<Rightarrow> string set \<Rightarrow> action_kind set \<Rightarrow> string list" where
  "draft_problems d obs earlier allowed =
     (let invented = cited_ids d - known_ids obs in
      (if invented \<inter> earlier \<noteq> {} then [cites_an_earlier_answer_text allowed]
       else if invented \<noteq> {}
       then [''it cites evidence ids that no succeeded action returned''] else [])
      @ (if states_an_id_as_an_amount d obs
         then [''it states a record id as an amount; quote an amount the table shows''] else []))"

subsection \<open>The rule tables\<close>

record draft_facts =
  df_observations :: "observation list"
  df_outcomes :: "action_outcome list"
  df_earlier :: "string set"
  df_allowed :: "action_kind set"
  df_unreachable :: "string list"

record 'a draft_rule =
  dru_name :: string
  dru_check :: "'a \<Rightarrow> draft_facts \<Rightarrow> string option"
  dru_holds :: bool
  dru_stops :: bool

definition evidence_check :: "finish_draft \<Rightarrow> draft_facts \<Rightarrow> string option" where
  "evidence_check d f =
     (let ps = draft_problems d (df_observations f) (df_earlier f) (df_allowed f)
      in if ps = [] then None else Some (py_join ''; '' ps @ ''.''))"

definition restated_document_check :: "finish_draft \<Rightarrow> draft_facts \<Rightarrow> string option" where
  "restated_document_check d f =
     (if \<not> restates_a_document_answer d (df_outcomes f) then None
      else if list_ex (\<lambda>oc. ao_kind oc = Search_documents \<and> ao_status oc = Succeeded) (df_outcomes f)
      then Some (''it restates a document answer without citing the search passages; ''
                 @ ''cite the passages the search returned.'')
      else if Tool Search_documents \<in> df_allowed f
      then Some (''it restates a document answer without its source; ''
                 @ ''search the documents and cite the passages.'')
      else None)"

definition suggestion_check :: "finish_draft \<Rightarrow> draft_facts \<Rightarrow> string option" where
  "suggestion_check d f =
     (if lacks_a_suggestion d (df_observations f)
      then Some ''it offers no next question; add one to three suggestion blocks.'' else None)"

definition asks_the_person :: "finish_draft \<Rightarrow> bool" where
  "asks_the_person d \<longleftrightarrow>
     \<not> list_ex (\<lambda>b. ab_evidence b \<noteq> []) (fd_blocks d)
     \<and> (let text = py_strip (py_join '' ''
                     (map ab_text (filter (\<lambda>b. ab_claim b \<noteq> Suggestion) (fd_blocks d))))
        in text \<noteq> [] \<and> last text = CHR ''?'')"

definition asks_back_check :: "finish_draft \<Rightarrow> draft_facts \<Rightarrow> string option" where
  "asks_back_check d f =
     (if Clarify_kind \<notin> df_allowed f \<or> \<not> asks_the_person d then None
      else Some (''it asks the person a question inside an answer; use clarify with two to ''
                 @ ''four choices, or answer without a question.''))"

definition choices_check :: "clarify_action \<Rightarrow> draft_facts \<Rightarrow> string option" where
  "choices_check c f =
     (if ca_choices c \<noteq> [] then None
      else Some ''it offers no choices; give two to four short choices the person can pick.'')"

definition unreachable_check :: "clarify_action \<Rightarrow> draft_facts \<Rightarrow> string option" where
  "unreachable_check c f =
     (if \<not> names_a_record_type (ca_question c) (df_unreachable f) then None
      else Some (''it asks about a record type this person cannot see; send the question to ''
                 @ ''query_business and explain what is not available.''))"

definition evidence_rule :: "finish_draft draft_rule" where
  "evidence_rule = \<lparr>dru_name = ''evidence'', dru_check = evidence_check,
                    dru_holds = False, dru_stops = True\<rparr>"

definition FINISH_RULES :: "finish_draft draft_rule list" where
  "FINISH_RULES =
     [evidence_rule,
      \<lparr>dru_name = ''asks_back'', dru_check = asks_back_check, dru_holds = True, dru_stops = False\<rparr>,
      \<lparr>dru_name = ''restated_document'', dru_check = restated_document_check, dru_holds = True,
       dru_stops = False\<rparr>,
      \<lparr>dru_name = ''suggestion'', dru_check = suggestion_check, dru_holds = True,
       dru_stops = False\<rparr>]"

definition CLARIFY_RULES :: "clarify_action draft_rule list" where
  "CLARIFY_RULES =
     [\<lparr>dru_name = ''unreachable_record_type'', dru_check = unreachable_check, dru_holds = False,
       dru_stops = False\<rparr>,
      \<lparr>dru_name = ''choices'', dru_check = choices_check, dru_holds = True, dru_stops = False\<rparr>]"

subsection \<open>What a draft that keeps the evidence rule cites\<close>

lemma draft_problems_Nil_iff:
  "draft_problems d obs earlier allowed = [] \<longleftrightarrow>
     cited_ids d \<subseteq> known_ids obs \<and> \<not> states_an_id_as_an_amount d obs"
  by (auto simp: draft_problems_def Let_def)

lemma evidence_check_None:
  "evidence_check d f = None \<longleftrightarrow>
     cited_ids d \<subseteq> known_ids (df_observations f)
     \<and> \<not> states_an_id_as_an_amount d (df_observations f)"
  by (simp add: evidence_check_def Let_def draft_problems_Nil_iff)

lemma known_ids_append [simp]: "known_ids (xs @ ys) = known_ids xs \<union> known_ids ys"
  by (auto simp: known_ids_def)

lemma known_ids_mono: "set xs \<subseteq> set ys \<Longrightarrow> known_ids xs \<subseteq> known_ids ys"
  by (auto simp: known_ids_def)

text \<open>A repair never asks for a restore the next decision does not offer.\<close>

lemma repair_names_only_offered_restore:
  "Tool Explain_sources \<notin> allowed \<Longrightarrow>
     cites_an_earlier_answer_text allowed =
       ''it cites an earlier answer that this turn did not restore, and no restore is ''
       @ ''left: write that sentence as a general block with no evidence ids''"
  by (simp add: cites_an_earlier_answer_text_def)

end
