(* ===== verification/Observations.thy ===== *)
theory Observations
  imports Draft_Checks
begin

text \<open>
  The business-safe projection of one action outcome, which is all the model reads of it
  (app/conversation/coordinator/observations.py): the search summary and the offer text inside
  it, the fair split of the row and value caps across tables, and the observation of every
  kind of outcome. Building an observation validates pydantic's length limits, so the
  projection may raise.
\<close>

datatype coord_error =
    Validation_error
  | Assertion_error
  | Raised string

definition MAX_OBSERVATION_ROWS :: nat where "MAX_OBSERVATION_ROWS = 20"
definition MAX_OBSERVATION_VALUES :: nat where "MAX_OBSERVATION_VALUES = 16"
definition SEARCH_SUMMARY_LIMIT :: nat where "SEARCH_SUMMARY_LIMIT = 2000"

subsection \<open>The search summary and the offer text\<close>

definition search_line_prefix :: "passage \<Rightarrow> string" where
  "search_line_prefix p = ''['' @ pg_id p @ ''] ('' @ pg_file p @ ''): ''"

definition search_line :: "passage \<Rightarrow> string" where
  "search_line p = search_line_prefix p @ pg_content p"

definition document_search_summary :: "passage list \<Rightarrow> string" where
  "document_search_summary ps =
     (if ps = [] then ''No documents matched.''
      else take SEARCH_SUMMARY_LIMIT (py_join newline (map search_line ps)))"

text \<open>
  The loop of \<open>document_search_offer_text\<close>. \<open>first\<close> is \<open>index = 0\<close>; \<open>cursor\<close> is where the
  line starts in the summary.
\<close>

fun offer_chunks :: "bool \<Rightarrow> nat \<Rightarrow> passage list \<Rightarrow> string list" where
  "offer_chunks first cursor [] = []"
| "offer_chunks first cursor (p # ps) =
     (let cursor = (if first then cursor else cursor + 1) in
      if \<not> first \<and> SEARCH_SUMMARY_LIMIT \<le> cursor then []
      else
        (let content_start = cursor + length (search_line_prefix p);
             line_end = content_start + length (pg_content p);
             visible_to = min line_end SEARCH_SUMMARY_LIMIT;
             chunk = (if content_start < visible_to
                      then [take (visible_to - content_start) (pg_content p)] else [])
         in chunk @ (if SEARCH_SUMMARY_LIMIT \<le> line_end then []
                     else offer_chunks False line_end ps)))"

definition document_search_offer_text :: "passage list \<Rightarrow> string" where
  "document_search_offer_text ps =
     (if ps = [] then [] else py_join newline (offer_chunks True 0 ps))"

subsection \<open>Fair shares of a cap\<close>

fun shares_first :: "nat \<Rightarrow> nat \<Rightarrow> nat list \<Rightarrow> nat list \<times> nat" where
  "shares_first each room [] = ([], room)"
| "shares_first each room (sz # szs) =
     (let tk = min (min sz each) room;
          (rest, room') = shares_first each (room - tk) szs
      in (tk # rest, room'))"

fun shares_extra :: "nat \<Rightarrow> nat list \<Rightarrow> nat list \<Rightarrow> nat list" where
  "shares_extra room (sz # szs) (share # shares) =
     (let extra = min (sz - share) room
      in (share + extra) # shares_extra (room - extra) szs shares)"
| "shares_extra room _ _ = []"

definition fair_shares :: "nat list \<Rightarrow> nat \<Rightarrow> nat list" where
  "fair_shares sizes cap =
     (let each = (if sizes = [] then 0 else max 1 (cap div length sizes));
          (shares, room) = shares_first each cap sizes
      in shares_extra room sizes shares)"

subsection \<open>Tables of a business answer\<close>

definition sql_clause_re :: re where
  "sql_clause_re =
     (let ident = Cls (\<lambda>c. is_word c \<or> c = CHR ''.'');
          select_kw = Seq Bound (Seq (lit ''select'') Bound)
      in alt_all
        [Seq select_kw (Seq (LazyStar any_but_newline) (Seq Bound (Seq (lit ''from'') (Seq Bound
           (Seq (Plus (Cls is_space)) (Seq (Plus ident)
             (Opt (Seq (Plus (Cls is_space)) (Seq (lit ''where'') (Seq Bound
                (LazyStar any_but_newline))))))))))),
         Seq select_kw (Star any_but_newline),
         Seq Bound (Seq (lit ''where:'') (Seq spaces (Seq (lit ''select'') (Seq Bound
           (Star any_but_newline))))),
         Seq Bound (Seq (lit ''billing_'') (Seq (Plus (Cls is_word)) Bound))])"

definition scrub_sql :: "string \<Rightarrow> string" where
  "scrub_sql text = py_strip (re_sub sql_clause_re ''[redacted]'' text)"

definition json_scalar :: "cell \<Rightarrow> cell" where
  "json_scalar v = (case v of COther s \<Rightarrow> CStr s | _ \<Rightarrow> v)"

definition row_get :: "(string, cell) dict \<Rightarrow> string \<Rightarrow> cell" where
  "row_get r k = (case dict_get r k of None \<Rightarrow> CNone | Some v \<Rightarrow> v)"

definition presentation_summary :: "envelope \<Rightarrow> nat \<Rightarrow> string list" where
  "presentation_summary env seen =
     (let held = length (en_rows env) in
      (case en_presentation env of
         None \<Rightarrow> []
       | Some p \<Rightarrow>
           (if pr_title p \<noteq> [] then [scrub_sql (pr_title p)] else [])
           @ (if pr_filters p \<noteq> []
              then [''Filters: '' @ py_join '', '' (map scrub_sql (pr_filters p))] else [])
           @ (case pr_scope p of
                Some s \<Rightarrow> if s \<noteq> [] then [''Scope: '' @ scrub_sql s] else []
              | None \<Rightarrow> []))
      @ (if en_partial env
         then [''shows '' @ show_int (en_returned env) @ '' of '' @ show_int (en_total env)
               @ '' rows'']
         else if seen = held then [''shows every matching row''] else [])
      @ (if seen < held
         then [''you see '' @ show_nat seen @ '' of its '' @ show_nat held @ '' rows''] else []))"

definition shown_columns :: "envelope \<Rightarrow> result_column list" where
  "shown_columns env =
     filter (\<lambda>c. \<not> (rc_identifier c \<and> truthy_str (rc_display_key c))) (en_columns env)"

definition value_cells :: "(string, cell) dict list \<Rightarrow> result_column list \<Rightarrow> (string \<times> cell) list" where
  "value_cells rows shown =
     concat (map (\<lambda>r. filter (\<lambda>(k, v). v \<noteq> CNone) (map (\<lambda>c. (rc_key c, row_get r (rc_key c))) shown))
              rows)"

definition keyed_row :: "result_column list \<Rightarrow> (string, cell) dict \<Rightarrow> (string, cell) dict" where
  "keyed_row shown r =
     foldl (\<lambda>d c. dict_set d (rc_key c) (json_scalar (row_get r (rc_key c)))) [] shown"

definition observed :: "result_column \<Rightarrow> observed_column" where
  "observed c = \<lparr>oc_key = rc_key c, oc_kind = rc_kind c, oc_identifier = rc_identifier c,
                 oc_label = rc_label c\<rparr>"

fun add_columns :: "observed_column list \<Rightarrow> result_column list \<Rightarrow> observed_column list" where
  "add_columns cols [] = cols"
| "add_columns cols (c # cs) =
     add_columns (if list_all (\<lambda>e. oc_key e \<noteq> rc_key c) cols then cols @ [observed c] else cols) cs"

fun first_identity :: "envelope list \<Rightarrow> row_identity option" where
  "first_identity [] = None"
| "first_identity (e # es) = (case en_identity e of Some i \<Rightarrow> Some i | None \<Rightarrow> first_identity es)"

record projection =
  pj_values :: "value_ref list"
  pj_columns :: "observed_column list"
  pj_rows :: "(string, cell) dict list"
  pj_identity :: "row_identity option"
  pj_summary :: "string list"
  pj_truncated :: bool
  pj_tables :: "observed_table list"

definition value_refs_from :: "nat \<Rightarrow> (string \<times> string) list \<Rightarrow> value_ref list" where
  "value_refs_from n kvs =
     map (\<lambda>(i, (l, f)). \<lparr>vr_id = ''v'' @ show_nat i, vr_label = l, vr_formatted = f\<rparr>)
       (zip [n..<n + length kvs] kvs)"

definition table_of :: "nat \<Rightarrow> nat \<Rightarrow> envelope \<Rightarrow> nat \<Rightarrow> observed_table" where
  "table_of index count env seen =
     \<lparr>ot_heading = take 600 (''table '' @ show_nat index @ '' of '' @ show_nat count @ '': ''
                             @ py_join ''; '' (presentation_summary env seen)),
      ot_rows = seen, ot_identity = en_identity env\<rparr>"

definition project_envelopes :: "envelope list \<Rightarrow> string \<Rightarrow> projection" where
  "project_envelopes envs answer_text =
     (let row_shares = fair_shares (map (length \<circ> en_rows) envs) MAX_OBSERVATION_ROWS;
          kept = map (\<lambda>(e, n). take n (en_rows e)) (zip envs row_shares);
          shown = map shown_columns envs;
          cells = map (\<lambda>(rs, cs). value_cells rs cs) (zip kept shown);
          value_shares = fair_shares (map length cells) MAX_OBSERVATION_VALUES;
          chosen = concat (map (\<lambda>(cs, n). take n cs) (zip cells value_shares));
          heads = map (\<lambda>(e, rs). py_join ''; '' (presentation_summary e (length rs)))
                    (zip envs kept)
      in \<lparr>pj_values = value_refs_from 1 (map (\<lambda>(k, v). (k, show_cell v)) chosen),
          pj_columns = foldl add_columns [] shown,
          pj_rows = concat (map (\<lambda>(cs, rs). map (keyed_row cs) rs) (zip shown kept)),
          pj_identity = first_identity envs,
          pj_summary = (if answer_text \<noteq> [] then [scrub_sql answer_text] else []) @ heads,
          pj_truncated = list_ex (\<lambda>(e, rs). length rs < length (en_rows e)) (zip envs kept),
          pj_tables = map (\<lambda>(i, (e, rs)). table_of i (length envs) e (length rs))
                        (zip [1..<Suc (length envs)] (zip envs kept))\<rparr>)"

subsection \<open>Observations of outcomes\<close>

definition checked :: "observation \<Rightarrow> coord_error + observation" where
  "checked ob = (if wf_observation ob then Inr ob else Inl Validation_error)"

definition wire_envelopes :: "wire_outcome \<Rightarrow> envelope list" where
  "wire_envelopes w =
     (if wo_envelopes w \<noteq> [] then wo_envelopes w
      else (case wo_envelope w of Some e \<Rightarrow> [e] | None \<Rightarrow> []))"

definition ask_envelopes :: "ask_result \<Rightarrow> envelope list" where
  "ask_envelopes r = (case ar_wire r of None \<Rightarrow> [] | Some w \<Rightarrow> wire_envelopes w)"

definition project_query_business :: "action_outcome \<Rightarrow> coord_error + observation" where
  "project_query_business oc =
     (let res = (case ao_result oc of RCommitted r \<Rightarrow> Some r | RAsk r \<Rightarrow> Some r | _ \<Rightarrow> None);
          envs = (case res of Some r \<Rightarrow> ask_envelopes r | None \<Rightarrow> []);
          answer = (case res of Some r \<Rightarrow> ar_answer_text r | None \<Rightarrow> []);
          pj = project_envelopes envs answer;
          summary = (if pj_summary pj \<noteq> [] then py_join newline (pj_summary pj)
                     else ''Business query completed.'')
      in checked ((blank_observation (ao_id oc) (Acted (ao_kind oc)) (ao_status oc))
           \<lparr>ob_evidence := [ao_id oc], ob_values := pj_values pj, ob_columns := pj_columns pj,
            ob_rows := pj_rows pj, ob_identity := pj_identity pj, ob_tables := pj_tables pj,
            ob_summary := take 2000 summary, ob_truncated := pj_truncated pj\<rparr>))"

definition project_search_documents :: "action_outcome \<Rightarrow> coord_error + observation" where
  "project_search_documents oc =
     (case ao_result oc of
        RDocs r \<Rightarrow>
          checked ((blank_observation (ao_id oc) (Acted (ao_kind oc)) (ao_status oc))
            \<lparr>ob_evidence := map pg_id (dr_passages r),
             ob_summary := document_search_summary (dr_passages r),
             ob_truncated := dr_truncated r, ob_page_offers := dr_offers r\<rparr>)
      | _ \<Rightarrow>
          checked ((blank_observation (ao_id oc) (Acted (ao_kind oc)) (ao_status oc))
            \<lparr>ob_summary := document_search_summary []\<rparr>))"

record restore_acc =
  ra_summary :: "string list"
  ra_values :: "(string \<times> string) list"
  ra_rows :: "(string, cell) dict list"
  ra_columns :: "observed_column list"
  ra_identity :: "row_identity option"
  ra_truncated :: bool

definition restore_turn :: "restore_acc \<Rightarrow> restored_turn \<Rightarrow> restore_acc" where
  "restore_turn a t =
     (let title = (case rt_title t of
                     Some x \<Rightarrow> if x \<noteq> [] then scrub_sql x else [] | None \<Rightarrow> []);
          line = ''Restored ['' @ rt_exchange t @ ''] '' @ title @ '': '' @ rt_answer t;
          a1 = a\<lparr>ra_summary := ra_summary a @ [line]\<rparr>
      in case rt_wire t of
           None \<Rightarrow> a1
         | Some w \<Rightarrow>
             (let pj = project_envelopes (wire_envelopes w) [];
                  space = MAX_OBSERVATION_ROWS - length (ra_rows a1)
              in a1\<lparr>ra_columns := (if ra_columns a1 \<noteq> [] then ra_columns a1 else pj_columns pj),
                    ra_identity := (case ra_identity a1 of Some i \<Rightarrow> Some i | None \<Rightarrow> pj_identity pj),
                    ra_truncated := (ra_truncated a1 \<or> pj_truncated pj
                                     \<or> space < length (pj_rows pj)),
                    ra_rows := ra_rows a1 @ take space (pj_rows pj),
                    ra_values := ra_values a1
                      @ take (MAX_OBSERVATION_VALUES - length (ra_values a1))
                          (map (\<lambda>v. (vr_label v, vr_formatted v)) (pj_values pj)),
                    ra_summary := ra_summary a1 @ pj_summary pj\<rparr>))"

definition empty_restore :: restore_acc where
  "empty_restore = \<lparr>ra_summary = [], ra_values = [], ra_rows = [], ra_columns = [],
                    ra_identity = None, ra_truncated = False\<rparr>"

definition project_explain_sources :: "action_outcome \<Rightarrow> coord_error + observation" where
  "project_explain_sources oc =
     (case ao_result oc of
        RSources ss \<Rightarrow>
          (let a = foldl restore_turn empty_restore (ss_turns ss);
               summary = (if ra_summary a \<noteq> [] then py_join newline (ra_summary a)
                          else ''No sources restored.'')
           in checked ((blank_observation (ao_id oc) (Acted (ao_kind oc)) (ao_status oc))
                \<lparr>ob_evidence := ss_exchanges ss, ob_values := value_refs_from 1 (ra_values a),
                 ob_columns := ra_columns a, ob_rows := ra_rows a, ob_identity := ra_identity a,
                 ob_summary := take 2000 summary, ob_truncated := ra_truncated a,
                 ob_document_answers :=
                   map rt_exchange (filter stood_on_documents (ss_turns ss))\<rparr>))
      | _ \<Rightarrow>
          checked ((blank_observation (ao_id oc) (Acted (ao_kind oc)) (ao_status oc))
            \<lparr>ob_summary := ''No sources restored.''\<rparr>))"

definition project_succeeded_outcome :: "action_outcome \<Rightarrow> coord_error + observation" where
  "project_succeeded_outcome oc =
     (case ao_kind oc of
        Query_business \<Rightarrow> project_query_business oc
      | Search_documents \<Rightarrow> project_search_documents oc
      | Explain_sources \<Rightarrow> project_explain_sources oc)"

definition failure_code :: "action_outcome \<Rightarrow> string" where
  "failure_code oc =
     (let code = status_name (ao_status oc) in
      case ao_result oc of
        RAsk r \<Rightarrow> (if truthy_str (ar_stop_reason r) then the (ar_stop_reason r)
                   else if ar_answer_text r \<noteq> [] then ar_answer_text r else code)
      | RDocFailure d \<Rightarrow> (if df_code d \<noteq> [] then df_code d else code)
      | RError cls \<Rightarrow> cls
      | _ \<Rightarrow> code)"

definition project_failed_outcome :: "action_outcome \<Rightarrow> coord_error + observation" where
  "project_failed_outcome oc =
     checked ((blank_observation (ao_id oc) (Acted (ao_kind oc)) (ao_status oc))
       \<lparr>ob_failure := (case ao_result oc of RAsk r \<Rightarrow> ar_failure r | _ \<Rightarrow> None),
        ob_summary := ''Action '' @ ao_id oc @ '' '' @ status_name (ao_status oc) @ '': ''
                      @ failure_code oc\<rparr>)"

definition project_outcome :: "action_outcome \<Rightarrow> coord_error + observation" where
  "project_outcome oc =
     (if ao_status oc = Succeeded then project_succeeded_outcome oc
      else project_failed_outcome oc)"

definition project_observations :: "action_outcome list \<Rightarrow> coord_error + observation list" where
  "project_observations ocs = rmap project_outcome ocs"

subsection \<open>The shares\<close>

lemma shares_first_spec:
  "shares_first each room szs = (shs, r) \<Longrightarrow>
     length shs = length szs \<and> sum_list shs + r = room \<and> list_all2 (\<le>) shs szs"
proof (induction szs arbitrary: room shs r)
  case Nil
  then show ?case by simp
next
  case (Cons sz szs)
  let ?tk = "min (min sz each) room"
  obtain shs' where shs: "shs = ?tk # shs'" and f: "shares_first each (room - ?tk) szs = (shs', r)"
    using Cons.prems by (auto simp: Let_def split: prod.splits)
  have le: "?tk \<le> room" "?tk \<le> sz" by simp_all
  from Cons.IH [OF f] have IH: "length shs' = length szs" "sum_list shs' + r = room - ?tk"
    "list_all2 (\<le>) shs' szs" by blast+
  from le IH(2) have "?tk + sum_list shs' + r = room" by linarith
  with le IH(1,3) show ?case unfolding shs by simp
qed

lemma sum_list_all2_le: "list_all2 (\<le>) xs ys \<Longrightarrow> sum_list xs \<le> (sum_list ys :: nat)"
  by (induction rule: list_all2_induct) auto

lemma shares_first_even:
  "each * length szs \<le> room \<Longrightarrow> fst (shares_first each room szs) = map (\<lambda>s. min s each) szs"
proof (induction szs arbitrary: room)
  case Nil
  then show ?case by simp
next
  case (Cons s szs)
  then have "each * length szs \<le> room - min (min s each) room" and "each \<le> room" by auto
  with Cons.IH show ?case by (auto simp: Let_def split: prod.splits) (metis fst_conv)
qed

lemma shares_extra_spec:
  "list_all2 (\<le>) shs szs \<Longrightarrow>
     length (shares_extra room szs shs) = length szs
     \<and> sum_list (shares_extra room szs shs) = min (sum_list shs + room) (sum_list szs)
     \<and> list_all2 (\<le>) shs (shares_extra room szs shs)
     \<and> list_all2 (\<le>) (shares_extra room szs shs) szs"
proof (induction room szs shs rule: shares_extra.induct)
  case (1 room sz szs sh shs)
  let ?x = "min (sz - sh) room"
  from "1.prems" have le: "sh \<le> sz" and l2: "list_all2 (\<le>) shs szs" by auto
  note IH = "1.IH" [OF refl l2]
  have "sh + ?x + min (sum_list shs + (room - ?x)) (sum_list szs)
      = min (sh + sum_list shs + room) (sz + sum_list szs)"
    using le sum_list_all2_le [OF l2] by (auto simp: min_def)
  moreover have "sh + ?x \<le> sz" using le by (cases "sz - sh \<le> room") (simp_all add: min_def)
  ultimately show ?case using IH by (simp add: Let_def)
qed auto

lemma fair_shares_total: "sum_list (fair_shares szs cap) = min cap (sum_list szs)"
proof -
  obtain shs r where f: "shares_first (if szs = [] then 0 else max 1 (cap div length szs)) cap szs
    = (shs, r)" by fastforce
  from shares_first_spec [OF f] shares_extra_spec [of shs szs r] show ?thesis
    by (simp add: fair_shares_def f)
qed

lemma fair_shares_length [simp]: "length (fair_shares szs cap) = length szs"
  and fair_shares_le: "list_all2 (\<le>) (fair_shares szs cap) szs"
proof -
  obtain shs r where f: "shares_first (if szs = [] then 0 else max 1 (cap div length szs)) cap szs
    = (shs, r)" by fastforce
  from shares_first_spec [OF f] shares_extra_spec [of shs szs r]
  show "length (fair_shares szs cap) = length szs" "list_all2 (\<le>) (fair_shares szs cap) szs"
    by (simp_all add: fair_shares_def f)
qed

lemma fair_shares_positive:
  assumes "length szs \<le> cap" "i < length szs" "0 < szs ! i"
  shows "0 < fair_shares szs cap ! i"
proof -
  let ?e = "max 1 (cap div length szs)"
  from assms(2) have l: "0 < length szs" and ne: "szs \<noteq> []" by auto
  with assms(1) have d: "1 \<le> cap div length szs" by (simp add: Suc_le_eq div_greater_zero_iff)
  obtain shs r where f: "shares_first ?e cap szs = (shs, r)" by fastforce
  have "?e * length szs \<le> cap" using d by (simp only: max_absorb2 div_times_less_eq_dividend)
  from shares_first_even [OF this] f have shs: "shs = map (\<lambda>s. min s ?e) szs" by simp
  with assms(2,3) have "0 < shs ! i" by simp
  moreover have "shs ! i \<le> shares_extra r szs shs ! i"
  proof (rule list_all2_nthD)
    show "list_all2 (\<le>) shs (shares_extra r szs shs)"
      using shares_first_spec [OF f] shares_extra_spec [of shs szs r] by blast
    show "i < length shs" using assms(2) by (simp add: shs)
  qed
  moreover have "fair_shares szs cap = shares_extra r szs shs"
    using ne f by (simp add: fair_shares_def)
  ultimately show ?thesis by simp
qed

subsection \<open>The projection stays inside the limits of an observation\<close>

lemma sum_take_shares:
  "list_all2 (\<le>) ns (map length xss) \<Longrightarrow>
     length (concat (map (\<lambda>(xs, n). take n xs) (zip xss ns))) = sum_list ns"
proof (induction xss arbitrary: ns)
  case Nil
  then show ?case by simp
next
  case (Cons xs xss)
  then show ?case by (cases ns) auto
qed

lemma kept_lengths:
  "list_all2 (\<le>) ns (map (length \<circ> f) es) \<Longrightarrow>
     map length (map (\<lambda>(e, n). take n (f e)) (zip es ns)) = ns"
proof (induction es arbitrary: ns)
  case Nil
  then show ?case by simp
next
  case (Cons e es)
  then show ?case by (cases ns) auto
qed

lemma length_concat_zip_map:
  "length xs = length yss \<Longrightarrow>
     length (concat (map (\<lambda>(x, ys). map (g x) ys) (zip xs yss))) = sum_list (map length yss)"
proof (induction xs arbitrary: yss)
  case Nil
  then show ?case by simp
next
  case (Cons x xs)
  then show ?case by (cases yss) auto
qed

lemma length_value_refs_from [simp]: "length (value_refs_from n kvs) = length kvs"
  by (simp add: value_refs_from_def)

lemma project_envelopes_rows:
  "length (pj_rows (project_envelopes envs t))
     = min MAX_OBSERVATION_ROWS (sum_list (map (length \<circ> en_rows) envs))"
proof -
  let ?ns = "fair_shares (map (length \<circ> en_rows) envs) MAX_OBSERVATION_ROWS"
  let ?kept = "map (\<lambda>(e, n). take n (en_rows e)) (zip envs ?ns)"
  have "length (pj_rows (project_envelopes envs t)) = sum_list (map length ?kept)"
    unfolding project_envelopes_def Let_def projection.simps
    by (rule length_concat_zip_map) simp
  also have "map length ?kept = ?ns"
    by (rule kept_lengths) (rule fair_shares_le)
  finally show ?thesis by (simp add: fair_shares_total)
qed

lemma project_envelopes_values: "length (pj_values (project_envelopes envs t)) \<le> MAX_OBSERVATION_VALUES"
proof -
  have "length (concat (map (\<lambda>(xs, n). take n xs) (zip xss (fair_shares (map length xss) c)))) \<le> c"
    for xss :: "(string \<times> cell) list list" and c
    by (subst sum_take_shares) (simp_all add: fair_shares_le fair_shares_total)
  then show ?thesis unfolding project_envelopes_def Let_def projection.simps length_value_refs_from
      length_map .
qed

lemma length_take_le: "length (take n xs) \<le> n"
  by simp

lemma table_of_wf: "wf_table (table_of i n e k)"
  unfolding wf_table_def table_of_def observed_table.simps by (rule length_take_le)

lemma project_envelopes_tables:
  "length (pj_tables (project_envelopes envs t)) = length envs"
  "list_all wf_table (pj_tables (project_envelopes envs t))"
  by (simp_all add: project_envelopes_def Let_def table_of_wf list_all_iff
      split_beta del: upt_Suc)

lemmas projection_bounds = project_envelopes_rows project_envelopes_values project_envelopes_tables

definition result_envelopes :: "tool_result \<Rightarrow> envelope list" where
  "result_envelopes r =
     (case r of RCommitted a \<Rightarrow> ask_envelopes a | RAsk a \<Rightarrow> ask_envelopes a | _ \<Rightarrow> [])"

lemma project_query_business_ok_iff:
  "(\<exists>ob. project_query_business oc = Inr ob) \<longleftrightarrow> length (result_envelopes (ao_result oc)) \<le> 4"
proof -
  define r where "r = (case ao_result oc of RCommitted r \<Rightarrow> Some r | RAsk r \<Rightarrow> Some r | _ \<Rightarrow> None)"
  define pj where "pj = project_envelopes (case r of Some r \<Rightarrow> ask_envelopes r | None \<Rightarrow> [])
    (case r of Some r \<Rightarrow> ar_answer_text r | None \<Rightarrow> [])"
  have envs: "(case r of Some r \<Rightarrow> ask_envelopes r | None \<Rightarrow> []) = result_envelopes (ao_result oc)"
    by (simp add: r_def result_envelopes_def split: tool_result.splits)
  have "length (pj_rows pj) \<le> 20" "length (pj_values pj) \<le> 16"
    "length (pj_tables pj) = length (result_envelopes (ao_result oc))"
    "list_all wf_table (pj_tables pj)"
    using projection_bounds unfolding pj_def envs
    by (simp_all add: MAX_OBSERVATION_ROWS_def MAX_OBSERVATION_VALUES_def)
  then show ?thesis
    unfolding project_query_business_def Let_def r_def [symmetric] pj_def [symmetric]
    by (simp add: checked_def wf_observation_def blank_observation_def)
qed

lemma length_document_search_summary: "length (document_search_summary ps) \<le> 2000"
  by (simp add: document_search_summary_def SEARCH_SUMMARY_LIMIT_def)

lemma project_search_documents_ok: "\<exists>ob. project_search_documents oc = Inr ob"
  using length_document_search_summary
  by (auto simp: project_search_documents_def checked_def wf_observation_def
      blank_observation_def split: tool_result.splits)

lemma restore_turn_bounds:
  "length (ra_rows a) \<le> 20 \<and> length (ra_values a) \<le> 16 \<Longrightarrow>
     length (ra_rows (restore_turn a t)) \<le> 20 \<and> length (ra_values (restore_turn a t)) \<le> 16"
  by (auto simp: restore_turn_def Let_def MAX_OBSERVATION_ROWS_def MAX_OBSERVATION_VALUES_def
      split: option.splits)

lemma restore_turns_bounds:
  "length (ra_rows a) \<le> 20 \<and> length (ra_values a) \<le> 16 \<Longrightarrow>
     length (ra_rows (foldl restore_turn a ts)) \<le> 20
     \<and> length (ra_values (foldl restore_turn a ts)) \<le> 16"
proof (induction ts arbitrary: a)
  case Nil
  then show ?case by simp
next
  case (Cons t ts)
  from Cons.IH [OF restore_turn_bounds [OF Cons.prems, of t]] show ?case by simp
qed

lemma project_explain_sources_ok: "\<exists>ob. project_explain_sources oc = Inr ob"
proof (cases "ao_result oc")
  case (RSources ss)
  with restore_turns_bounds [of empty_restore "ss_turns ss"] show ?thesis
    by (auto simp: project_explain_sources_def Let_def checked_def wf_observation_def
        blank_observation_def empty_restore_def)
qed (auto simp: project_explain_sources_def checked_def wf_observation_def blank_observation_def)

subsection \<open>The evidence ids of an observation\<close>

definition outcome_evidence :: "action_outcome \<Rightarrow> string list" where
  "outcome_evidence oc =
     (if ao_status oc \<noteq> Succeeded then []
      else case ao_kind oc of
        Query_business \<Rightarrow> [ao_id oc]
      | Search_documents \<Rightarrow> (case ao_result oc of RDocs r \<Rightarrow> map pg_id (dr_passages r) | _ \<Rightarrow> [])
      | Explain_sources \<Rightarrow> (case ao_result oc of RSources ss \<Rightarrow> ss_exchanges ss | _ \<Rightarrow> []))"

lemma checked_Inr [simp]: "checked ob = Inr x \<longleftrightarrow> wf_observation ob \<and> x = ob"
  by (auto simp: checked_def)

lemma project_outcome_facts:
  assumes "project_outcome oc = Inr ob"
  shows "ob_evidence ob = outcome_evidence oc" "ob_action ob = ao_id oc"
    "ob_kind ob = Acted (ao_kind oc)" "ob_status ob = ao_status oc" "wf_observation ob"
  using assms
  by (auto simp: project_outcome_def project_succeeded_outcome_def project_failed_outcome_def
      project_query_business_def project_search_documents_def project_explain_sources_def
      outcome_evidence_def blank_observation_def Let_def
      split: if_splits tool_kind.splits tool_result.splits)

subsection \<open>What the projection promises\<close>

text \<open>
  The shares of a cap: they add up to the cap or to everything there is, no table gets more
  than it has, and while there are no more tables than the cap, every table that has items gets
  at least one.
\<close>

theorem fair_shares_fair:
  assumes "length szs \<le> cap"
  shows "sum_list (fair_shares szs cap) = min cap (sum_list szs)
    \<and> list_all2 (\<le>) (fair_shares szs cap) szs
    \<and> (\<forall>i < length szs. 0 < szs ! i \<longrightarrow> 0 < fair_shares szs cap ! i)"
  using assms by (simp add: fair_shares_total fair_shares_le fair_shares_positive)

theorem fair_shares_fair_witness:
  "sum_list (fair_shares [30, 2, 1] 20) = 20 \<and> 0 < fair_shares [30, 2, 1] 20 ! 2"
  using fair_shares_fair [of "[30, 2, 1]" 20] by simp

lemma take_middle:
  assumes "length xs \<le> n"
  shows "take n (xs @ ys @ zs) = xs @ take (n - length xs) ys @ take (n - length xs - length ys) zs"
  using assms by simp

lemma py_join_Cons: "ys \<noteq> [] \<Longrightarrow> py_join sep (x # ys) = x @ sep @ py_join sep ys"
  by (cases ys) simp_all

text \<open>\<open>pre\<close> is the text before the next line, and \<open>cursor\<close> its length.\<close>

lemma offer_chunks_visible:
  assumes "length pre = cursor"
    and "whole = pre @ (if ps = [] then [] else (if first then [] else newline)
           @ py_join newline (map search_line ps))"
  shows "list_all (\<lambda>c. sublist c (take SEARCH_SUMMARY_LIMIT whole)) (offer_chunks first cursor ps)"
  using assms
proof (induction ps arbitrary: pre first cursor)
  case Nil
  then show ?case by simp
next
  case (Cons p ps)
  let ?pre1 = "pre @ (if first then [] else newline)"
  let ?pre2 = "?pre1 @ search_line_prefix p"
  let ?rest = "if ps = [] then [] else newline @ py_join newline (map search_line ps)"
  define cur where "cur = (if first then cursor else cursor + 1)"
  have len: "length ?pre2 = cur + length (search_line_prefix p)"
    using Cons.prems(1) by (simp add: cur_def)
  have whole: "whole = ?pre2 @ pg_content p @ ?rest"
    using Cons.prems(2) by (cases ps) (simp_all add: search_line_def py_join_Cons)
  define ce where "ce = cur + length (search_line_prefix p) + length (pg_content p)"
  have "length (?pre2 @ pg_content p) = ce" using len by (simp add: ce_def)
  moreover have "whole = (?pre2 @ pg_content p) @ (if ps = [] then [] else (if False then [] else newline)
           @ py_join newline (map search_line ps))"
    using whole by simp
  ultimately have IH: "list_all (\<lambda>c. sublist c (take SEARCH_SUMMARY_LIMIT whole)) (offer_chunks False ce ps)"
    by (rule Cons.IH)
  have chunk: "sublist (take (min ce SEARCH_SUMMARY_LIMIT - (cur + length (search_line_prefix p)))
      (pg_content p)) (take SEARCH_SUMMARY_LIMIT whole)"
    if "cur + length (search_line_prefix p) < min ce SEARCH_SUMMARY_LIMIT"
  proof -
    from that len have "length ?pre2 \<le> SEARCH_SUMMARY_LIMIT" by simp
    from take_middle [OF this, of "pg_content p" ?rest] len
    have "sublist (take (SEARCH_SUMMARY_LIMIT - (cur + length (search_line_prefix p))) (pg_content p))
        (take SEARCH_SUMMARY_LIMIT whole)"
      unfolding whole by (metis sublist_appendI)
    moreover have "take (min ce SEARCH_SUMMARY_LIMIT - (cur + length (search_line_prefix p))) (pg_content p)
        = take (SEARCH_SUMMARY_LIMIT - (cur + length (search_line_prefix p))) (pg_content p)"
      by (cases "ce \<le> SEARCH_SUMMARY_LIMIT") (simp_all add: ce_def)
    ultimately show ?thesis by simp
  qed
  have "pg_content p \<noteq> [] \<Longrightarrow> cur + length (search_line_prefix p) < ce" by (simp add: ce_def)
  with IH chunk show ?case
    by (simp add: Let_def cur_def [symmetric] ce_def [symmetric] add.assoc [symmetric])
qed

text \<open>
  What is offered is what the model can read: every piece of passage text that may name a
  page offer is a contiguous part of the truncated search summary.
\<close>

theorem offer_text_visible:
  "list_all (\<lambda>c. sublist c (document_search_summary ps)) (offer_chunks True 0 ps)"
proof (cases "ps = []")
  case False
  have "list_all (\<lambda>c. sublist c (take SEARCH_SUMMARY_LIMIT (py_join newline (map search_line ps))))
      (offer_chunks True 0 ps)"
    by (rule offer_chunks_visible [where pre = "[]"]) (simp_all add: False)
  with False show ?thesis by (simp add: document_search_summary_def)
qed simp

text \<open>
  The projection of an outcome fits an observation exactly when a succeeded business answer
  has at most four tables and a failure's line is at most 2000 characters long; document searches
  and restores always fit.
\<close>

theorem project_outcome_fits:
  "(\<exists>ob. project_outcome oc = Inr ob) \<longleftrightarrow>
     (if ao_status oc = Succeeded
      then ao_kind oc \<noteq> Query_business \<or> length (result_envelopes (ao_result oc)) \<le> 4
      else length (''Action '' @ ao_id oc @ '' '' @ status_name (ao_status oc) @ '': ''
                   @ failure_code oc) \<le> 2000)"
proof (cases "ao_status oc = Succeeded")
  case True
  then show ?thesis
    using project_query_business_ok_iff project_search_documents_ok project_explain_sources_ok
    by (cases "ao_kind oc") (simp_all add: project_outcome_def project_succeeded_outcome_def)
next
  case False
  then show ?thesis
    by (simp add: project_outcome_def project_failed_outcome_def checked_def wf_observation_def
        blank_observation_def)
qed

definition timed_out_query :: action_outcome where
  "timed_out_query = \<lparr>ao_turn = ''t1'', ao_id = ''act-1'', ao_kind = Query_business,
     ao_status = Timed_out, ao_result = RNone, ao_elapsed = None\<rparr>"

lemma project_outcome_fits_witness: "\<exists>ob. project_outcome timed_out_query = Inr ob"
proof -
  have "ao_status timed_out_query = Timed_out"
    and "length (''Action '' @ ao_id timed_out_query @ '' '' @ status_name (ao_status timed_out_query) @ '': ''
           @ failure_code timed_out_query) \<le> 2000"
    by code_simp+
  then show ?thesis using project_outcome_fits [of timed_out_query] by simp
qed

text \<open>
  The scrubbing of SQL from a summary stops too early: of a statement with a where clause,
  the clause itself stays in the text the model reads.
\<close>

theorem scrub_leaves_where_clause:
  "scrub_sql ''see SELECT a FROM t WHERE pin = 5'' = ''see [redacted] pin = 5''"
  by code_simp

end
