(* ===== verification/Answer_Head.thy ===== *)
theory Answer_Head
  imports Coord_Types
begin

text \<open>
  The head of a table answer (app/business_query/wire/answer_head.py) and the sentence that says
  what its rows are (app/business_query/wire/row_identity_text.py). The plan enters as the text
  \<open>format_set_context\<close> makes of it, the bundle as the (name, label) pairs of its dimensions.
\<close>

definition HEAD_MAX_CHARS :: nat where "HEAD_MAX_CHARS = 1600"

definition plural :: "string \<Rightarrow> nat \<Rightarrow> string" where
  "plural noun count = (if count = 1 then noun else noun @ ''s'')"

definition row_identity_sentence :: "row_identity \<Rightarrow> bool \<Rightarrow> string" where
  "row_identity_sentence ri scoped =
     (let visible = (if scoped then ''visible '' else []);
          n = ri_anchor_count ri;
          own = show_nat n @ '' '' @ plural (ri_anchor ri) n;
          anchors = (case ri_requested ri of
                       Some r \<Rightarrow> if n < r then show_nat n @ '' of the '' @ show_nat r @ '' ''
                                        @ plural (ri_anchor ri) r @ '' on this page'' else own
                     | None \<Rightarrow> own)
      in case ri_expanded ri of
           None \<Rightarrow> anchors @ ''.''
         | Some ex \<Rightarrow>
             (let rs = show_nat (ri_row_count ri) @ '' '' @ ex @ '' ''
                       @ plural ''row'' (ri_row_count ri);
                  childless = ri_childless ri
              in if childless = 0 then anchors @ '', '' @ rs @ ''.''
                 else anchors @ '', '' @ rs @ ''; '' @ show_nat childless @ '' ''
                      @ plural (ri_anchor ri) childless @ '' ''
                      @ (if childless = 1 then ''has'' else ''have'') @ '' no '' @ visible
                      @ plural ex 2 @ ''.''))"

text \<open>The dimensions and the measures of a plan digest.\<close>

record plan_members =
  pm_dimensions :: "string list"
  pm_measures :: "string list"

definition bundle_labels :: "(string \<times> string option) list \<Rightarrow> (string, string) dict" where
  "bundle_labels dims =
     foldl (\<lambda>d (name, label). if truthy_str label then dict_set d name (py_lower (the label)) else d)
       [] dims"

definition change_note_line ::
    "string list \<Rightarrow> plan_members \<Rightarrow> plan_members \<Rightarrow> (string \<times> string option) list option \<Rightarrow> string"
where
  "change_note_line changes prior after bundle =
     (if changes = [] then []
      else
        (let labels = (case bundle of None \<Rightarrow> [] | Some dims \<Rightarrow> bundle_labels dims);
             added = filter (\<lambda>m. m \<notin> set (pm_dimensions prior)) (pm_dimensions after)
                     @ filter (\<lambda>m. m \<notin> set (pm_measures prior)) (pm_measures after);
             named = map (\<lambda>m. case dict_get labels m of Some l \<Rightarrow> l | None \<Rightarrow> m) added
         in py_join '' '' ((if added \<noteq> [] then [''Added: '' @ py_join '', '' named @ ''.''] else [])
                           @ [''Kept: the same selection, the same order.''])))"

definition head_body ::
    "row_identity option \<Rightarrow> nat \<Rightarrow> int \<Rightarrow> string list \<Rightarrow> plan_members option
      \<Rightarrow> plan_members option \<Rightarrow> (string \<times> string option) list option \<Rightarrow> string" where
  "head_body identity shown count changes prior after bundle =
     py_join newline
       ((case identity of
           None \<Rightarrow> []
         | Some i \<Rightarrow> (let s = row_identity_sentence i False in if s \<noteq> [] then [s] else []))
        @ (case (prior, after) of
             (Some b, Some a) \<Rightarrow>
               (if changes \<noteq> []
                then (let note = change_note_line changes b a bundle
                      in if note \<noteq> [] then [note] else [])
                else [])
           | _ \<Rightarrow> [])
        @ [''Showing '' @ show_nat shown @ '' of '' @ show_int count])"

definition answer_head ::
    "string option \<Rightarrow> row_identity option \<Rightarrow> nat \<Rightarrow> int \<Rightarrow> string list \<Rightarrow> plan_members option
      \<Rightarrow> plan_members option \<Rightarrow> (string \<times> string option) list option \<Rightarrow> string" where
  "answer_head plan identity shown count changes prior after bundle =
     (let body = head_body identity shown count changes prior after bundle;
          context = (case plan of None \<Rightarrow> [] | Some c \<Rightarrow> c);
          available = int HEAD_MAX_CHARS - int (length body) - 2;
          context = (if context = [] then []
                     else if available < int (length context)
                     then (if 1 \<le> available then py_take (available - 1) context @ [ellipsis] else [])
                     else context)
      in if context \<noteq> [] then context @ newline @ newline @ body
         else if HEAD_MAX_CHARS < length body
         then take (HEAD_MAX_CHARS - 1) body @ [ellipsis]
         else body)"

lemma py_join_last_nonempty: "x \<noteq> [] \<Longrightarrow> py_join sep (xs @ [x]) \<noteq> []"
proof (induction xs)
  case Nil
  then show ?case by simp
next
  case (Cons y ys)
  then show ?case by (cases ys) auto
qed

lemma head_body_nonempty: "head_body i s c ch b a bu \<noteq> []"
  unfolding head_body_def append_assoc [symmetric] by (rule py_join_last_nonempty) simp

lemma length_py_take_le: "0 \<le> n \<Longrightarrow> int (length (py_take n xs)) \<le> n"
  by (simp add: py_take_def)

text \<open>
  The head of a table answer is never empty and never longer than the 1600 characters a
  block may hold, whatever the plan's text, the row counts and the changes.
\<close>

theorem answer_head_fits:
  "answer_head p i s c ch b a bu \<noteq> [] \<and> length (answer_head p i s c ch b a bu) \<le> 1600"
proof -
  define body where "body = head_body i s c ch b a bu"
  define av where "av = (1600 :: int) - int (length body) - 2"
  define cx where "cx = (case p of None \<Rightarrow> [] | Some c \<Rightarrow> c)"
  define cx' where "cx' = (if cx = [] then [] else if av < int (length cx)
    then (if 1 \<le> av then py_take (av - 1) cx @ [ellipsis] else []) else cx)"
  have ne: "body \<noteq> []" by (simp add: body_def head_body_nonempty)
  have head: "answer_head p i s c ch b a bu =
    (if cx' \<noteq> [] then cx' @ newline @ newline @ body
     else if 1600 < length body then take 1599 body @ [ellipsis] else body)"
    unfolding answer_head_def Let_def HEAD_MAX_CHARS_def
    by (simp add: body_def [symmetric] cx_def [symmetric] av_def cx'_def)
  have "int (length cx') \<le> av" if "cx' \<noteq> []"
  proof (cases "av < int (length cx)")
    case True
    with that have "1 \<le> av" and "cx' = py_take (av - 1) cx @ [ellipsis]"
      by (auto simp: cx'_def split: if_splits)
    then show ?thesis using length_py_take_le [of "av - 1" cx] by simp
  next
    case False
    with that show ?thesis by (auto simp: cx'_def split: if_splits)
  qed
  with ne show ?thesis unfolding head by (cases "cx' = []") (auto simp: av_def)
qed

end
