(* ===== verification/Coord_Graph.thy ===== *)
theory Coord_Graph
  imports Lifecycle Observations Answer_Head
begin

text \<open>
  The coordinator's graph (app/conversation/coordinator/graph.py) and the turn that runs it
  (runtime.py): the state the nodes thread, every node with its early returns, the conditional
  edges, and the loop that follows them. The language model, the tools, the budget and the
  clock are outside the repository's control: they are the functions of a \<open>world\<close>, which may
  answer differently in every state. A node returns the state with its updates merged in, or
  the exception it raises.
\<close>

subsection \<open>State\<close>

datatype next_node =
    NxDecide | NxFinishAnswer | NxClarify | NxTool tool_kind | NxFinish | NxEnd

record gstate =
  g_context :: coord_context
  g_policy :: policy
  g_lifecycle :: lifecycle
  g_decisions :: nat
  g_actions :: nat
  g_queries :: nat
  g_searches :: nat
  g_restores :: nat
  g_repairs :: "string set"
  g_held :: "finished_draft option"
  g_explained :: bool
  g_allowed :: "action_kind set"
  g_observations :: "observation list"
  g_last :: "action option"
  g_next :: next_node
  g_text_kind :: text_kind
  g_out_of_scope :: "string option"
  g_stop_reason :: "stop_reason option"
  g_terminal :: "terminal option"

subsection \<open>The world around the graph\<close>

text \<open>
  A budget reading: whether \<open>check_not_expired\<close> raises, and the seconds left (\<open>None\<close> is
  infinity). A decision may also be malformed, run out of time or of context, or raise.
  A tool call may return, run out of time, or raise an exception of some class.
\<close>

record budget_reading =
  br_expired :: bool
  br_remaining :: "rat option"

datatype decide_reply =
    DAction action
  | DMalformed string "string option"
  | DDeadline
  | DContext
  | DRaises string

datatype 'a reply = Returned 'a | Deadline | Raises string

datatype bq_return = Committed ask_result | Plain ask_result

datatype doc_return = Docs doc_result | DocsFailed doc_failure

record world =
  wd_available :: "tool_kind set"
  wd_budget :: "gstate \<Rightarrow> budget_reading"
  wd_clock :: "gstate \<Rightarrow> rat \<times> rat"
  wd_decide :: "gstate \<Rightarrow> nat \<Rightarrow> observation list \<Rightarrow> action_kind set \<Rightarrow> decide_reply"
  wd_query :: "gstate \<Rightarrow> business_question \<Rightarrow> string option \<Rightarrow> bq_return reply"
  wd_search :: "gstate \<Rightarrow> string \<Rightarrow> doc_return reply"
  wd_explain :: "gstate \<Rightarrow> int list \<Rightarrow> selected_sources option reply"

subsection \<open>Shared steps of the nodes\<close>

definition REPAIR_PREFIX :: string where
  "REPAIR_PREFIX = ''Your last reply was not a valid action:''"

definition action_id_of :: "nat \<Rightarrow> string" where
  "action_id_of n = ''act-'' @ show_nat n"

definition stopped_step :: "stop_reason \<Rightarrow> observation list \<Rightarrow> gstate \<Rightarrow> gstate" where
  "stopped_step reason obs g =
     g\<lparr>g_terminal := Some (Stopped reason obs (lc_outcomes (g_lifecycle g))), g_next := NxEnd\<rparr>"

definition repair_observation ::
    "string option \<Rightarrow> nat \<Rightarrow> string \<Rightarrow> coord_error + observation" where
  "repair_observation tag decisions text =
     (let aid = (case tag of
                   Some t \<Rightarrow> if t \<noteq> [] then ''repair-'' @ t @ ''-'' @ show_nat decisions
                             else ''repair-'' @ show_nat decisions
                 | None \<Rightarrow> ''repair-'' @ show_nat decisions)
      in checked ((blank_observation aid Decision_invalid Failed)
           \<lparr>ob_summary := REPAIR_PREFIX @ '' '' @ text\<rparr>))"

definition observe :: "action_outcome \<Rightarrow> question_origin option \<Rightarrow> coord_error + observation" where
  "observe oc origin =
     rbind (project_observations [oc]) (\<lambda>obs. let ob = hd obs in
       Inr (case origin of None \<Rightarrow> ob | Some q \<Rightarrow> ob\<lparr>ob_origin := Some q\<rparr>))"

text \<open>\<open>lifecycle.complete\<close> is called outside the try blocks: its error leaves the node.\<close>

definition complete_in :: "world \<Rightarrow> gstate \<Rightarrow> action_outcome \<Rightarrow> coord_error + gstate" where
  "complete_in w g oc =
     (case complete (snd (wd_clock w g)) (ao_id oc) oc (g_lifecycle g) of
        Inl _ \<Rightarrow> Inl (Raised ''ActionProtocolError'')
      | Inr l \<Rightarrow> Inr (g\<lparr>g_lifecycle := l\<rparr>))"

definition begin_action :: "world \<Rightarrow> gstate \<Rightarrow> tool_kind \<Rightarrow> string \<Rightarrow> protocol_error + gstate" where
  "begin_action w g k aid =
     rbind (rbind (admit aid k (g_lifecycle g)) (start (fst (wd_clock w g)) aid))
       (\<lambda>l. Inr (g\<lparr>g_lifecycle := l\<rparr>))"

definition outcome_of :: "gstate \<Rightarrow> tool_kind \<Rightarrow> action_status \<Rightarrow> tool_result \<Rightarrow> action_outcome" where
  "outcome_of g k st r =
     \<lparr>ao_turn = cx_turn (g_context g), ao_id = action_id_of (g_actions g + 1), ao_kind = k,
      ao_status = st, ao_result = r, ao_elapsed = None\<rparr>"

text \<open>The counter a tool of each kind adds to, and the count of actions.\<close>

definition count_action :: "tool_kind \<Rightarrow> gstate \<Rightarrow> gstate" where
  "count_action k g =
     (case k of
        Query_business \<Rightarrow> g\<lparr>g_actions := g_actions g + 1, g_queries := g_queries g + 1\<rparr>
      | Search_documents \<Rightarrow> g\<lparr>g_actions := g_actions g + 1, g_searches := g_searches g + 1\<rparr>
      | Explain_sources \<Rightarrow> g\<lparr>g_actions := g_actions g + 1, g_restores := g_restores g + 1\<rparr>)"

text \<open>Complete the outcome and add its observation: the shared tail of the tool nodes.\<close>

definition record_outcome ::
    "world \<Rightarrow> gstate \<Rightarrow> action_outcome \<Rightarrow> question_origin option \<Rightarrow> coord_error + gstate" where
  "record_outcome w g oc origin =
     rbind (complete_in w g oc) (\<lambda>g'.
     rbind (observe oc origin) (\<lambda>ob.
       Inr (g'\<lparr>g_observations := g_observations g @ [ob]\<rparr>)))"

definition failed_action :: "world \<Rightarrow> gstate \<Rightarrow> tool_kind \<Rightarrow> string \<Rightarrow> coord_error + gstate" where
  "failed_action w g k cls =
     rbind (record_outcome w g (outcome_of g k Failed (RError cls)) None) (\<lambda>g'.
       Inr ((count_action k g')\<lparr>g_next := NxDecide\<rparr>))"

text \<open>A tool that ran out of budget ends the turn, its outcome recorded as timed out.\<close>

definition timed_out_action :: "world \<Rightarrow> gstate \<Rightarrow> tool_kind \<Rightarrow> coord_error + gstate" where
  "timed_out_action w g k =
     rbind (complete_in w g (outcome_of g k Timed_out RNone)) (\<lambda>g'.
       Inr (stopped_step Budget_expired (g_observations g) g'))"

subsection \<open>Facts and repairs\<close>

definition turn_counters :: "gstate \<Rightarrow> turn_counters" where
  "turn_counters g =
     \<lparr>used_actions = g_actions g, used_decisions = g_decisions g, used_queries = g_queries g,
      used_searches = g_searches g, used_restores = g_restores g, used_explained = g_explained g,
      query_failed = business_query_failed (lc_outcomes (g_lifecycle g))\<rparr>"

definition next_allowed :: "world \<Rightarrow> gstate \<Rightarrow> action_kind set" where
  "next_allowed w g =
     allowed_actions (g_policy g) (turn_counters g) (0 < cx_candidates (g_context g))
       (Tool ` wd_available w)"

definition draft_facts_of :: "world \<Rightarrow> gstate \<Rightarrow> draft_facts" where
  "draft_facts_of w g =
     \<lparr>df_observations = g_observations g, df_outcomes = lc_outcomes (g_lifecycle g),
      df_earlier = hl_exchange ` set (cx_history (g_context g)),
      df_allowed = next_allowed w g, df_unreachable = cx_unreachable (g_context g)\<rparr>"

fun first_repair ::
    "gstate \<Rightarrow> 'a \<Rightarrow> 'a draft_rule list \<Rightarrow> draft_facts \<Rightarrow> string \<Rightarrow> finished_draft option
      \<Rightarrow> coord_error + gstate option" where
  "first_repair g a [] f tag held = Inr None"
| "first_repair g a (r # rs) f tag held =
     (case dru_check r a f of
        None \<Rightarrow> first_repair g a rs f tag held
      | Some text \<Rightarrow>
          if dru_name r \<in> g_repairs g then
            (if dru_stops r then Inr (Some (stopped_step Malformed_response (df_observations f) g))
             else first_repair g a rs f tag held)
          else
            rbind (repair_observation (Some tag) (g_decisions g) text) (\<lambda>ob.
              Inr (Some (g\<lparr>g_observations := df_observations f @ [ob],
                           g_repairs := insert (dru_name r) (g_repairs g),
                           g_next := NxDecide,
                           g_held := (if dru_holds r then held else g_held g)\<rparr>))))"

subsection \<open>The decide node\<close>

definition pre_decision_stop :: "world \<Rightarrow> gstate \<Rightarrow> stop_reason option" where
  "pre_decision_stop w g =
     (let b = wd_budget w g in
      if assert_ready_for_model (g_lifecycle g) \<noteq> Inr () then Some Action_protocol_error
      else if br_expired b then Some Budget_expired
      else if (case br_remaining b of Some r \<Rightarrow> r \<le> 0 | None \<Rightarrow> False) then Some Budget_expired
      else if max_decisions (g_policy g) \<le> g_decisions g then Some Decision_limit
      else None)"

definition disallowed_reason :: "action_kind \<Rightarrow> turn_counters \<Rightarrow> policy \<Rightarrow> stop_reason" where
  "disallowed_reason k u p =
     (if k = Tool Query_business \<and> max_business_queries p \<le> used_queries u
      then Business_query_limit
      else if k = Tool Search_documents \<and> max_document_searches p \<le> used_searches u
      then Document_search_limit
      else if k \<in> TOOL_ACTIONS \<and> max_actions p \<le> used_actions u then Action_limit
      else Action_not_allowed)"

fun next_of_kind :: "action_kind \<Rightarrow> next_node" where
  "next_of_kind (Tool k) = NxTool k"
| "next_of_kind Finish_answer = NxFinishAnswer"
| "next_of_kind Clarify_kind = NxClarify"

definition accept_action :: "world \<Rightarrow> gstate \<Rightarrow> action \<Rightarrow> gstate" where
  "accept_action w g a =
     (let allowed = next_allowed w g in
      if kind_of a \<notin> allowed
      then stopped_step (disallowed_reason (kind_of a) (turn_counters g) (g_policy g))
             (g_observations g) g
      else g\<lparr>g_decisions := g_decisions g + 1, g_allowed := allowed, g_last := Some a,
            g_next := next_of_kind (kind_of a)\<rparr>)"

definition malformed_text :: "string \<Rightarrow> string option \<Rightarrow> string" where
  "malformed_text kind tool =
     kind @ (if truthy_str tool then '' for '' @ the tool else [])"

text \<open>One reply of the model; a malformed one is handled by the attempt that got it.\<close>

fun settle_reply ::
    "world \<Rightarrow> gstate \<Rightarrow> decide_reply \<Rightarrow> (string \<Rightarrow> string option \<Rightarrow> coord_error + gstate)
      \<Rightarrow> coord_error + gstate" where
  "settle_reply w g (DAction a) again = Inr (accept_action w g a)"
| "settle_reply w g (DMalformed kind tool) again = again kind tool"
| "settle_reply w g DDeadline again = Inr (stopped_step Budget_expired (g_observations g) g)"
| "settle_reply w g DContext again = Inr (stopped_step Context_budget_exceeded (g_observations g) g)"
| "settle_reply w g (DRaises cls) again = Inl (Raised cls)"

definition decide_node :: "world \<Rightarrow> gstate \<Rightarrow> coord_error + gstate" where
  "decide_node w g =
     (case pre_decision_stop w g of
        Some reason \<Rightarrow> Inr (stopped_step reason (g_observations g) g)
      | None \<Rightarrow>
          settle_reply w g (wd_decide w g 0 (g_observations g) (next_allowed w g))
            (\<lambda>kind tool.
              rbind (repair_observation None (g_decisions g) (malformed_text kind tool)) (\<lambda>ob.
              settle_reply w g
                (wd_decide w g 1 (g_observations g @ [ob]) (next_allowed w g))
                (\<lambda>_ _. Inr (stopped_step Malformed_response (g_observations g) g)))))"

subsection \<open>The finish and clarify nodes\<close>

definition MAX_FINISH_BLOCKS :: nat where "MAX_FINISH_BLOCKS = 8"

definition checked_block :: "answer_block \<Rightarrow> coord_error + answer_block" where
  "checked_block b = (if wf_block b then Inr b else Inl Validation_error)"

definition draft_mode :: "action_outcome list \<Rightarrow> answer_mode option" where
  "draft_mode outcomes =
     (if outcomes = [] then Some Direct
      else if list_all (\<lambda>oc. ao_kind oc = Explain_sources) outcomes then Some Explanation
      else None)"

definition with_redirect :: "string option \<Rightarrow> finish_draft \<Rightarrow> coord_error + finish_draft" where
  "with_redirect part d =
     (if truthy_str part \<and> \<not> list_ex (\<lambda>b. ab_claim b = General) (fd_blocks d)
         \<and> length (fd_blocks d) < MAX_FINISH_BLOCKS
      then rbind (checked_block \<lparr>ab_text = out_of_scope_sentence (the part), ab_evidence = [],
                                 ab_value_refs = [], ab_claim = General\<rparr>)
             (\<lambda>b. Inr (d\<lparr>fd_blocks := fd_blocks d @ [b]\<rparr>))
      else Inr d)"

definition published_draft :: "gstate \<Rightarrow> finish_draft \<Rightarrow> coord_error + finished_draft" where
  "published_draft g d =
     rbind (with_redirect (g_out_of_scope g) d) (\<lambda>d'.
       Inr \<lparr>fin_draft = d', fin_observations = g_observations g,
            fin_outcomes = lc_outcomes (g_lifecycle g),
            fin_mode = draft_mode (lc_outcomes (g_lifecycle g)), fin_text_kind = g_text_kind g\<rparr>)"

definition finish_node :: "world \<Rightarrow> gstate \<Rightarrow> coord_error + gstate" where
  "finish_node w g =
     (case g_last g of
        Some (AFinish d) \<Rightarrow>
          rbind (published_draft g d) (\<lambda>fd.
          rbind (first_repair g d FINISH_RULES (draft_facts_of w g) ''draft'' (Some fd)) (\<lambda>r.
            Inr (case r of
                   Some g' \<Rightarrow> g'
                 | None \<Rightarrow> g\<lparr>g_terminal := Some (Finished fd), g_next := NxEnd\<rparr>)))
      | _ \<Rightarrow> Inl Assertion_error)"

definition clarify_node :: "world \<Rightarrow> gstate \<Rightarrow> coord_error + gstate" where
  "clarify_node w g =
     (case g_last g of
        Some (AClarify c) \<Rightarrow>
          rbind (first_repair g c CLARIFY_RULES (draft_facts_of w g) ''clarify'' None) (\<lambda>r.
            Inr (case r of
                   Some g' \<Rightarrow> g'
                 | None \<Rightarrow> g\<lparr>g_terminal := Some (ClarifyRequested (ca_question c) (ca_choices c)
                                              (lc_outcomes (g_lifecycle g))),
                             g_next := NxEnd\<rparr>))
      | _ \<Rightarrow> Inl Assertion_error)"

definition stop_node :: "gstate \<Rightarrow> coord_error + gstate" where
  "stop_node g = Inr (g\<lparr>g_next := NxEnd\<rparr>)"

subsection \<open>The tool nodes\<close>

definition business_result_ends_turn :: "ask_result \<Rightarrow> action_outcome list \<Rightarrow> bool" where
  "business_result_ends_turn r outcomes =
     (if ar_disposition r = Clarification_required
      then (case ar_wire r of Some wo \<Rightarrow> wo_has_choices wo | None \<Rightarrow> False)
      else if ar_disposition r = Bq_denied
      then \<not> list_ex (\<lambda>oc. ao_status oc = Succeeded) outcomes
      else ar_capability_unavailable r)"

definition question_origin_of :: "ask_result \<Rightarrow> question_origin" where
  "question_origin_of r =
     (case ask_envelopes r of
        [] \<Rightarrow> From_user
      | e # _ \<Rightarrow> (if en_tier_patch e then From_model else From_user))"

definition checked_question ::
    "string \<Rightarrow> string \<Rightarrow> record_binding option \<Rightarrow> coord_error + business_question" where
  "checked_question raw reading binding =
     (if 1 \<le> length raw \<and> length raw \<le> 2000 \<and> 1 \<le> length reading \<and> length reading \<le> 2000
      then Inr \<lparr>bq_raw = raw, bq_reading = reading, bq_binding = binding\<rparr>
      else Inl Validation_error)"

definition documents_answered :: "observation list \<Rightarrow> bool" where
  "documents_answered obs \<longleftrightarrow>
     list_ex (\<lambda>ob. ob_kind ob = Acted Search_documents \<and> ob_status ob = Succeeded
                   \<and> ob_evidence ob \<noteq> []) obs"

definition table_head :: "ask_result \<Rightarrow> string" where
  "table_head r =
     (case ask_envelopes r of
        e # _ \<Rightarrow> answer_head (ar_plan_context r) (en_identity e) (length (en_rows e)) (en_total e)
                   (en_changes e) None None None
      | [] \<Rightarrow> ar_answer_text r)"

definition plain_status :: "ask_result \<Rightarrow> action_status" where
  "plain_status r =
     (if ar_disposition r = Bq_denied then Denied
      else if ar_stop_reason r = Some ''timeout'' then Timed_out else Failed)"

definition query_committed ::
    "world \<Rightarrow> gstate \<Rightarrow> query_business_action \<Rightarrow> ask_result \<Rightarrow> coord_error + gstate" where
  "query_committed w g q r =
     (let oc = outcome_of g Query_business Succeeded (RCommitted r) in
      rbind (record_outcome w g oc (Some (question_origin_of r))) (\<lambda>g1.
        if finishes_without_narration (lc_outcomes (g_lifecycle g1)) (g_observations g1)
             (cx_question (g_context g)) (qa_compound q) (qa_out_of_scope q)
        then rbind (checked_block \<lparr>ab_text = table_head r, ab_evidence = [ao_id oc],
                                   ab_value_refs = [], ab_claim = Evidence\<rparr>) (\<lambda>b.
          Inr ((count_action Query_business g1)
            \<lparr>g_last := Some (AFinish \<lparr>fd_blocks = [b], fd_unanswered = None\<rparr>),
             g_text_kind := Table_fallback, g_next := NxFinish\<rparr>))
        else Inr ((count_action Query_business g1)
            \<lparr>g_out_of_scope := str_or (qa_out_of_scope q) (g_out_of_scope g),
             g_next := NxDecide\<rparr>)))"

definition query_plain :: "world \<Rightarrow> gstate \<Rightarrow> ask_result \<Rightarrow> coord_error + gstate" where
  "query_plain w g r =
     (let oc = outcome_of g Query_business (plain_status r) (RAsk r) in
      rbind (complete_in w g oc) (\<lambda>g1.
        if business_result_ends_turn r (lc_outcomes (g_lifecycle g1))
        then Inr (g1\<lparr>g_terminal := Some (BqTerminal r (lc_outcomes (g_lifecycle g1))),
                    g_next := NxEnd\<rparr>)
        else rbind (observe oc (Some (question_origin_of r))) (\<lambda>ob.
          Inr ((count_action Query_business (g1\<lparr>g_observations := g_observations g @ [ob]\<rparr>))
            \<lparr>g_next := NxDecide\<rparr>))))"

definition query_business_node :: "world \<Rightarrow> gstate \<Rightarrow> coord_error + gstate" where
  "query_business_node w g =
     (case g_last g of
        Some (AQuery q) \<Rightarrow>
          (case begin_action w g Query_business (action_id_of (g_actions g + 1)) of
             Inl _ \<Rightarrow> Inr (stopped_step Action_protocol_error (g_observations g) g)
           | Inr g1 \<Rightarrow>
               rbind (checked_question
                   (if documents_answered (g_observations g) then qa_question q
                    else cx_question (g_context g))
                   (qa_question q) (qa_binding q)) (\<lambda>question.
               case wd_query w g1 question (qa_continues q) of
                 Deadline \<Rightarrow> timed_out_action w g1 Query_business
               | Raises cls \<Rightarrow> failed_action w g1 Query_business cls
               | Returned (Committed r) \<Rightarrow> query_committed w g1 q r
               | Returned (Plain r) \<Rightarrow> query_plain w g1 r))
      | _ \<Rightarrow> Inl Assertion_error)"

definition search_outcome :: "gstate \<Rightarrow> doc_return \<Rightarrow> action_outcome" where
  "search_outcome g r =
     (case r of
        Docs d \<Rightarrow> outcome_of g Search_documents Succeeded (RDocs d)
      | DocsFailed f \<Rightarrow>
          outcome_of g Search_documents (if df_timeout f then Timed_out else Failed)
            (RDocFailure f))"

definition search_documents_node :: "world \<Rightarrow> gstate \<Rightarrow> coord_error + gstate" where
  "search_documents_node w g =
     (case g_last g of
        Some (ASearch question) \<Rightarrow>
          (case begin_action w g Search_documents (action_id_of (g_actions g + 1)) of
             Inl _ \<Rightarrow> Inr (stopped_step Action_protocol_error (g_observations g) g)
           | Inr g1 \<Rightarrow>
               (case wd_search w g1 question of
                  Deadline \<Rightarrow> timed_out_action w g1 Search_documents
                | Raises cls \<Rightarrow> failed_action w g1 Search_documents cls
                | Returned r \<Rightarrow>
                    rbind (record_outcome w g1 (search_outcome g1 r) None) (\<lambda>g2.
                      Inr ((count_action Search_documents g2)\<lparr>g_next := NxDecide\<rparr>))))
      | _ \<Rightarrow> Inl Assertion_error)"

definition explain_sources_node :: "world \<Rightarrow> gstate \<Rightarrow> coord_error + gstate" where
  "explain_sources_node w g =
     (case g_last g of
        Some (AExplain selection) \<Rightarrow>
          (case begin_action w g Explain_sources (action_id_of (g_actions g + 1)) of
             Inl _ \<Rightarrow> Inr (stopped_step Action_protocol_error (g_observations g) g)
           | Inr g1 \<Rightarrow>
               (case wd_explain w g1 selection of
                  Deadline \<Rightarrow> timed_out_action w g1 Explain_sources
                | Raises cls \<Rightarrow> failed_action w g1 Explain_sources cls
                | Returned None \<Rightarrow>
                    rbind (complete_in w g1 (outcome_of g1 Explain_sources Failed RNone)) (\<lambda>g2.
                      Inr (stopped_step Explanation_unavailable (g_observations g) g2))
                | Returned (Some ss) \<Rightarrow>
                    rbind (record_outcome w g1
                        (outcome_of g1 Explain_sources Succeeded (RSources ss)) None) (\<lambda>g2.
                      Inr ((count_action Explain_sources g2)
                        \<lparr>g_explained := True, g_next := NxDecide\<rparr>))))
      | _ \<Rightarrow> Inl Assertion_error)"

subsection \<open>The edges and the run\<close>

datatype node = Decide | Finish | Clarify | Stop | Do tool_kind

definition route_after_decide :: "gstate \<Rightarrow> node option" where
  "route_after_decide g =
     (case g_next g of
        NxFinishAnswer \<Rightarrow> Some Finish
      | NxClarify \<Rightarrow> Some Clarify
      | NxTool k \<Rightarrow> Some (Do k)
      | _ \<Rightarrow> None)"

definition route_after_action :: "gstate \<Rightarrow> node option" where
  "route_after_action g =
     (case g_next g of NxDecide \<Rightarrow> Some Decide | NxFinish \<Rightarrow> Some Finish | _ \<Rightarrow> None)"

text \<open>
  The conditional edges of \<open>build_coordinator_graph\<close>. Only the business query has an edge to
  the finish node; a route that an edge map does not hold is a KeyError.
\<close>

fun edge :: "node \<Rightarrow> gstate \<Rightarrow> coord_error + node option" where
  "edge Decide g = Inr (route_after_decide g)"
| "edge Stop g = Inr None"
| "edge (Do Query_business) g = Inr (route_after_action g)"
| "edge n g =
     (case route_after_action g of
        Some Finish \<Rightarrow> Inl (Raised ''KeyError'')
      | r \<Rightarrow> Inr r)"

fun run_node :: "world \<Rightarrow> node \<Rightarrow> gstate \<Rightarrow> coord_error + gstate" where
  "run_node w Decide g = decide_node w g"
| "run_node w Finish g = finish_node w g"
| "run_node w Clarify g = clarify_node w g"
| "run_node w Stop g = stop_node g"
| "run_node w (Do Query_business) g = query_business_node w g"
| "run_node w (Do Search_documents) g = search_documents_node w g"
| "run_node w (Do Explain_sources) g = explain_sources_node w g"

text \<open>
  The run the graph library makes of nodes and edges, one node per step, at most
  \<open>recursion_limit\<close> of them.
\<close>

fun run_graph :: "world \<Rightarrow> nat \<Rightarrow> node \<Rightarrow> gstate \<Rightarrow> coord_error + gstate" where
  "run_graph w 0 n g = Inl (Raised ''GraphRecursionError'')"
| "run_graph w (Suc fuel) n g =
     rbind (run_node w n g) (\<lambda>g'.
     rbind (edge n g') (\<lambda>next.
       case next of None \<Rightarrow> Inr g' | Some n' \<Rightarrow> run_graph w fuel n' g'))"

definition RECURSION_LIMIT :: nat where "RECURSION_LIMIT = 25"

definition initial_state :: "coord_context \<Rightarrow> policy \<Rightarrow> gstate" where
  "initial_state cx p =
     \<lparr>g_context = cx, g_policy = p, g_lifecycle = new_lifecycle (cx_turn cx), g_decisions = 0,
      g_actions = 0, g_queries = 0, g_searches = 0, g_restores = 0, g_repairs = {},
      g_held = None, g_explained = False, g_allowed = ALL_ACTIONS, g_observations = [],
      g_last = None, g_next = NxDecide, g_text_kind = Narrative, g_out_of_scope = None,
      g_stop_reason = None, g_terminal = None\<rparr>"

definition final_terminal :: "gstate \<Rightarrow> terminal" where
  "final_terminal g =
     (let t = (case g_terminal g of
                 Some t \<Rightarrow> t
               | None \<Rightarrow> Stopped (case g_stop_reason g of Some r \<Rightarrow> r | None \<Rightarrow> Decision_limit)
                           (g_observations g) (lc_outcomes (g_lifecycle g)))
      in case t of
           Stopped reason _ _ \<Rightarrow>
             (case g_held g of
                Some fd \<Rightarrow> if reason \<noteq> Cancelled_turn then Finished fd else t
              | None \<Rightarrow> t)
         | _ \<Rightarrow> t)"

definition run_coordinator_turn :: "world \<Rightarrow> coord_context \<Rightarrow> policy \<Rightarrow> coord_error + terminal" where
  "run_coordinator_turn w cx p =
     rbind (run_graph w RECURSION_LIMIT Decide (initial_state cx p)) (\<lambda>g. Inr (final_terminal g))"

end
