(* ===== verification/Coord_Safety.thy ===== *)
theory Coord_Safety
  imports Coord_Graph
begin

text \<open>
  What every run of the coordinator's graph keeps: the ceilings of the policy, the numbering of
  the outcomes, the evidence a draft may cite; and that the run ends within the graph library's
  step limit. The node lemmas rest on the interpretation \<open>lcp\<close> of the action protocol.
\<close>

subsection \<open>Counting outcomes\<close>

definition count_kind :: "tool_kind \<Rightarrow> action_outcome list \<Rightarrow> nat" where
  "count_kind k ocs = length (filter (\<lambda>oc. ao_kind oc = k) ocs)"

fun cap_of :: "policy \<Rightarrow> tool_kind \<Rightarrow> nat" where
  "cap_of p Query_business = max_business_queries p"
| "cap_of p Search_documents = max_document_searches p"
| "cap_of p Explain_sources = max_restores p"

fun used_of :: "gstate \<Rightarrow> tool_kind \<Rightarrow> nat" where
  "used_of g Query_business = g_queries g"
| "used_of g Search_documents = g_searches g"
| "used_of g Explain_sources = g_restores g"

lemma count_kind_Nil [simp]: "count_kind k [] = 0"
  and count_kind_snoc [simp]:
    "count_kind k (ocs @ [oc]) = count_kind k ocs + (if ao_kind oc = k then 1 else 0)"
  by (simp_all add: count_kind_def)

definition outcomes_ok :: "coord_context \<Rightarrow> policy \<Rightarrow> action_outcome list \<Rightarrow> bool" where
  "outcomes_ok cx p ocs \<longleftrightarrow>
     map ao_id ocs = map action_id_of [1..<Suc (length ocs)]
     \<and> (\<forall>oc \<in> set ocs. ao_turn oc = cx_turn cx)
     \<and> length ocs \<le> max_actions p
     \<and> (\<forall>k. count_kind k ocs \<le> cap_of p k)"

text \<open>The ids the succeeded outcomes returned: all a draft may cite.\<close>

definition returned_ids :: "action_outcome list \<Rightarrow> string set" where
  "returned_ids ocs = (\<Union>oc \<in> set ocs. set (outcome_evidence oc))"

lemma returned_ids_append [simp]: "returned_ids (xs @ ys) = returned_ids xs \<union> returned_ids ys"
  by (auto simp: returned_ids_def)

definition finished_ok :: "coord_context \<Rightarrow> policy \<Rightarrow> finished_draft \<Rightarrow> bool" where
  "finished_ok cx p fd \<longleftrightarrow>
     outcomes_ok cx p (fin_outcomes fd)
     \<and> cited_ids (fin_draft fd) \<subseteq> returned_ids (fin_outcomes fd)
     \<and> fin_mode fd = draft_mode (fin_outcomes fd)"

fun terminal_outcomes :: "terminal \<Rightarrow> action_outcome list" where
  "terminal_outcomes (Finished fd) = fin_outcomes fd"
| "terminal_outcomes (ClarifyRequested q cs ocs) = ocs"
| "terminal_outcomes (BqTerminal r ocs) = ocs"
| "terminal_outcomes (Stopped reason obs ocs) = ocs"

definition terminal_ok :: "coord_context \<Rightarrow> policy \<Rightarrow> terminal \<Rightarrow> bool" where
  "terminal_ok cx p t \<longleftrightarrow>
     outcomes_ok cx p (terminal_outcomes t)
     \<and> (case t of Finished fd \<Rightarrow> finished_ok cx p fd | _ \<Rightarrow> True)"

lemma outcomes_ok_Nil [simp]: "outcomes_ok cx p []"
  by (simp add: outcomes_ok_def)

lemma outcomes_ok_snoc:
  assumes "outcomes_ok cx p ocs" "length ocs < max_actions p"
    and "count_kind (ao_kind oc) ocs < cap_of p (ao_kind oc)"
    and "ao_turn oc = cx_turn cx" "ao_id oc = action_id_of (length ocs + 1)"
  shows "outcomes_ok cx p (ocs @ [oc])"
  using assms by (auto simp: outcomes_ok_def le_Suc_eq Suc_le_eq)

lemma action_id_of_inj [simp]: "action_id_of m = action_id_of n \<longleftrightarrow> m = n"
  by (simp add: action_id_of_def)

lemma next_id_fresh:
  "outcomes_ok cx p ocs \<Longrightarrow> action_id_of (length ocs + 1) \<notin> ao_id ` set ocs"
proof -
  assume "outcomes_ok cx p ocs"
  then have "ao_id ` set ocs = action_id_of ` set [1..<Suc (length ocs)]"
    unfolding outcomes_ok_def by (metis list.set_map)
  then show ?thesis by (auto simp del: upt_Suc)
qed

subsection \<open>The invariant\<close>

definition core_inv :: "coord_context \<Rightarrow> policy \<Rightarrow> gstate \<Rightarrow> bool" where
  "core_inv cx p g \<longleftrightarrow>
     g_context g = cx \<and> g_policy g = p
     \<and> lifecycle_inv (g_lifecycle g) \<and> assert_ready_for_model (g_lifecycle g) = Inr ()
     \<and> lc_turn (g_lifecycle g) = cx_turn cx
     \<and> outcomes_ok cx p (lc_outcomes (g_lifecycle g))
     \<and> g_actions g = length (lc_outcomes (g_lifecycle g))
     \<and> (\<forall>k. used_of g k = count_kind k (lc_outcomes (g_lifecycle g)))
     \<and> known_ids (g_observations g) \<subseteq> returned_ids (lc_outcomes (g_lifecycle g))
     \<and> (case g_held g of None \<Rightarrow> True | Some fd \<Rightarrow> finished_ok cx p fd)
     \<and> g_decisions g \<le> max_decisions p
     \<and> g_terminal g = None"

fun node_inv :: "node \<Rightarrow> gstate \<Rightarrow> bool" where
  "node_inv Decide g = True"
| "node_inv Finish g = (\<exists>d. g_last g = Some (AFinish d))"
| "node_inv Clarify g = (\<exists>c. g_last g = Some (AClarify c))"
| "node_inv Stop g = False"
| "node_inv (Do k) g =
     ((\<exists>a. g_last g = Some a \<and> kind_of a = Tool k)
      \<and> g_actions g < max_actions (g_policy g) \<and> used_of g k < cap_of (g_policy g) k)"

definition graph_inv :: "coord_context \<Rightarrow> policy \<Rightarrow> node \<Rightarrow> gstate \<Rightarrow> bool" where
  "graph_inv cx p n g \<longleftrightarrow> core_inv cx p g \<and> node_inv n g"

text \<open>A state the run ends in: its terminal is sound, and so is a draft it still holds.\<close>

definition end_inv :: "coord_context \<Rightarrow> policy \<Rightarrow> gstate \<Rightarrow> bool" where
  "end_inv cx p g \<longleftrightarrow>
     (\<exists>t. g_terminal g = Some t \<and> terminal_ok cx p t)
     \<and> (case g_held g of None \<Rightarrow> True | Some fd \<Rightarrow> finished_ok cx p fd)"

text \<open>The steps a node may still take: three per decision that is left.\<close>

fun node_rank :: "node \<Rightarrow> nat" where
  "node_rank Decide = 1"
| "node_rank Finish = 2"
| "node_rank Clarify = 2"
| "node_rank Stop = 0"
| "node_rank (Do k) = 3"

definition steps_left :: "policy \<Rightarrow> node \<Rightarrow> gstate \<Rightarrow> nat" where
  "steps_left p n g = 3 * (max_decisions p - g_decisions g) + node_rank n"

lemma initial_inv: "graph_inv cx p Decide (initial_state cx p)"
proof -
  have "used_of (initial_state cx p) k = 0" for k
    by (cases k) (simp_all add: initial_state_def)
  then show ?thesis
    by (auto simp: graph_inv_def core_inv_def initial_state_def new_lifecycle_inv
        assert_ready_for_model_def new_lifecycle_def known_ids_def
        intro: new_lifecycle_inv [unfolded new_lifecycle_def])
qed

lemma used_of_cong:
  "g_queries g = g_queries h \<Longrightarrow> g_searches g = g_searches h \<Longrightarrow> g_restores g = g_restores h \<Longrightarrow>
     used_of g k = used_of h k"
  by (cases k) simp_all

lemma stopped_end:
  assumes "core_inv cx p g"
  shows "end_inv cx p (stopped_step reason obs g)"
  using assms by (simp add: core_inv_def end_inv_def stopped_step_def terminal_ok_def)

subsection \<open>The decide node\<close>

text \<open>What one step does: the run ends soundly, or goes on with the invariant and fewer steps left.\<close>

definition good_step :: "coord_context \<Rightarrow> policy \<Rightarrow> node \<Rightarrow> gstate \<Rightarrow> gstate \<Rightarrow> bool" where
  "good_step cx p n g g' \<longleftrightarrow>
     (edge n g' = Inr None \<and> end_inv cx p g')
     \<or> (\<exists>n'. edge n g' = Inr (Some n') \<and> graph_inv cx p n' g'
            \<and> steps_left p n' g' < steps_left p n g)"

lemma edge_end: "g_next g = NxEnd \<Longrightarrow> edge n g = Inr None"
  by (cases n rule: node.exhaust; cases "case n of Do k \<Rightarrow> k | _ \<Rightarrow> Query_business")
    (simp_all add: route_after_decide_def route_after_action_def)

lemma edge_decide: "n \<noteq> Decide \<Longrightarrow> n \<noteq> Stop \<Longrightarrow> g_next g = NxDecide \<Longrightarrow> edge n g = Inr (Some Decide)"
  by (cases n rule: node.exhaust; cases "case n of Do k \<Rightarrow> k | _ \<Rightarrow> Query_business")
    (simp_all add: route_after_action_def)

lemma good_step_end: "end_inv cx p g' \<Longrightarrow> g_next g' = NxEnd \<Longrightarrow> good_step cx p n g g'"
  by (simp add: good_step_def edge_end)

lemma stopped_next [simp]: "g_next (stopped_step reason obs g) = NxEnd"
  by (simp add: stopped_step_def)

lemma good_step_stopped: "core_inv cx p g' \<Longrightarrow> good_step cx p n g (stopped_step reason obs g')"
  by (simp add: good_step_end stopped_end)

lemma used_of_counters [simp]:
  "used_queries (turn_counters g) = g_queries g" "used_searches (turn_counters g) = g_searches g"
  "used_restores (turn_counters g) = g_restores g" "used_actions (turn_counters g) = g_actions g"
  by (simp_all add: turn_counters_def)

lemma next_allowed_tool:
  "Tool k \<in> next_allowed w g \<Longrightarrow>
     g_actions g < max_actions (g_policy g) \<and> used_of g k < cap_of (g_policy g) k"
  using tool_allowed_below [of k "g_policy g" "turn_counters g"]
  by (cases k) (auto simp: next_allowed_def allowed_iffs)

lemma core_inv_accepted:
  "core_inv cx p g \<Longrightarrow> g_decisions g < max_decisions p \<Longrightarrow>
     core_inv cx p (g\<lparr>g_decisions := g_decisions g + 1, g_allowed := al, g_last := la, g_next := nx\<rparr>)"
  by (simp add: core_inv_def cong: used_of_cong)

lemma accept_step:
  assumes inv: "core_inv cx p g" and below: "g_decisions g < max_decisions p"
  shows "good_step cx p Decide g (accept_action w g a)"
proof (cases "kind_of a \<in> next_allowed w g")
  case False
  with inv show ?thesis by (simp add: accept_action_def Let_def good_step_stopped)
next
  case True
  let ?g = "accept_action w g a"
  have g': "?g = g\<lparr>g_decisions := g_decisions g + 1, g_allowed := next_allowed w g,
      g_last := Some a, g_next := next_of_kind (kind_of a)\<rparr>"
    using True by (simp add: accept_action_def Let_def)
  have core: "core_inv cx p ?g" unfolding g' by (rule core_inv_accepted [OF inv below])
  have pol: "g_policy g = p" using inv by (simp add: core_inv_def)
  have tool: "node_inv (Do k) ?g" if "kind_of a = Tool k" for k
    using next_allowed_tool [of k w g] True that unfolding g'
    by (simp cong: used_of_cong)
  have nx: "g_next ?g = next_of_kind (kind_of a)" "g_last ?g = Some a" unfolding g' by simp_all
  have "\<exists>n'. edge Decide ?g = Inr (Some n') \<and> node_inv n' ?g \<and> node_rank n' \<le> 3"
  proof (cases a)
    case (AFinish d)
    with nx show ?thesis by (intro exI [of _ Finish]) (simp add: route_after_decide_def)
  next
    case (AClarify c)
    with nx show ?thesis by (intro exI [of _ Clarify]) (simp add: route_after_decide_def)
  next
    case (AQuery q)
    with nx tool [of Query_business] show ?thesis
      by (intro exI [of _ "Do Query_business"]) (simp add: route_after_decide_def)
  next
    case (ASearch q)
    with nx tool [of Search_documents] show ?thesis
      by (intro exI [of _ "Do Search_documents"]) (simp add: route_after_decide_def)
  next
    case (AExplain q)
    with nx tool [of Explain_sources] show ?thesis
      by (intro exI [of _ "Do Explain_sources"]) (simp add: route_after_decide_def)
  qed
  then obtain n' where n': "edge Decide ?g = Inr (Some n')" "node_inv n' ?g" "node_rank n' \<le> 3"
    by blast
  have "g_decisions ?g = g_decisions g + 1" by (simp add: g')
  with n'(3) below have "steps_left p n' ?g < steps_left p Decide g"
    by (simp add: steps_left_def)
  with n' core show ?thesis unfolding good_step_def graph_inv_def by blast
qed

lemma pre_decision_stop_None:
  "pre_decision_stop w g = None \<Longrightarrow> g_decisions g < max_decisions (g_policy g)"
  by (auto simp: pre_decision_stop_def Let_def split: if_splits option.splits)

lemma settle_step:
  assumes "core_inv cx p g" "g_decisions g < max_decisions p" "settle_reply w g r again = Inr g'"
    and "\<And>kind tool. again kind tool = Inr g' \<Longrightarrow> good_step cx p Decide g g'"
  shows "good_step cx p Decide g g'"
  using assms by (cases r) (auto intro: accept_step good_step_stopped)

lemma decide_step:
  assumes inv: "core_inv cx p g" and run: "decide_node w g = Inr g'"
  shows "good_step cx p Decide g g'"
proof (cases "pre_decision_stop w g")
  case (Some reason)
  with run inv show ?thesis by (auto simp: decide_node_def intro: good_step_stopped)
next
  case None
  with inv have below: "g_decisions g < max_decisions p"
    using pre_decision_stop_None by (auto simp: core_inv_def)
  from run None obtain again where s: "settle_reply w g (wd_decide w g 0 (g_observations g)
      (next_allowed w g)) again = Inr g'"
    and again: "\<And>kind tool. again kind tool = Inr g' \<Longrightarrow> \<exists>obs r. settle_reply w g r
       (\<lambda>_ _. Inr (stopped_step Malformed_response obs g)) = Inr g'"
    by (fastforce simp: decide_node_def)
  show ?thesis
  proof (rule settle_step [OF inv below s])
    fix kind tool
    assume "again kind tool = Inr g'"
    from again [OF this] obtain obs r where "settle_reply w g r
       (\<lambda>_ _. Inr (stopped_step Malformed_response obs g)) = Inr g'" by blast
    then show "good_step cx p Decide g g'"
      by (rule settle_step [OF inv below]) (use inv in \<open>auto intro: good_step_stopped\<close>)
  qed
qed

subsection \<open>The finish and clarify nodes\<close>

lemma known_ids_repair:
  "repair_observation tag n text = Inr ob \<Longrightarrow> known_ids [ob] = {}"
  by (simp add: repair_observation_def Let_def blank_observation_def known_ids_def)

lemma if_eq_either: "(if b then x else y) = x \<or> (if b then x else y) = y"
  by simp

text \<open>A repair stops the turn, or sends the model back with one more observation.\<close>

lemma first_repair_Some:
  "first_repair g a rs f tag held = Inr (Some g') \<Longrightarrow>
     (\<exists>obs. g' = stopped_step Malformed_response obs g)
     \<or> (\<exists>ob reps h. known_ids [ob] = {} \<and> (h = held \<or> h = g_held g)
          \<and> g' = g\<lparr>g_observations := df_observations f @ [ob], g_repairs := reps,
                   g_next := NxDecide, g_held := h\<rparr>)"
proof (induction g a rs f tag held rule: first_repair.induct)
  case (1 g a f tag held)
  then show ?case by simp
next
  case (2 g a r rs f tag held)
  show ?case
  proof (cases "dru_check r a f")
    case None
    with 2 show ?thesis by simp
  next
    case (Some msg)
    show ?thesis
    proof (cases "dru_name r \<in> g_repairs g")
      case True
      with 2 Some show ?thesis by (cases "dru_stops r") auto
    next
      case False
      with "2.prems" Some obtain ob where
        ob: "repair_observation (Some tag) (g_decisions g) msg = Inr ob"
        and g': "g' = g\<lparr>g_observations := df_observations f @ [ob],
                g_repairs := insert (dru_name r) (g_repairs g), g_next := NxDecide,
                g_held := (if dru_holds r then held else g_held g)\<rparr>"
        by auto
      show ?thesis
        unfolding g'
        by (rule disjI2, intro exI conjI, rule known_ids_repair [OF ob], rule if_eq_either, rule refl)
    qed
  qed
qed

text \<open>A draft that breaks the evidence rule is neither finished nor held.\<close>

lemma first_repair_evidence:
  assumes "first_repair g d FINISH_RULES f tag held = Inr res" "evidence_check d f \<noteq> None"
  shows "\<exists>g'. res = Some g' \<and> g_held g' = g_held g"
  using assms
  by (auto simp: FINISH_RULES_def evidence_rule_def stopped_step_def split: if_splits)

lemma core_inv_repaired:
  assumes "core_inv cx p g" "known_ids [ob] = {}"
    and "case h of None \<Rightarrow> True | Some fd \<Rightarrow> finished_ok cx p fd"
  shows "core_inv cx p (g\<lparr>g_observations := g_observations g @ [ob], g_repairs := reps,
            g_next := NxDecide, g_held := h\<rparr>)"
  using assms by (simp add: core_inv_def cong: used_of_cong)

lemma repair_step:
  assumes inv: "core_inv cx p g" and n: "n = Finish \<or> n = Clarify"
    and obs: "df_observations f = g_observations g"
    and run: "first_repair g a rs f tag held = Inr (Some g')"
    and h: "g_held g' = g_held g \<or> (case held of None \<Rightarrow> True | Some fd \<Rightarrow> finished_ok cx p fd)"
  shows "good_step cx p n g g'"
proof -
  consider (stopped) obs' where "g' = stopped_step Malformed_response obs' g"
    | (repaired) ob reps h where "known_ids [ob] = {}" "h = held \<or> h = g_held g"
      "g' = g\<lparr>g_observations := df_observations f @ [ob], g_repairs := reps,
                   g_next := NxDecide, g_held := h\<rparr>"
    using first_repair_Some [OF run] by blast
  then show ?thesis
  proof cases
    case stopped
    with inv show ?thesis by (simp add: good_step_stopped)
  next
    case repaired
    have "case h of None \<Rightarrow> True | Some fd \<Rightarrow> finished_ok cx p fd"
      using h repaired inv by (auto simp: core_inv_def)
    with inv repaired(1) have "core_inv cx p g'"
      unfolding repaired(3) obs by (intro core_inv_repaired)
    moreover have "edge n g' = Inr (Some Decide)" using n repaired(3) by (intro edge_decide) auto
    moreover have "steps_left p Decide g' < steps_left p n g"
      using n repaired(3) by (auto simp: steps_left_def)
    ultimately show ?thesis by (auto simp: good_step_def graph_inv_def)
  qed
qed

lemma cited_ids_redirect: "with_redirect part d = Inr d' \<Longrightarrow> cited_ids d' = cited_ids d"
  by (auto simp: with_redirect_def checked_block_def cited_ids_def split: if_splits)

lemma published_ok:
  assumes "core_inv cx p g" "published_draft g d = Inr fd"
    and "evidence_check d (draft_facts_of w g) = None"
  shows "finished_ok cx p fd"
proof -
  from assms(3) have "cited_ids d \<subseteq> known_ids (g_observations g)"
    by (simp add: evidence_check_None draft_facts_of_def)
  moreover from assms(2) obtain d' where "with_redirect (g_out_of_scope g) d = Inr d'"
    and fd: "fin_draft fd = d'" "fin_outcomes fd = lc_outcomes (g_lifecycle g)"
      "fin_mode fd = draft_mode (lc_outcomes (g_lifecycle g))"
    by (auto simp: published_draft_def)
  then have "cited_ids d' = cited_ids d" by (intro cited_ids_redirect)
  ultimately show ?thesis using assms(1) fd by (auto simp: core_inv_def finished_ok_def)
qed

lemma finish_step:
  assumes inv: "core_inv cx p g" and run: "finish_node w g = Inr g'"
  shows "good_step cx p Finish g g'"
proof -
  from run obtain d fd r where d: "g_last g = Some (AFinish d)"
    and fd: "published_draft g d = Inr fd"
    and r: "first_repair g d FINISH_RULES (draft_facts_of w g) ''draft'' (Some fd) = Inr r"
    and g': "g' = (case r of Some g' \<Rightarrow> g'
                   | None \<Rightarrow> g\<lparr>g_terminal := Some (Finished fd), g_next := NxEnd\<rparr>)"
    by (auto simp: finish_node_def split: option.splits action.splits)
  note ev = first_repair_evidence [OF r]
  show ?thesis
  proof (cases r)
    case None
    with ev have "evidence_check d (draft_facts_of w g) = None" by blast
    from published_ok [OF inv fd this] inv show ?thesis
      unfolding g' None option.case
      by (intro good_step_end) (simp_all add: end_inv_def terminal_ok_def core_inv_def finished_ok_def)
  next
    case (Some h)
    with ev published_ok [OF inv fd, of w]
    have "g_held h = g_held g \<or> finished_ok cx p fd" by auto
    moreover have "df_observations (draft_facts_of w g) = g_observations g"
      by (simp add: draft_facts_of_def)
    ultimately show ?thesis
      unfolding g' Some option.case using r [unfolded Some]
      by (intro repair_step [OF inv]) auto
  qed
qed

lemma clarify_step:
  assumes inv: "core_inv cx p g" and run: "clarify_node w g = Inr g'"
  shows "good_step cx p Clarify g g'"
proof -
  from run obtain c r where
    r: "first_repair g c CLARIFY_RULES (draft_facts_of w g) ''clarify'' None = Inr r"
    and g': "g' = (case r of Some g' \<Rightarrow> g'
                   | None \<Rightarrow> g\<lparr>g_terminal := Some (ClarifyRequested (ca_question c) (ca_choices c)
                                   (lc_outcomes (g_lifecycle g))), g_next := NxEnd\<rparr>)"
    by (auto simp: clarify_node_def split: option.splits action.splits)
  show ?thesis
  proof (cases r)
    case None
    with inv show ?thesis
      unfolding g' by (intro good_step_end) (simp_all add: end_inv_def terminal_ok_def core_inv_def)
  next
    case (Some h)
    have "df_observations (draft_facts_of w g) = g_observations g" by (simp add: draft_facts_of_def)
    with Some r show ?thesis
      unfolding g' by (intro repair_step [OF inv]) auto
  qed
qed

subsection \<open>The tool nodes\<close>

text \<open>
  What begins a tool action: the id is fresh, so the lifecycle lets it start, and the completion
  of any outcome built for it succeeds and appends it.
\<close>

definition begun :: "coord_context \<Rightarrow> policy \<Rightarrow> tool_kind \<Rightarrow> gstate \<Rightarrow> gstate \<Rightarrow> bool" where
  "begun cx p k g g1 \<longleftrightarrow>
     g1 = g\<lparr>g_lifecycle := g_lifecycle g1\<rparr>
     \<and> (\<forall>w st r. \<exists>l. complete_in w g1 (outcome_of g1 k st r) = Inr (g\<lparr>g_lifecycle := l\<rparr>)
          \<and> lifecycle_inv l \<and> assert_ready_for_model l = Inr () \<and> lc_turn l = cx_turn cx
          \<and> lc_outcomes l = lc_outcomes (g_lifecycle g) @ [outcome_of g k st r])"

lemma begin_action_begun:
  assumes inv: "core_inv cx p g"
  shows "\<exists>g1. begin_action w g k (action_id_of (g_actions g + 1)) = Inr g1 \<and> begun cx p k g g1"
proof -
  let ?l = "g_lifecycle g" and ?a = "action_id_of (g_actions g + 1)"
  from inv have good: "lifecycle_inv ?l" "assert_ready_for_model ?l = Inr ()"
    and turn: "lc_turn ?l = cx_turn cx" and cx: "g_context g = cx"
    and n: "g_actions g = length (lc_outcomes ?l)" and ok: "outcomes_ok cx p (lc_outcomes ?l)"
    by (simp_all add: core_inv_def)
  have fresh: "?a \<notin> ao_id ` set (lc_outcomes ?l)" unfolding n by (rule next_id_fresh [OF ok])
  obtain l2 where l2: "rbind (admit ?a k ?l) (start (fst (wd_clock w g)) ?a) = Inr l2"
    and c: "\<And>t oc. ao_turn oc = lc_turn ?l \<Longrightarrow> ao_id oc = ?a \<Longrightarrow> ao_kind oc = k \<Longrightarrow>
       \<exists>l3. complete t ?a oc l2 = Inr l3 \<and> lifecycle_inv l3 \<and> assert_ready_for_model l3 = Inr ()
          \<and> lc_outcomes l3 = lc_outcomes ?l @ [oc] \<and> lc_turn l3 = lc_turn ?l"
    by (rule lcp.begin_ok [OF good fresh, of k "fst (wd_clock w g)"]) blast
  let ?g1 = "g\<lparr>g_lifecycle := l2\<rparr>"
  have "begin_action w g k ?a = Inr ?g1" unfolding begin_action_def l2 by simp
  moreover have "begun cx p k g ?g1"
    unfolding begun_def
  proof (intro conjI allI)
    fix v :: world and st r
    let ?oc = "outcome_of g k st r"
    have oc: "outcome_of ?g1 k st r = ?oc" "ao_turn ?oc = lc_turn ?l" "ao_id ?oc = ?a"
      "ao_kind ?oc = k"
      by (simp_all add: outcome_of_def cx turn)
    from c [OF oc(2-4), of "snd (wd_clock v ?g1)"] obtain l3 where
      "complete (snd (wd_clock v ?g1)) ?a ?oc l2 = Inr l3" "lifecycle_inv l3"
      "assert_ready_for_model l3 = Inr ()" "lc_outcomes l3 = lc_outcomes ?l @ [?oc]"
      "lc_turn l3 = lc_turn ?l"
      by blast
    then show "\<exists>l. complete_in v ?g1 (outcome_of ?g1 k st r) = Inr (g\<lparr>g_lifecycle := l\<rparr>)
          \<and> lifecycle_inv l \<and> assert_ready_for_model l = Inr () \<and> lc_turn l = cx_turn cx
          \<and> lc_outcomes l = lc_outcomes (g_lifecycle g) @ [?oc]"
      by (intro exI [of _ l3]) (simp add: complete_in_def oc turn)
  qed simp
  ultimately show ?thesis by blast
qed

text \<open>The completion of a begun action, whatever its status and result.\<close>

lemma begun_complete:
  assumes "begun cx p k g g1" "complete_in w g1 (outcome_of g1 k st r) = Inr g2"
  obtains l where "g2 = g\<lparr>g_lifecycle := l\<rparr>" "lifecycle_inv l" "assert_ready_for_model l = Inr ()"
    "lc_turn l = cx_turn cx" "lc_outcomes l = lc_outcomes (g_lifecycle g) @ [outcome_of g k st r]"
  using assms unfolding begun_def by (metis Inr_inject)

lemma count_action_simps [simp]:
  "g_context (count_action k g) = g_context g" "g_policy (count_action k g) = g_policy g"
  "g_lifecycle (count_action k g) = g_lifecycle g" "g_decisions (count_action k g) = g_decisions g"
  "g_observations (count_action k g) = g_observations g" "g_held (count_action k g) = g_held g"
  "g_terminal (count_action k g) = g_terminal g" "g_actions (count_action k g) = g_actions g + 1"
  "g_last (count_action k g) = g_last g" "g_next (count_action k g) = g_next g"
  "g_out_of_scope (count_action k g) = g_out_of_scope g"
  by (simp_all add: count_action_def split: tool_kind.split)

lemma used_of_count_action [simp]:
  "used_of (count_action k g) j = used_of g j + (if j = k then 1 else 0)"
  by (cases k; cases j) (simp_all add: count_action_def)

lemma outcome_of_simps [simp]:
  "ao_turn (outcome_of g k st r) = cx_turn (g_context g)" "ao_kind (outcome_of g k st r) = k"
  "ao_id (outcome_of g k st r) = action_id_of (g_actions g + 1)"
  "ao_status (outcome_of g k st r) = st" "ao_result (outcome_of g k st r) = r"
  by (simp_all add: outcome_of_def)

lemma outcomes_ok_next:
  assumes "core_inv cx p g" "node_inv (Do k) g"
  shows "outcomes_ok cx p (lc_outcomes (g_lifecycle g) @ [outcome_of g k st r])"
  using assms by (intro outcomes_ok_snoc) (auto simp: core_inv_def)

text \<open>An outcome completed and observed, and its action counted, keeps the invariant.\<close>

lemma core_inv_recorded:
  assumes inv: "core_inv cx p g" "node_inv (Do k) g"
    and l: "lifecycle_inv l" "assert_ready_for_model l = Inr ()" "lc_turn l = cx_turn cx"
      "lc_outcomes l = lc_outcomes (g_lifecycle g) @ [outcome_of g k st r]"
    and ob: "set (ob_evidence ob) \<subseteq> set (outcome_evidence (outcome_of g k st r))"
  shows "core_inv cx p (count_action k
    (g\<lparr>g_lifecycle := l, g_observations := g_observations g @ [ob]\<rparr>))"
proof -
  let ?oc = "outcome_of g k st r"
  have "known_ids [ob] \<subseteq> returned_ids [?oc]"
    using ob by (simp add: known_ids_def returned_ids_def)
  moreover have "used_of (g\<lparr>g_lifecycle := l, g_observations := ob'\<rparr>) j = used_of g j" for j ob'
    by (rule used_of_cong) simp_all
  ultimately show ?thesis
    using inv(1) l outcomes_ok_next [OF inv, of st r] by (auto simp: core_inv_def)
qed

lemma core_inv_next [simp]: "core_inv cx p (g\<lparr>g_next := n\<rparr>) = core_inv cx p g"
  and core_inv_explained [simp]: "core_inv cx p (g\<lparr>g_explained := b\<rparr>) = core_inv cx p g"
  and core_inv_scope [simp]: "core_inv cx p (g\<lparr>g_out_of_scope := x\<rparr>) = core_inv cx p g"
  and core_inv_last [simp]: "core_inv cx p (g\<lparr>g_last := la\<rparr>) = core_inv cx p g"
  and core_inv_kind [simp]: "core_inv cx p (g\<lparr>g_text_kind := tk\<rparr>) = core_inv cx p g"
  by (simp_all add: core_inv_def cong: used_of_cong)

lemma observe_evidence: "observe oc origin = Inr ob \<Longrightarrow> ob_evidence ob = outcome_evidence oc"
  by (auto simp: observe_def project_observations_def Let_def project_outcome_facts(1)
      split: option.splits)

text \<open>A begun action whose outcome was completed and observed.\<close>

definition recorded ::
    "coord_context \<Rightarrow> policy \<Rightarrow> gstate \<Rightarrow> action_outcome \<Rightarrow> gstate \<Rightarrow> bool" where
  "recorded cx p g oc g2 \<longleftrightarrow>
     core_inv cx p (count_action (ao_kind oc) g2) \<and> g_decisions g2 = g_decisions g"

lemma begun_observed:
  assumes inv: "core_inv cx p g" "node_inv (Do k) g" and b: "begun cx p k g g1"
    and c: "complete_in w g1 (outcome_of g1 k st r) = Inr g2"
    and ob: "observe (outcome_of g1 k st r) origin = Inr ob"
  shows "recorded cx p g (outcome_of g1 k st r) (g2\<lparr>g_observations := g_observations g1 @ [ob]\<rparr>)"
proof -
  from b have g1: "g1 = g\<lparr>g_lifecycle := g_lifecycle g1\<rparr>" by (simp add: begun_def)
  then have same: "outcome_of g1 k st r = outcome_of g k st r" "g_observations g1 = g_observations g"
    by (metis (no_types, lifting) gstate.select_convs(1,5) gstate.surjective gstate.update_convs(3)
        outcome_of_def, metis gstate.select_convs(13) gstate.surjective gstate.update_convs(3))
  obtain l where g2: "g2 = g\<lparr>g_lifecycle := l\<rparr>" and l: "lifecycle_inv l"
    "assert_ready_for_model l = Inr ()" "lc_turn l = cx_turn cx"
    "lc_outcomes l = lc_outcomes (g_lifecycle g) @ [outcome_of g k st r]"
    by (rule begun_complete [OF b c])
  have "set (ob_evidence ob) \<subseteq> set (outcome_evidence (outcome_of g k st r))"
    using observe_evidence [OF ob] by (simp add: same)
  from core_inv_recorded [OF inv l this] show ?thesis
    by (simp add: recorded_def same g2)
qed

lemma record_outcome_recorded:
  assumes "core_inv cx p g" "node_inv (Do k) g" "begun cx p k g g1"
    and "record_outcome w g1 (outcome_of g1 k st r) origin = Inr g2"
  shows "recorded cx p g (outcome_of g1 k st r) g2"
  using assms(4) begun_observed [OF assms(1-3)] by (fastforce simp: record_outcome_def)

lemma tool_goes_on:
  assumes "core_inv cx p h" "g_decisions h = g_decisions g" "g_next h = NxDecide"
  shows "good_step cx p (Do k) g h"
proof -
  from assms(3) have "edge (Do k) h = Inr (Some Decide)" by (intro edge_decide) simp_all
  with assms show ?thesis by (auto simp: good_step_def graph_inv_def steps_left_def)
qed

lemma failed_step:
  assumes "core_inv cx p g" "node_inv (Do k) g" "begun cx p k g g1"
    and "failed_action w g1 k cls = Inr g'"
  shows "good_step cx p (Do k) g g'"
  using assms(4) record_outcome_recorded [OF assms(1-3)]
  by (fastforce simp: failed_action_def recorded_def intro: tool_goes_on)

text \<open>A turn ended by the outcome of a begun action.\<close>

lemma begun_ended:
  assumes inv: "core_inv cx p g" "node_inv (Do k) g" and b: "begun cx p k g g1"
    and c: "complete_in w g1 (outcome_of g1 k st r) = Inr g2"
  shows "good_step cx p n g (stopped_step reason obs g2)"
    and "good_step cx p n g (g2\<lparr>g_terminal := Some (BqTerminal res (lc_outcomes (g_lifecycle g2))),
           g_next := NxEnd\<rparr>)"
proof -
  obtain l where "g2 = g\<lparr>g_lifecycle := l\<rparr>" and
    "lc_outcomes l = lc_outcomes (g_lifecycle g) @ [outcome_of g k st r]"
    by (rule begun_complete [OF b c])
  with inv(1) outcomes_ok_next [OF inv, of st r]
  show "good_step cx p n g (stopped_step reason obs g2)"
    "good_step cx p n g (g2\<lparr>g_terminal := Some (BqTerminal res (lc_outcomes (g_lifecycle g2))),
           g_next := NxEnd\<rparr>)"
    by (auto intro!: good_step_end simp: end_inv_def terminal_ok_def stopped_step_def core_inv_def)
qed

lemma timed_out_step:
  assumes "core_inv cx p g" "node_inv (Do k) g" "begun cx p k g g1"
    and "timed_out_action w g1 k = Inr g'"
  shows "good_step cx p (Do k) g g'"
  using assms(4) begun_ended(1) [OF assms(1-3)] by (auto simp: timed_out_action_def)

lemma query_committed_step:
  assumes inv: "core_inv cx p g" "node_inv (Do Query_business) g" "begun cx p Query_business g g1"
    and run: "query_committed w g1 q r = Inr g'"
  shows "good_step cx p (Do Query_business) g g'"
proof -
  from run obtain g2 where
    rec: "record_outcome w g1 (outcome_of g1 Query_business Succeeded (RCommitted r))
            (Some (question_origin_of r)) = Inr g2"
    and g': "(\<exists>b. g' = (count_action Query_business g2)
              \<lparr>g_last := Some (AFinish \<lparr>fd_blocks = [b], fd_unanswered = None\<rparr>),
               g_text_kind := Table_fallback, g_next := NxFinish\<rparr>)
       \<or> g' = (count_action Query_business g2)
              \<lparr>g_out_of_scope := str_or (qa_out_of_scope q) (g_out_of_scope g1), g_next := NxDecide\<rparr>"
    by (auto simp: query_committed_def Let_def split: if_splits)
  from record_outcome_recorded [OF inv rec]
  have core: "core_inv cx p (count_action Query_business g2)" "g_decisions g2 = g_decisions g"
    by (simp_all add: recorded_def)
  from g' show ?thesis
  proof
    assume "\<exists>b. g' = (count_action Query_business g2)
              \<lparr>g_last := Some (AFinish \<lparr>fd_blocks = [b], fd_unanswered = None\<rparr>),
               g_text_kind := Table_fallback, g_next := NxFinish\<rparr>"
    with core show ?thesis
      by (auto simp: good_step_def graph_inv_def route_after_action_def steps_left_def)
  qed (use core in \<open>auto intro: tool_goes_on\<close>)
qed

lemma query_plain_step:
  assumes inv: "core_inv cx p g" "node_inv (Do Query_business) g" "begun cx p Query_business g g1"
    and run: "query_plain w g1 r = Inr g'"
  shows "good_step cx p (Do Query_business) g g'"
proof -
  let ?oc = "outcome_of g1 Query_business (plain_status r) (RAsk r)"
  from run obtain g2 where c: "complete_in w g1 ?oc = Inr g2"
    and g': "g' = g2\<lparr>g_terminal := Some (BqTerminal r (lc_outcomes (g_lifecycle g2))), g_next := NxEnd\<rparr>
      \<or> (\<exists>ob. observe ?oc (Some (question_origin_of r)) = Inr ob
          \<and> g' = (count_action Query_business (g2\<lparr>g_observations := g_observations g1 @ [ob]\<rparr>))
                 \<lparr>g_next := NxDecide\<rparr>)"
    by (auto simp: query_plain_def Let_def split: if_splits)
  from g' show ?thesis
  proof
    assume "g' = g2\<lparr>g_terminal := Some (BqTerminal r (lc_outcomes (g_lifecycle g2))), g_next := NxEnd\<rparr>"
    with begun_ended(2) [OF inv c] show ?thesis by simp
  qed (use begun_observed [OF inv c] in \<open>auto simp: recorded_def intro!: tool_goes_on\<close>)
qed

text \<open>Every tool node begins its action; only then may the tool be called.\<close>

lemma begin_cases:
  assumes "core_inv cx p g"
  obtains g1 where "begin_action w g k (action_id_of (g_actions g + 1)) = Inr g1" "begun cx p k g g1"
  using begin_action_begun [OF assms] by blast

lemma query_business_step:
  assumes inv: "core_inv cx p g" "node_inv (Do Query_business) g"
    and run: "query_business_node w g = Inr g'"
  shows "good_step cx p (Do Query_business) g g'"
proof -
  obtain g1 where b: "begin_action w g Query_business (action_id_of (g_actions g + 1)) = Inr g1"
    and begun: "begun cx p Query_business g g1"
    by (rule begin_cases [OF inv(1)])
  note steps = timed_out_step [OF inv begun] failed_step [OF inv begun]
    query_committed_step [OF inv begun] query_plain_step [OF inv begun]
  from run b obtain q question where
    "(case wd_query w g1 question (qa_continues q) of
        Deadline \<Rightarrow> timed_out_action w g1 Query_business
      | Raises cls \<Rightarrow> failed_action w g1 Query_business cls
      | Returned (Committed r) \<Rightarrow> query_committed w g1 q r
      | Returned (Plain r) \<Rightarrow> query_plain w g1 r) = Inr g'"
    by (auto simp: query_business_node_def split: option.splits action.splits)
  then show ?thesis
    by (cases "wd_query w g1 question (qa_continues q)")
      (auto split: bq_return.splits intro: steps)
qed

lemma search_documents_step:
  assumes inv: "core_inv cx p g" "node_inv (Do Search_documents) g"
    and run: "search_documents_node w g = Inr g'"
  shows "good_step cx p (Do Search_documents) g g'"
proof -
  obtain g1 where b: "begin_action w g Search_documents (action_id_of (g_actions g + 1)) = Inr g1"
    and begun: "begun cx p Search_documents g g1"
    by (rule begin_cases [OF inv(1)])
  note steps = timed_out_step [OF inv begun] failed_step [OF inv begun]
  have goes: "good_step cx p (Do Search_documents) g ((count_action Search_documents g2)\<lparr>g_next := NxDecide\<rparr>)"
    if "record_outcome w g1 (search_outcome g1 r) None = Inr g2" for r g2
  proof -
    obtain st res where so: "search_outcome g1 r = outcome_of g1 Search_documents st res"
      by (cases r) (auto simp: search_outcome_def)
    from record_outcome_recorded [OF inv begun that [unfolded so]] show ?thesis
      by (auto simp: recorded_def intro: tool_goes_on)
  qed
  from run b show ?thesis
    by (auto simp: search_documents_node_def split: option.splits action.splits reply.splits
        intro: steps goes)
qed

lemma explain_sources_step:
  assumes inv: "core_inv cx p g" "node_inv (Do Explain_sources) g"
    and run: "explain_sources_node w g = Inr g'"
  shows "good_step cx p (Do Explain_sources) g g'"
proof -
  obtain g1 where b: "begin_action w g Explain_sources (action_id_of (g_actions g + 1)) = Inr g1"
    and begun: "begun cx p Explain_sources g g1"
    by (rule begin_cases [OF inv(1)])
  note steps = timed_out_step [OF inv begun] failed_step [OF inv begun]
    begun_ended(1) [OF inv begun]
  have goes: "good_step cx p (Do Explain_sources) g
      ((count_action Explain_sources g2)\<lparr>g_explained := True, g_next := NxDecide\<rparr>)"
    if "record_outcome w g1 (outcome_of g1 Explain_sources Succeeded r) None = Inr g2" for r g2
    using record_outcome_recorded [OF inv begun that]
    by (auto simp: recorded_def intro!: tool_goes_on)
  from run b show ?thesis
    by (auto simp: explain_sources_node_def split: option.splits action.splits reply.splits
        intro: steps goes)
qed

subsection \<open>The run\<close>

lemma graph_step:
  assumes "graph_inv cx p n g" "run_node w n g = Inr g'"
  shows "good_step cx p n g g'"
proof (cases n)
  case (Do k)
  with assms show ?thesis
    by (cases k) (auto simp: graph_inv_def
        intro: query_business_step search_documents_step explain_sources_step)
qed (use assms in \<open>auto simp: graph_inv_def intro: decide_step finish_step clarify_step\<close>)

lemma steps_left_pos: "graph_inv cx p n g \<Longrightarrow> 0 < steps_left p n g"
  by (cases n) (auto simp: graph_inv_def steps_left_def)

text \<open>A run that returns ends soundly, whatever its fuel.\<close>

lemma run_graph_end:
  "graph_inv cx p n g \<Longrightarrow> run_graph w fuel n g = Inr g' \<Longrightarrow> end_inv cx p g'"
proof (induction w fuel n g rule: run_graph.induct)
  case (1 w n g)
  then show ?case by simp
next
  case (2 w fuel n g)
  from "2.prems"(2) obtain h r where h: "run_node w n g = Inr h" and r: "edge n h = Inr r"
    and go: "(case r of None \<Rightarrow> Inr h | Some n' \<Rightarrow> run_graph w fuel n' h) = Inr g'"
    by auto
  from graph_step [OF "2.prems"(1) h] r go "2.IH" [OF h r] show ?case
    by (auto simp: good_step_def)
qed

text \<open>With a step for each one left, the run is stopped only by an exception of a node.\<close>

lemma run_graph_total:
  assumes ok: "\<And>n g. graph_inv cx p n g \<Longrightarrow> Q n g \<Longrightarrow>
      \<exists>g'. run_node w n g = Inr g' \<and> (\<forall>n'. edge n g' = Inr (Some n') \<longrightarrow> Q n' g')"
  shows "graph_inv cx p n g \<Longrightarrow> Q n g \<Longrightarrow> steps_left p n g \<le> fuel \<Longrightarrow>
     \<exists>g'. run_graph w fuel n g = Inr g' \<and> end_inv cx p g'"
proof (induction fuel arbitrary: n g)
  case 0
  with steps_left_pos show ?case by fastforce
next
  case (Suc fuel)
  from ok [OF Suc.prems(1,2)] obtain h where h: "run_node w n g = Inr h"
    and Q: "\<forall>n'. edge n h = Inr (Some n') \<longrightarrow> Q n' h" by blast
  from graph_step [OF Suc.prems(1) h] show ?case
    unfolding good_step_def
  proof (elim disjE conjE exE)
    assume "edge n h = Inr None" "end_inv cx p h"
    with h show ?thesis by simp
  next
    fix n'
    assume e: "edge n h = Inr (Some n')" and inv: "graph_inv cx p n' h"
      and less: "steps_left p n' h < steps_left p n g"
    from Q e have "Q n' h" by blast
    from Suc.IH [OF inv this] less Suc.prems(3) obtain g' where
      "run_graph w fuel n' h = Inr g'" "end_inv cx p g'" by auto
    with h e show ?thesis by simp
  qed
qed

lemma final_terminal_ok: "end_inv cx p g \<Longrightarrow> terminal_ok cx p (final_terminal g)"
proof -
  assume "end_inv cx p g"
  then obtain t where t: "g_terminal g = Some t" "terminal_ok cx p t"
    and held: "case g_held g of None \<Rightarrow> True | Some fd \<Rightarrow> finished_ok cx p fd"
    by (auto simp: end_inv_def)
  have fin: "terminal_ok cx p (Finished fd)" if "finished_ok cx p fd" for fd
    using that by (simp add: terminal_ok_def finished_ok_def)
  from t held fin show ?thesis
    by (cases t; cases "g_held g") (auto simp: final_terminal_def)
qed

lemma run_turn_terminal_ok:
  assumes "run_coordinator_turn w cx p = Inr t"
  shows "terminal_ok cx p t"
  using assms run_graph_end [OF initial_inv]
  by (auto simp: run_coordinator_turn_def intro: final_terminal_ok)

end
