(* ===== verification/Coord_Total.thy ===== *)
theory Coord_Total
  imports Coord_Safety
begin

text \<open>
  The coordinator's turn returns. The exceptions a node may raise are pydantic's length limits
  (on observations, blocks and questions), the lifecycle's protocol error, an edge that does not
  exist and the graph library's step limit; none of them happens when the model's replies are
  valid actions and the tools keep to four tables per answer and short failure codes.
\<close>

subsection \<open>What is assumed of the model and the tools\<close>

definition ask_ok :: "ask_result \<Rightarrow> bool" where
  "ask_ok r \<longleftrightarrow> length (ask_envelopes r) \<le> 4 \<and> length (ar_answer_text r) \<le> 1000
     \<and> (case ar_stop_reason r of None \<Rightarrow> True | Some s \<Rightarrow> length s \<le> 1000)"

definition world_ok :: "world \<Rightarrow> bool" where
  "world_ok w \<longleftrightarrow>
     (\<forall>g i obs al. case wd_decide w g i obs al of
         DAction a \<Rightarrow> wf_action a
       | DMalformed kind tool \<Rightarrow> length (malformed_text kind tool) \<le> 1900
       | DRaises cls \<Rightarrow> False | _ \<Rightarrow> True)
     \<and> (\<forall>g q c. case wd_query w g q c of
         Returned (Committed r) \<Rightarrow> ask_ok r | Returned (Plain r) \<Rightarrow> ask_ok r
       | Raises cls \<Rightarrow> length cls \<le> 1000 | Deadline \<Rightarrow> True)
     \<and> (\<forall>g q. case wd_search w g q of
         Returned (DocsFailed f) \<Rightarrow> length (df_code f) \<le> 1000
       | Raises cls \<Rightarrow> length cls \<le> 1000 | _ \<Rightarrow> True)
     \<and> (\<forall>g ps. case wd_explain w g ps of Raises cls \<Rightarrow> length cls \<le> 1000 | _ \<Rightarrow> True)"

definition text_ok :: "gstate \<Rightarrow> bool" where
  "text_ok g \<longleftrightarrow>
     (case g_last g of None \<Rightarrow> True | Some a \<Rightarrow> wf_action a)
     \<and> (case g_out_of_scope g of None \<Rightarrow> True | Some p \<Rightarrow> length p \<le> 120)
     \<and> 1 \<le> length (cx_question (g_context g)) \<and> length (cx_question (g_context g)) \<le> 2000"

subsection \<open>The validated texts\<close>

lemma repair_observation_total:
  "length t \<le> 1900 \<Longrightarrow> \<exists>ob. repair_observation tag n t = Inr ob"
  by (simp add: repair_observation_def Let_def checked_def wf_observation_def
      blank_observation_def REPAIR_PREFIX_def)

lemma length_py_rstrip_chars: "length (py_rstrip_chars cs s) \<le> length s"
  unfolding py_rstrip_chars_def using length_dropWhile_le_self [of _ "rev s"] by simp

lemma length_out_of_scope: "length (out_of_scope_sentence part) \<le> length part + 100"
  unfolding out_of_scope_sentence_def
  using length_py_rstrip_chars [of "''.?!''" "py_strip part"] length_py_strip [of part] by simp

lemma with_redirect_total:
  assumes "case part of None \<Rightarrow> True | Some p \<Rightarrow> length p \<le> 120"
  shows "\<exists>d'. with_redirect part d = Inr d'"
proof (cases part)
  case (Some p)
  with assms length_out_of_scope [of p] have "length (out_of_scope_sentence p) \<le> 1600" by simp
  moreover have "1 \<le> length (out_of_scope_sentence p)" by (simp add: out_of_scope_sentence_def)
  ultimately show ?thesis
    by (simp add: with_redirect_def Some checked_block_def wf_block_def)
qed (simp add: with_redirect_def truthy_str_def)

lemma first_repair_total:
  assumes "\<And>r t. r \<in> set rs \<Longrightarrow> dru_check r a f = Some t \<Longrightarrow> length t \<le> 1900"
  shows "\<exists>res. first_repair g a rs f tag held = Inr res"
  using assms
proof (induction g a rs f tag held rule: first_repair.induct)
  case (1 g a f tag held)
  then show ?case by simp
next
  case (2 g a r rs f tag held)
  note prems = "2.prems" and IH = "2.IH"
  show ?case
  proof (cases "dru_check r a f")
    case None
    moreover have "\<exists>res. first_repair g a rs f tag held = Inr res"
      by (rule IH(1) [OF None]) (rule prems, auto)
    ultimately show ?thesis by simp
  next
    case (Some msg)
    have len: "length msg \<le> 1900" by (rule prems [OF _ Some]) simp
    from repair_observation_total [OF this] obtain ob where
      ob: "repair_observation (Some tag) (g_decisions g) msg = Inr ob" by blast
    show ?thesis
    proof (cases "dru_name r \<in> g_repairs g \<and> \<not> dru_stops r")
      case True
      then have "\<exists>res. first_repair g a rs f tag held = Inr res"
        by (intro IH(2) [OF Some]) (auto intro: prems)
      with True Some show ?thesis by simp
    next
      case False
      with Some ob show ?thesis by (cases "dru_name r \<in> g_repairs g") simp_all
    qed
  qed
qed

lemma evidence_check_short: "evidence_check d f = Some t \<Longrightarrow> length t \<le> 1900"
  by (auto simp: evidence_check_def draft_problems_def Let_def cites_an_earlier_answer_text_def
      split: if_splits)

lemma finish_rules_short:
  "r \<in> set FINISH_RULES \<Longrightarrow> dru_check r d f = Some t \<Longrightarrow> length t \<le> 1900"
  by (auto simp: FINISH_RULES_def evidence_rule_def evidence_check_short asks_back_check_def
      restated_document_check_def suggestion_check_def split: if_splits)

lemma clarify_rules_short:
  "r \<in> set CLARIFY_RULES \<Longrightarrow> dru_check r c f = Some t \<Longrightarrow> length t \<le> 1900"
  by (auto simp: CLARIFY_RULES_def choices_check_def unreachable_check_def split: if_splits)

lemma finish_repair_total: "\<exists>res. first_repair g d FINISH_RULES f tag held = Inr res"
  by (rule first_repair_total) (rule finish_rules_short)

lemma clarify_repair_total: "\<exists>res. first_repair g c CLARIFY_RULES f tag held = Inr res"
  by (rule first_repair_total) (rule clarify_rules_short)

lemma length_show_nat: "length (show_nat n) \<le> n + 1"
proof (induction n rule: show_nat.induct)
  case (1 n)
  show ?case
  proof (cases "n < 10")
    case True
    then show ?thesis by (subst show_nat.simps) simp
  next
    case False
    with "1.IH" have "length (show_nat (n div 10)) \<le> n div 10 + 1" by simp
    moreover have "n div 10 + 2 \<le> n + 1" using False by simp
    ultimately show ?thesis using False by (subst show_nat.simps) simp
  qed
qed

lemma length_action_id_of: "length (action_id_of n) \<le> n + 5"
  using length_show_nat [of n] by (simp add: action_id_of_def)

lemma project_outcome_total:
  assumes "length (failure_code oc) \<le> 1000" "length (ao_id oc) \<le> 900"
    and "length (result_envelopes (ao_result oc)) \<le> 4"
  shows "\<exists>ob. project_outcome oc = Inr ob"
proof (cases "ao_status oc = Succeeded")
  case True
  with assms(3) show ?thesis
    using project_query_business_ok_iff project_search_documents_ok project_explain_sources_ok
    by (cases "ao_kind oc") (simp_all add: project_outcome_def project_succeeded_outcome_def)
next
  case False
  have "length (status_name (ao_status oc)) \<le> 9" by (cases "ao_status oc") simp_all
  with False assms(1,2) show ?thesis
    by (simp add: project_outcome_def project_failed_outcome_def checked_def wf_observation_def
        blank_observation_def)
qed

lemma observe_total:
  assumes "length (failure_code oc) \<le> 1000" "length (ao_id oc) \<le> 900"
    and "length (result_envelopes (ao_result oc)) \<le> 4"
  shows "\<exists>ob. observe oc origin = Inr ob"
  using project_outcome_total [OF assms] by (auto simp: observe_def project_observations_def)

subsection \<open>The nodes\<close>

text \<open>A node returns, and the texts it leaves in the state keep their limits.\<close>

definition returns :: "coord_error + gstate \<Rightarrow> bool" where
  "returns r \<longleftrightarrow> (\<exists>g'. r = Inr g' \<and> text_ok g')"

lemma returns_Inr [simp]: "returns (Inr g) \<longleftrightarrow> text_ok g"
  by (simp add: returns_def)

lemma text_ok_stopped [simp]: "text_ok (stopped_step reason obs g) = text_ok g"
  by (simp add: text_ok_def stopped_step_def)

lemma text_ok_updates [simp]:
  "text_ok (g\<lparr>g_lifecycle := l\<rparr>) = text_ok g" "text_ok (g\<lparr>g_observations := obs\<rparr>) = text_ok g"
  "text_ok (g\<lparr>g_next := nx\<rparr>) = text_ok g" "text_ok (g\<lparr>g_terminal := t\<rparr>) = text_ok g"
  "text_ok (g\<lparr>g_explained := b\<rparr>) = text_ok g" "text_ok (g\<lparr>g_text_kind := tk\<rparr>) = text_ok g"
  "text_ok (g\<lparr>g_repairs := rp\<rparr>) = text_ok g" "text_ok (g\<lparr>g_held := h\<rparr>) = text_ok g"
  "text_ok (count_action k g) = text_ok g"
  by (simp_all add: text_ok_def count_action_def split: tool_kind.split)

lemma accept_returns: "text_ok g \<Longrightarrow> wf_action a \<Longrightarrow> text_ok (accept_action w g a)"
  by (simp add: accept_action_def Let_def) (simp add: text_ok_def)

lemma decide_returns:
  assumes w: "world_ok w" and g: "text_ok g"
  shows "returns (decide_node w g)"
proof (cases "pre_decision_stop w g")
  case (Some r)
  with g show ?thesis by (simp add: decide_node_def)
next
  case None
  have settle: "returns (settle_reply w g (wd_decide w g i obs al) again)"
    if "\<And>kind tool. length (malformed_text kind tool) \<le> 1900 \<Longrightarrow> returns (again kind tool)"
    for i obs al again
  proof -
    from w have "case wd_decide w g i obs al of DAction a \<Rightarrow> wf_action a
       | DMalformed kind tool \<Rightarrow> length (malformed_text kind tool) \<le> 1900
       | DRaises cls \<Rightarrow> False | _ \<Rightarrow> True"
      unfolding world_ok_def by blast
    with g that show ?thesis
      by (cases "wd_decide w g i obs al") (simp_all add: accept_returns)
  qed
  show ?thesis
    unfolding decide_node_def None option.case
  proof (rule settle)
    fix kind tool
    assume "length (malformed_text kind tool) \<le> 1900"
    from repair_observation_total [OF this] obtain ob where
      "repair_observation None (g_decisions g) (malformed_text kind tool) = Inr ob" by blast
    with g show "returns (rbind (repair_observation None (g_decisions g) (malformed_text kind tool))
        (\<lambda>ob. settle_reply w g (wd_decide w g 1 (g_observations g @ [ob]) (next_allowed w g))
           (\<lambda>_ _. Inr (stopped_step Malformed_response (g_observations g) g))))"
      by (simp add: settle)
  qed
qed

lemma repaired_text_ok:
  assumes "first_repair g a rs f tag held = Inr res" "text_ok g" "res = Some g'"
  shows "text_ok g'"
proof -
  note S = first_repair_Some [OF assms(1) [unfolded assms(3)]]
  from S show ?thesis
  proof (elim disjE exE conjE)
    fix obs
    assume "g' = stopped_step Malformed_response obs g"
    with assms(2) show ?thesis by simp
  qed (use assms(2) in simp_all)
qed

lemma finish_returns:
  assumes inv: "node_inv Finish g" and g: "text_ok g"
  shows "returns (finish_node w g)"
proof -
  from inv obtain d where d: "g_last g = Some (AFinish d)" by auto
  from g with_redirect_total [of "g_out_of_scope g" d] obtain fd where
    fd: "published_draft g d = Inr fd"
    by (auto simp: text_ok_def published_draft_def)
  obtain res where
    res: "first_repair g d FINISH_RULES (draft_facts_of w g) ''draft'' (Some fd) = Inr res"
    using finish_repair_total by blast
  from repaired_text_ok [OF res g] g show ?thesis
    by (cases res) (simp_all add: finish_node_def d fd res)
qed

lemma clarify_returns:
  assumes inv: "node_inv Clarify g" and g: "text_ok g"
  shows "returns (clarify_node w g)"
proof -
  from inv obtain c where c: "g_last g = Some (AClarify c)" by auto
  obtain res where
    res: "first_repair g c CLARIFY_RULES (draft_facts_of w g) ''clarify'' None = Inr res"
    using clarify_repair_total by blast
  from repaired_text_ok [OF res g] g show ?thesis
    by (cases res) (simp_all add: clarify_node_def c res)
qed

lemma begun_completes:
  assumes "begun cx p k g g1"
  shows "\<exists>l. complete_in w g1 (outcome_of g1 k st r) = Inr (g\<lparr>g_lifecycle := l\<rparr>)
     \<and> lc_outcomes l = lc_outcomes (g_lifecycle g) @ [outcome_of g k st r]"
  using assms unfolding begun_def by blast

lemma begun_fields:
  assumes "begun cx p k g g1"
  shows "g_actions g1 = g_actions g" "text_ok g1 = text_ok g" "g_context g1 = g_context g"
proof -
  from assms have g1: "g1 = g\<lparr>g_lifecycle := g_lifecycle g1\<rparr>" by (simp add: begun_def)
  show "g_actions g1 = g_actions g" "text_ok g1 = text_ok g" "g_context g1 = g_context g"
    by (subst g1; simp)+
qed

text \<open>An outcome whose texts are short is completed and observed.\<close>

definition short_outcome :: "action_outcome \<Rightarrow> bool" where
  "short_outcome oc \<longleftrightarrow> length (failure_code oc) \<le> 1000
     \<and> length (result_envelopes (ao_result oc)) \<le> 4"

lemma begun_observes:
  assumes b: "begun cx p k g g1" and n: "g_actions g \<le> 800"
    and oc: "short_outcome (outcome_of g1 k st r)"
  shows "\<exists>ob. observe (outcome_of g1 k st r) origin = Inr ob"
  by (rule observe_total)
    (use oc n begun_fields(1) [OF b] length_action_id_of [of "g_actions g + 1"]
      in \<open>simp_all add: short_outcome_def\<close>)

lemma record_returns:
  assumes "begun cx p k g g1" "g_actions g \<le> 800" "short_outcome (outcome_of g1 k st r)"
  shows "\<exists>l ob. record_outcome w g1 (outcome_of g1 k st r) origin
     = Inr (g\<lparr>g_lifecycle := l, g_observations := g_observations g1 @ [ob]\<rparr>)
     \<and> observe (outcome_of g1 k st r) origin = Inr ob"
  using begun_completes [OF assms(1), of w st r] begun_observes [OF assms, of origin]
  by (auto simp: record_outcome_def)

lemma timed_out_returns:
  assumes "begun cx p k g g1" "text_ok g"
  shows "returns (timed_out_action w g1 k)"
  using begun_completes [OF assms(1), of w Timed_out RNone] assms(2)
  by (auto simp: timed_out_action_def)

lemma failed_returns:
  assumes "begun cx p k g g1" "g_actions g \<le> 800" "text_ok g" "length cls \<le> 1000"
  shows "returns (failed_action w g1 k cls)"
proof -
  have "short_outcome (outcome_of g1 k Failed (RError cls))"
    using assms(4) by (simp add: short_outcome_def failure_code_def result_envelopes_def)
  from record_returns [OF assms(1,2) this, of w None] assms(3) show ?thesis
    by (auto simp: failed_action_def)
qed

text \<open>Rows in the observation come from a table, so its head is a block's text.\<close>

lemma project_envelopes_Nil_rows: "pj_rows (project_envelopes [] t) = []"
  using project_envelopes_rows [of "[]" t] by simp

lemma query_rows_table:
  assumes "observe oc origin = Inr ob" "ao_kind oc = Query_business" "ao_status oc = Succeeded"
    and "ao_result oc = RCommitted r" "ob_rows ob \<noteq> []"
  shows "ask_envelopes r \<noteq> []"
  using assms project_envelopes_Nil_rows
  by (auto simp: observe_def project_observations_def project_outcome_def
      project_succeeded_outcome_def project_query_business_def Let_def split: option.splits)

lemma table_head_fits: "ask_envelopes r \<noteq> [] \<Longrightarrow> 1 \<le> length (table_head r) \<and> length (table_head r) \<le> 1600"
  using answer_head_fits by (auto simp: table_head_def Suc_le_eq split: list.split)

lemma table_block:
  assumes "ask_envelopes r \<noteq> []"
  shows "checked_block \<lparr>ab_text = table_head r, ab_evidence = [aid], ab_value_refs = [],
      ab_claim = Evidence\<rparr> = Inr \<lparr>ab_text = table_head r, ab_evidence = [aid], ab_value_refs = [],
      ab_claim = Evidence\<rparr>"
    and "wf_action (AFinish \<lparr>fd_blocks = [\<lparr>ab_text = table_head r, ab_evidence = [aid],
      ab_value_refs = [], ab_claim = Evidence\<rparr>], fd_unanswered = None\<rparr>)"
  using table_head_fits [OF assms] by (simp_all add: checked_block_def wf_block_def wf_finish_def)

lemma query_committed_returns:
  assumes b: "begun cx p Query_business g g1" and n: "g_actions g \<le> 800" and g: "text_ok g"
    and r: "ask_ok r" and q: "wf_query q"
  shows "returns (query_committed w g1 q r)"
proof -
  let ?oc = "outcome_of g1 Query_business Succeeded (RCommitted r)"
  have "short_outcome ?oc"
    using r by (simp add: short_outcome_def failure_code_def result_envelopes_def ask_ok_def)
  from record_returns [OF b n this, of w "Some (question_origin_of r)"] obtain l ob where
    rec: "record_outcome w g1 ?oc (Some (question_origin_of r))
      = Inr (g\<lparr>g_lifecycle := l, g_observations := g_observations g1 @ [ob]\<rparr>)"
    and ob: "observe ?oc (Some (question_origin_of r)) = Inr ob" by blast
  let ?g2 = "g\<lparr>g_lifecycle := l, g_observations := g_observations g1 @ [ob]\<rparr>"
  have g2: "text_ok ?g2" using g by simp
  have scope: "text_ok ((count_action Query_business ?g2)
      \<lparr>g_out_of_scope := str_or (qa_out_of_scope q) (g_out_of_scope g1), g_next := nx\<rparr>)" for nx
    using begun_fields [OF b] g q
    by (auto simp: text_ok_def str_or_def wf_query_def count_action_def split: option.splits)
  show ?thesis
  proof (cases "finishes_without_narration (lc_outcomes l) (g_observations g1 @ [ob])
      (cx_question (g_context g1)) (qa_compound q) (qa_out_of_scope q)")
    case True
    then have "ob_rows ob \<noteq> []" by (simp add: finishes_without_narration_def)
    from query_rows_table [OF ob _ _ _ this] have "ask_envelopes r \<noteq> []" by simp
    note blk = table_block [OF this, of "ao_id ?oc"]
    have "text_ok ((count_action Query_business ?g2)\<lparr>g_last := Some (AFinish
       \<lparr>fd_blocks = [\<lparr>ab_text = table_head r, ab_evidence = [ao_id ?oc], ab_value_refs = [],
        ab_claim = Evidence\<rparr>], fd_unanswered = None\<rparr>), g_text_kind := Table_fallback, g_next := NxFinish\<rparr>)"
      using g blk(2) by (simp add: text_ok_def count_action_def)
    with True blk(1) show ?thesis by (simp add: query_committed_def Let_def rec)
  next
    case False
    with scope show ?thesis by (simp add: query_committed_def Let_def rec)
  qed
qed

lemma query_plain_returns:
  assumes b: "begun cx p Query_business g g1" and n: "g_actions g \<le> 800" and g: "text_ok g"
    and r: "ask_ok r"
  shows "returns (query_plain w g1 r)"
proof -
  let ?oc = "outcome_of g1 Query_business (plain_status r) (RAsk r)"
  have "length (status_name (ao_status ?oc)) \<le> 9" by (cases "ao_status ?oc") simp_all
  then have "short_outcome ?oc"
    using r by (auto simp: short_outcome_def failure_code_def result_envelopes_def ask_ok_def
        truthy_str_def split: option.splits)
  from begun_observes [OF b n this] obtain ob where
    "observe ?oc (Some (question_origin_of r)) = Inr ob" by blast
  moreover obtain l where "complete_in w g1 ?oc = Inr (g\<lparr>g_lifecycle := l\<rparr>)"
    using begun_completes [OF b] by blast
  ultimately show ?thesis using g by (simp add: query_plain_def Let_def)
qed

lemma checked_question_total:
  assumes "text_ok g" "wf_query q"
  shows "\<exists>x. checked_question (if c then qa_question q else cx_question (g_context g))
     (qa_question q) b = Inr x"
  using assms by (simp add: checked_question_def text_ok_def wf_query_def)

lemma query_business_returns:
  assumes w: "world_ok w" and inv: "core_inv cx p g" "node_inv (Do Query_business) g"
    and n: "g_actions g \<le> 800" and g: "text_ok g"
  shows "returns (query_business_node w g)"
proof -
  obtain g1 where b: "begin_action w g Query_business (action_id_of (g_actions g + 1)) = Inr g1"
    and begun: "begun cx p Query_business g g1"
    by (rule begin_cases [OF inv(1)])
  from inv(2) obtain a where a: "g_last g = Some a" "kind_of a = Tool Query_business" by auto
  then obtain q where q: "g_last g = Some (AQuery q)" by (cases a) auto
  with g have wq: "wf_query q" by (simp add: text_ok_def)
  from checked_question_total [OF g wq] obtain x where
    x: "checked_question (if documents_answered (g_observations g) then qa_question q
          else cx_question (g_context g)) (qa_question q) (qa_binding q) = Inr x" by blast
  from w have "case wd_query w g1 x (qa_continues q) of
         Returned (Committed r) \<Rightarrow> ask_ok r | Returned (Plain r) \<Rightarrow> ask_ok r
       | Raises cls \<Rightarrow> length cls \<le> 1000 | Deadline \<Rightarrow> True"
    unfolding world_ok_def by blast
  then show ?thesis
    using timed_out_returns [OF begun g] failed_returns [OF begun n g]
      query_committed_returns [OF begun n g _ wq] query_plain_returns [OF begun n g]
    by (cases "wd_query w g1 x (qa_continues q)")
      (simp_all add: query_business_node_def q b [simplified] x split: bq_return.splits)
qed

lemma search_documents_returns:
  assumes w: "world_ok w" and inv: "core_inv cx p g" "node_inv (Do Search_documents) g"
    and n: "g_actions g \<le> 800" and g: "text_ok g"
  shows "returns (search_documents_node w g)"
proof -
  obtain g1 where b: "begin_action w g Search_documents (action_id_of (g_actions g + 1)) = Inr g1"
    and begun: "begun cx p Search_documents g g1"
    by (rule begin_cases [OF inv(1)])
  from inv(2) obtain a where a: "g_last g = Some a" "kind_of a = Tool Search_documents" by auto
  then obtain q where q: "g_last g = Some (ASearch q)" by (cases a) auto
  have call: "case wd_search w g1 q of Returned (DocsFailed f) \<Rightarrow> length (df_code f) \<le> 1000
       | Raises cls \<Rightarrow> length cls \<le> 1000 | _ \<Rightarrow> True"
    using w unfolding world_ok_def by blast
  show ?thesis
  proof (cases "wd_search w g1 q")
    case (Returned r)
    have "\<exists>st res. search_outcome g1 r = outcome_of g1 Search_documents st res
        \<and> short_outcome (outcome_of g1 Search_documents st res)"
    proof (cases r)
      case (Docs d)
      then show ?thesis
        by (intro exI [of _ Succeeded] exI [of _ "RDocs d"])
          (simp add: search_outcome_def short_outcome_def failure_code_def result_envelopes_def)
    next
      case (DocsFailed f)
      with call Returned have "length (df_code f) \<le> 1000" by simp
      with DocsFailed show ?thesis
        by (intro exI [of _ "if df_timeout f then Timed_out else Failed"]
            exI [of _ "RDocFailure f"])
          (simp add: search_outcome_def short_outcome_def failure_code_def result_envelopes_def)
    qed
    then obtain st res where so: "search_outcome g1 r = outcome_of g1 Search_documents st res"
      "short_outcome (outcome_of g1 Search_documents st res)" by blast
    from record_returns [OF begun n so(2), of w None] g Returned so(1) show ?thesis
      by (auto simp: search_documents_node_def q b [simplified])
  qed (use timed_out_returns [OF begun g] failed_returns [OF begun n g] call in
      \<open>simp_all add: search_documents_node_def q b [simplified]\<close>)
qed

lemma explain_sources_returns:
  assumes w: "world_ok w" and inv: "core_inv cx p g" "node_inv (Do Explain_sources) g"
    and n: "g_actions g \<le> 800" and g: "text_ok g"
  shows "returns (explain_sources_node w g)"
proof -
  obtain g1 where b: "begin_action w g Explain_sources (action_id_of (g_actions g + 1)) = Inr g1"
    and begun: "begun cx p Explain_sources g g1"
    by (rule begin_cases [OF inv(1)])
  from inv(2) obtain a where a: "g_last g = Some a" "kind_of a = Tool Explain_sources" by auto
  then obtain q where q: "g_last g = Some (AExplain q)" by (cases a) auto
  have call: "case wd_explain w g1 q of Raises cls \<Rightarrow> length cls \<le> 1000 | _ \<Rightarrow> True"
    using w unfolding world_ok_def by blast
  show ?thesis
  proof (cases "wd_explain w g1 q")
    case (Returned r)
    show ?thesis
    proof (cases r)
      case None
      obtain l where "complete_in w g1 (outcome_of g1 Explain_sources Failed RNone)
          = Inr (g\<lparr>g_lifecycle := l\<rparr>)"
        using begun_completes [OF begun] by blast
      with None Returned g show ?thesis
        by (simp add: explain_sources_node_def q b [simplified])
    next
      case (Some ss)
      have "short_outcome (outcome_of g1 Explain_sources Succeeded (RSources ss))"
        by (simp add: short_outcome_def failure_code_def result_envelopes_def)
      from record_returns [OF begun n this, of w None] Some Returned g show ?thesis
        by (auto simp: explain_sources_node_def q b [simplified])
    qed
  qed (use timed_out_returns [OF begun g] failed_returns [OF begun n g] call in
      \<open>simp_all add: explain_sources_node_def q b [simplified]\<close>)
qed

subsection \<open>The turn\<close>

lemma node_returns:
  assumes w: "world_ok w" and p: "max_actions p \<le> 800"
    and inv: "graph_inv cx p n g" and g: "text_ok g"
  shows "returns (run_node w n g)"
proof -
  from inv have core: "core_inv cx p g" and node: "node_inv n g" by (simp_all add: graph_inv_def)
  from core p have few: "g_actions g \<le> 800" by (simp add: core_inv_def outcomes_ok_def)
  show ?thesis
  proof (cases n)
    case (Do k)
    with query_business_returns [OF w core _ few g] search_documents_returns [OF w core _ few g]
      explain_sources_returns [OF w core _ few g] node
    show ?thesis by (cases k) (simp_all only: run_node.simps)
  next
    case Stop
    with node show ?thesis by simp
  qed (use decide_returns [OF w g] finish_returns [OF _ g] clarify_returns [OF _ g] node in auto)
qed

lemma run_turn_total:
  assumes w: "world_ok w" and p: "max_actions p \<le> 800" "max_decisions p \<le> 8"
    and q: "1 \<le> length (cx_question cx)" "length (cx_question cx) \<le> 2000"
  shows "\<exists>t. run_coordinator_turn w cx p = Inr t"
proof -
  have step: "\<exists>g'. run_node w n g = Inr g' \<and> (\<forall>n'. edge n g' = Inr (Some n') \<longrightarrow> text_ok g')"
    if "graph_inv cx p n g" "text_ok g" for n g
    using node_returns [OF w p(1) that] by (auto simp: returns_def)
  have "text_ok (initial_state cx p)" using q by (simp add: text_ok_def initial_state_def)
  moreover have "steps_left p Decide (initial_state cx p) \<le> RECURSION_LIMIT"
    using p(2) by (simp add: steps_left_def initial_state_def RECURSION_LIMIT_def)
  ultimately obtain g where "run_graph w RECURSION_LIMIT Decide (initial_state cx p) = Inr g"
    using run_graph_total [of cx p "\<lambda>n. text_ok" w, OF step initial_inv] by blast
  then show ?thesis by (simp add: run_coordinator_turn_def)
qed

end
