(* ===== verification/Coord_Properties.thy ===== *)
theory Coord_Properties
  imports Coord_Total
begin

text \<open>
  What a turn of the coordinator promises, over its whole run, with a small turn (one document
  search, then an answer that cites the passage) on which the promises are checked.
\<close>

subsection \<open>A small turn\<close>

definition demo_context :: coord_context where
  "demo_context = \<lparr>cx_turn = ''turn-1'', cx_question = ''how long is the warranty'', cx_history = [],
     cx_candidates = 0, cx_unreachable = []\<rparr>"

definition demo_draft :: finish_draft where
  "demo_draft = \<lparr>fd_blocks = [\<lparr>ab_text = ''Two years.'', ab_evidence = [''p1''],
     ab_value_refs = [], ab_claim = Evidence\<rparr>], fd_unanswered = None\<rparr>"

definition demo_passages :: doc_result where
  "demo_passages = \<lparr>dr_passages = [\<lparr>pg_id = ''p1'', pg_file = ''a.pdf'', pg_content = ''two years''\<rparr>],
     dr_truncated = False, dr_offers = []\<rparr>"

definition demo_world :: world where
  "demo_world = \<lparr>wd_available = {Search_documents, Query_business},
     wd_budget = (\<lambda>g. \<lparr>br_expired = False, br_remaining = Some 30\<rparr>),
     wd_clock = (\<lambda>g. (1, 2)),
     wd_decide = (\<lambda>g i obs al. if g_decisions g = 0 then DAction (ASearch ''warranty'')
                   else DAction (AFinish demo_draft)),
     wd_query = (\<lambda>g q c. Deadline),
     wd_search = (\<lambda>g q. Returned (Docs demo_passages)),
     wd_explain = (\<lambda>g ps. Returned None)\<rparr>"

definition demo_finished :: finished_draft where
  "demo_finished = \<lparr>fin_draft = demo_draft,
    fin_observations = [(blank_observation ''act-1'' (Acted Search_documents) Succeeded)
       \<lparr>ob_evidence := [''p1''], ob_summary := ''[p1] (a.pdf): two years''\<rparr>],
    fin_outcomes = [\<lparr>ao_turn = ''turn-1'', ao_id = ''act-1'', ao_kind = Search_documents,
       ao_status = Succeeded, ao_result = RDocs demo_passages, ao_elapsed = None\<rparr>],
    fin_mode = None, fin_text_kind = Narrative\<rparr>"

lemma demo_run: "run_coordinator_turn demo_world demo_context default_policy = Inr (Finished demo_finished)"
  by code_simp

lemma demo_world_ok: "world_ok demo_world"
  by (simp add: world_ok_def demo_world_def demo_passages_def demo_draft_def wf_finish_def
      wf_block_def)

subsection \<open>The turn\<close>

text \<open>
  C1. A turn always returns a terminal: when the model's replies are valid actions, the tools
  keep to four tables per answer and short failure codes, and the policy allows at most eight
  decisions, no assertion, protocol error, missing edge, length check or graph step limit ends
  it with an exception.
\<close>

theorem turn_returns:
  assumes "world_ok w" "max_actions p \<le> 800" "max_decisions p \<le> 8"
    and "1 \<le> length (cx_question cx)" "length (cx_question cx) \<le> 2000"
  shows "\<exists>t. run_coordinator_turn w cx p = Inr t"
  by (rule run_turn_total [OF assms])

theorem turn_returns_witness: "\<exists>t. run_coordinator_turn demo_world demo_context default_policy = Inr t"
  by (rule turn_returns [OF demo_world_ok]) (simp_all add: default_policy_def demo_context_def)

text \<open>
  C2. Every turn that returns stayed within its policy: the outcomes of its terminal are
  numbered act-1, act-2, ... without gap or repetition, all belong to the turn, are at most
  \<open>max_actions\<close> in number, and no tool was used more often than its own ceiling.
\<close>

theorem turn_within_ceilings:
  assumes "run_coordinator_turn w cx p = Inr t"
  shows "map ao_id (terminal_outcomes t) = map action_id_of [1..<Suc (length (terminal_outcomes t))]
    \<and> list_all (\<lambda>oc. ao_turn oc = cx_turn cx) (terminal_outcomes t)
    \<and> length (terminal_outcomes t) \<le> max_actions p
    \<and> count_kind Query_business (terminal_outcomes t) \<le> max_business_queries p
    \<and> count_kind Search_documents (terminal_outcomes t) \<le> max_document_searches p
    \<and> count_kind Explain_sources (terminal_outcomes t) \<le> max_restores p"
proof -
  from run_turn_terminal_ok [OF assms] have ok: "outcomes_ok cx p (terminal_outcomes t)"
    by (simp add: terminal_ok_def)
  then have "count_kind k (terminal_outcomes t) \<le> cap_of p k" for k by (simp add: outcomes_ok_def)
  from this [of Query_business] this [of Search_documents] this [of Explain_sources] ok
  show ?thesis by (simp add: outcomes_ok_def list_all_iff del: upt_Suc)
qed

theorem turn_within_ceilings_witness:
  "count_kind Search_documents (terminal_outcomes (Finished demo_finished)) \<le> 2"
  using turn_within_ceilings [OF demo_run] by (simp add: default_policy_def)

text \<open>
  C3. An answer cites only what the turn's own actions returned: every evidence id in a
  finished draft, the held one included, is an id that a succeeded outcome of that turn
  returned (the action id of a business query, a passage id of a search, or a restored
  exchange id).
\<close>

theorem finished_cites_returned:
  assumes "run_coordinator_turn w cx p = Inr (Finished fd)"
  shows "cited_ids (fin_draft fd) \<subseteq> returned_ids (fin_outcomes fd)"
  using run_turn_terminal_ok [OF assms] by (simp add: terminal_ok_def finished_ok_def)

theorem finished_cites_returned_witness: "cited_ids demo_draft \<subseteq> {''p1''}"
  using finished_cites_returned [OF demo_run]
  by (simp add: demo_finished_def returned_ids_def outcome_evidence_def demo_passages_def)

text \<open>
  The mode an answer is published with matches what the turn did: \<open>direct\<close> exactly when no
  action ran, \<open>explanation\<close> exactly when actions ran and all of them were restores.
\<close>

theorem finished_mode:
  assumes "run_coordinator_turn w cx p = Inr (Finished fd)"
  shows "(fin_mode fd = Some Direct) = (fin_outcomes fd = [])
    \<and> (fin_mode fd = Some Explanation) =
       (fin_outcomes fd \<noteq> []
        \<and> count_kind Explain_sources (fin_outcomes fd) = length (fin_outcomes fd))"
proof -
  have "count_kind k ocs = length ocs \<longleftrightarrow> list_all (\<lambda>oc. ao_kind oc = k) ocs" for k ocs
  proof (induction ocs)
    case (Cons oc ocs)
    have "length (filter (\<lambda>oc. ao_kind oc = k) ocs) \<le> length ocs" by simp
    then have "length (filter (\<lambda>oc. ao_kind oc = k) ocs) \<noteq> Suc (length ocs)" by linarith
    with Cons show ?case by (simp add: count_kind_def)
  qed simp
  moreover from run_turn_terminal_ok [OF assms] have "fin_mode fd = draft_mode (fin_outcomes fd)"
    by (simp add: terminal_ok_def finished_ok_def)
  ultimately show ?thesis by (simp add: draft_mode_def)
qed

theorem finished_mode_witness:
  "fin_mode demo_finished \<noteq> Some Direct \<and> fin_mode demo_finished \<noteq> Some Explanation"
  using finished_mode [OF demo_run] by (simp add: demo_finished_def count_kind_def)

end
