(* ===== verification/Journal.thy ===== *)
theory Journal
  imports Prelude
begin

text \<open>
  The append-only journal primitive (app/business_query/journaling/append_only.py) and the two
  tables a Postgres sink keeps its events and leases in (query_records/model.py, with
  \<open>insert_conflict_digest\<close> of journaling/journal.py). An instant is an integer (microseconds);
  a digest is a string the caller computes. The text of an event's JSON column is modelled by
  the payload it encodes.
\<close>

subsection \<open>The primitive\<close>

datatype journal_error =
    Stale_lease_epoch
  | Start_digest_mismatch
  | Entry_id_exists
  | Terminal_committed
  | Lease_active
  | Entry_not_found
  | Uncertain_completion
  | Response_digest_mismatch
  | Response_required
  | Response_committed
  | Unique_violation
  | Key_error

record ('s, 't) journal_state =
  js_start :: 's
  js_start_digest :: string
  js_epoch :: int
  js_owner :: string
  js_expires :: int
  js_terminal :: "'t option"
  js_terminal_digest :: "string option"

definition check_lease_epoch ::
    "('s, 't) journal_state \<Rightarrow> int \<Rightarrow> journal_error + unit" where
  "check_lease_epoch st expected =
     (if js_epoch st \<noteq> expected then Inl Stale_lease_epoch else Inr ())"

definition start_entry ::
    "('s, 't) journal_state \<Rightarrow> ('s, 't) journal_state option \<Rightarrow> ('s, 't) journal_state option
      \<Rightarrow> journal_error + ('s, 't) journal_state" where
  "start_entry candidate by_key by_id =
     (case by_key of
        Some existing \<Rightarrow>
          if js_start_digest existing \<noteq> js_start_digest candidate then Inl Start_digest_mismatch
          else Inr existing
      | None \<Rightarrow> if by_id \<noteq> None then Inl Entry_id_exists else Inr candidate)"

definition commit_terminal ::
    "('s, 't) journal_state \<Rightarrow> int \<Rightarrow> 't \<Rightarrow> string \<Rightarrow> journal_error + ('s, 't) journal_state" where
  "commit_terminal st expected terminal digest =
     rbind (check_lease_epoch st expected) (\<lambda>_.
       if js_terminal st \<noteq> None
       then (if js_terminal_digest st \<noteq> Some digest then Inl Terminal_committed else Inr st)
       else Inr (st\<lparr>js_terminal := Some terminal, js_terminal_digest := Some digest\<rparr>))"

definition reclaim_lease ::
    "('s, 't) journal_state \<Rightarrow> int \<Rightarrow> string \<Rightarrow> int \<Rightarrow> journal_error + ('s, 't) journal_state" where
  "reclaim_lease st now owner expires =
     (if js_terminal st \<noteq> None then Inl Terminal_committed
      else if now < js_expires st then Inl Lease_active
      else Inr (st\<lparr>js_epoch := js_epoch st + 1, js_owner := owner, js_expires := expires\<rparr>))"

definition require_entry ::
    "('s, 't) journal_state option \<Rightarrow> journal_error + ('s, 't) journal_state" where
  "require_entry entry = (case entry of None \<Rightarrow> Inl Entry_not_found | Some st \<Rightarrow> Inr st)"

lemma require_entry_Inr [simp]: "require_entry e = Inr st \<longleftrightarrow> e = Some st"
  by (auto simp: require_entry_def split: option.split)

lemma check_lease_epoch_Inr [simp]: "check_lease_epoch st e = Inr u \<longleftrightarrow> js_epoch st = e"
  by (simp add: check_lease_epoch_def)

text \<open>The terminal and its digest come together, and the primitive keeps that.\<close>

definition state_ok :: "('s, 't) journal_state \<Rightarrow> bool" where
  "state_ok st \<longleftrightarrow> (js_terminal st = None) = (js_terminal_digest st = None)"

text \<open>One entry over any sequence of commits and reclaims; a refused call leaves it as it was.\<close>

datatype 't journal_call = Commit int 't string | Reclaim int string int

fun journal_apply ::
    "('s, 't) journal_state \<Rightarrow> 't journal_call \<Rightarrow> journal_error + ('s, 't) journal_state" where
  "journal_apply st (Commit e t d) = commit_terminal st e t d"
| "journal_apply st (Reclaim now owner expires) = reclaim_lease st now owner expires"

definition journal_try ::
    "('s, 't) journal_state \<Rightarrow> 't journal_call \<Rightarrow> ('s, 't) journal_state" where
  "journal_try st c = (case journal_apply st c of Inl _ \<Rightarrow> st | Inr st' \<Rightarrow> st')"

lemma journal_try_terminal:
  assumes "js_terminal st = Some t"
  shows "journal_try st c = st"
  using assms
  by (cases c) (auto simp: journal_try_def commit_terminal_def reclaim_lease_def
      check_lease_epoch_def)

lemma journal_try_start: "js_start (journal_try st c) = js_start st"
  and journal_try_epoch: "js_epoch st \<le> js_epoch (journal_try st c)"
  by (cases c; auto simp: journal_try_def commit_terminal_def reclaim_lease_def
      check_lease_epoch_def)+

lemma journal_terminal_fold:
  "js_terminal st = Some t \<Longrightarrow> foldl journal_try st cs = st"
  by (induction cs) (simp_all add: journal_try_terminal)

lemma journal_epoch_fold: "js_epoch st \<le> js_epoch (foldl journal_try st cs)"
proof (induction cs arbitrary: st)
  case (Cons c cs)
  from journal_try_epoch [of st c] Cons.IH [of "journal_try st c"] show ?case by simp
qed simp

lemma journal_start_fold: "js_start (foldl journal_try st cs) = js_start st"
  by (induction cs arbitrary: st) (simp_all add: journal_try_start)

text \<open>
  C9. A terminal is written once: after a successful commit, no sequence of later commits and
  lease reclaims changes the entry in any way, and replaying the commit itself succeeds and
  writes nothing.
\<close>

theorem terminal_is_final:
  assumes "commit_terminal st e t d = Inr st'" "js_terminal st = None"
  shows "js_terminal st' = Some t \<and> foldl journal_try st' cs = st'
    \<and> commit_terminal st' e t d = Inr st'"
proof -
  from assms have "st' = st\<lparr>js_terminal := Some t, js_terminal_digest := Some d\<rparr>" "js_epoch st = e"
    by (simp_all add: commit_terminal_def)
  moreover from this have "foldl journal_try st' cs = st'" by (intro journal_terminal_fold) simp
  ultimately show ?thesis by (simp add: commit_terminal_def check_lease_epoch_def)
qed

definition demo_entry :: "(nat, nat) journal_state" where
  "demo_entry = \<lparr>js_start = 7, js_start_digest = ''d7'', js_epoch = 1, js_owner = ''w1'',
     js_expires = 100, js_terminal = None, js_terminal_digest = None\<rparr>"

theorem terminal_is_final_witness:
  "foldl journal_try (demo_entry\<lparr>js_terminal := Some 3, js_terminal_digest := Some ''t3''\<rparr>)
     [Commit 1 4 ''t4'', Reclaim 200 ''w2'' 300]
   = demo_entry\<lparr>js_terminal := Some 3, js_terminal_digest := Some ''t3''\<rparr>"
proof -
  have "commit_terminal demo_entry 1 3 ''t3''
      = Inr (demo_entry\<lparr>js_terminal := Some 3, js_terminal_digest := Some ''t3''\<rparr>)"
    by (simp add: commit_terminal_def demo_entry_def check_lease_epoch_def)
  moreover have "js_terminal demo_entry = None" by (simp add: demo_entry_def)
  ultimately show ?thesis by (rule terminal_is_final [THEN conjunct2, THEN conjunct1])
qed

text \<open>
  C23. A worker that lost its lease cannot commit: once another worker has reclaimed the lease,
  a commit that presents any earlier epoch is refused as stale, whatever calls came between.
\<close>

theorem reclaimed_lease_is_stale:
  assumes "reclaim_lease st now owner expires = Inr st'" "e \<le> js_epoch st"
  shows "commit_terminal (foldl journal_try st' cs) e t d = Inl Stale_lease_epoch"
proof -
  from assms(1) have "js_epoch st' = js_epoch st + 1"
    by (auto simp: reclaim_lease_def split: if_splits)
  with assms(2) journal_epoch_fold [of st' cs]
  have "js_epoch (foldl journal_try st' cs) \<noteq> e" by simp
  then show ?thesis by (simp add: commit_terminal_def check_lease_epoch_def)
qed

theorem reclaimed_lease_is_stale_witness:
  "commit_terminal (foldl journal_try (demo_entry\<lparr>js_epoch := 2, js_owner := ''w2'', js_expires := 300\<rparr>)
     [Reclaim 250 ''w3'' 900]) 1 5 ''t5'' = Inl Stale_lease_epoch"
proof -
  have "reclaim_lease demo_entry 150 ''w2'' 300
      = Inr (demo_entry\<lparr>js_epoch := 2, js_owner := ''w2'', js_expires := 300\<rparr>)"
    by (simp add: reclaim_lease_def demo_entry_def)
  moreover have "1 \<le> js_epoch demo_entry" by (simp add: demo_entry_def)
  ultimately show ?thesis by (rule reclaimed_lease_is_stale)
qed

end
