(* ===== verification/Pg_Tables.thy ===== *)
theory Pg_Tables
  imports Journal
begin

text \<open>
  The two tables of a Postgres journal sink (query_records/model.py): an append-only event log
  with its unique constraints, and one lease row per entry. A statement is atomic, and a
  transaction that raises is rolled back, so an operation is a function of the tables that
  returns the new tables or an error. \<open>INSERT ... ON CONFLICT DO NOTHING\<close> skips the row when
  its conflict target is taken and raises when any other unique constraint is violated.
\<close>

datatype event_kind = Started | Response_committed_kind | Terminal_kind

record 'e event_row =
  er_entry :: string
  er_key :: string
  er_project :: string
  er_run :: string
  er_case :: string
  er_index :: nat
  er_call :: nat
  er_kind :: event_kind
  er_digest :: string
  er_event :: 'e
  er_epoch :: int

record lease_row =
  lr_owner :: string
  lr_epoch :: int
  lr_expires :: int

record 'e tables =
  tb_events :: "'e event_row list"
  tb_leases :: "(string, lease_row) dict"

definition empty_tables :: "'e tables" where
  "empty_tables = \<lparr>tb_events = [], tb_leases = []\<rparr>"

definition same_entry :: "'e event_row \<Rightarrow> 'e event_row \<Rightarrow> bool" where
  "same_entry r s \<longleftrightarrow> er_entry r = er_entry s \<and> er_kind r = er_kind s"

definition same_key :: "'e event_row \<Rightarrow> 'e event_row \<Rightarrow> bool" where
  "same_key r s \<longleftrightarrow> er_key r = er_key s \<and> er_kind r = er_kind s"

definition same_identity :: "'e event_row \<Rightarrow> 'e event_row \<Rightarrow> bool" where
  "same_identity r s \<longleftrightarrow> er_project r = er_project s \<and> er_run r = er_run s
     \<and> er_case r = er_case s \<and> er_index r = er_index s \<and> er_kind r = er_kind s"

definition insert_ignore ::
    "('e event_row \<Rightarrow> 'e event_row \<Rightarrow> bool) \<Rightarrow> ('e event_row \<Rightarrow> 'e event_row \<Rightarrow> bool) list
      \<Rightarrow> 'e event_row \<Rightarrow> 'e tables \<Rightarrow> journal_error + 'e tables \<times> bool" where
  "insert_ignore target uniques row tb =
     (if list_ex (target row) (tb_events tb) then Inr (tb, False)
      else if list_ex (\<lambda>r. list_ex (\<lambda>u. u row r) uniques) (tb_events tb) then Inl Unique_violation
      else Inr (tb\<lparr>tb_events := tb_events tb @ [row]\<rparr>, True))"

definition insert_lease_ignore :: "string \<Rightarrow> lease_row \<Rightarrow> 'e tables \<Rightarrow> 'e tables" where
  "insert_lease_ignore entry l tb =
     (if dict_has (tb_leases tb) entry then tb
      else tb\<lparr>tb_leases := dict_set (tb_leases tb) entry l\<rparr>)"

text \<open>\<open>UPDATE ... WHERE entry = e AND lease_epoch = n\<close>.\<close>

definition update_lease :: "string \<Rightarrow> int \<Rightarrow> lease_row \<Rightarrow> 'e tables \<Rightarrow> 'e tables" where
  "update_lease entry epoch l tb =
     (case dict_get (tb_leases tb) entry of
        Some old \<Rightarrow> if lr_epoch old = epoch
                    then tb\<lparr>tb_leases := dict_set (tb_leases tb) entry l\<rparr> else tb
      | None \<Rightarrow> tb)"

definition entry_rows :: "'e tables \<Rightarrow> string \<Rightarrow> 'e event_row list" where
  "entry_rows tb entry = filter (\<lambda>r. er_entry r = entry) (tb_events tb)"

text \<open>\<open>{row.event_kind: row for row in rows}\<close>: a later row of a kind replaces an earlier one.\<close>

definition by_kind :: "'e event_row list \<Rightarrow> event_kind \<Rightarrow> 'e event_row option" where
  "by_kind rows k = List.find (\<lambda>r. er_kind r = k) (rev rows)"

definition started_by_key :: "'e tables \<Rightarrow> string \<Rightarrow> 'e event_row option" where
  "started_by_key tb key =
     List.find (\<lambda>r. er_key r = key \<and> er_kind r = Started) (tb_events tb)"

text \<open>\<open>insert_conflict_digest\<close>: a skipped insert must have met a row with the same digest.\<close>

definition insert_conflict_digest ::
    "('e event_row \<Rightarrow> 'e event_row \<Rightarrow> bool) \<Rightarrow> ('e event_row \<Rightarrow> 'e event_row \<Rightarrow> bool) list
      \<Rightarrow> 'e event_row \<Rightarrow> journal_error \<Rightarrow> 'e tables \<Rightarrow> journal_error + 'e tables" where
  "insert_conflict_digest target uniques row mismatch tb =
     rbind (insert_ignore target uniques row tb) (\<lambda>(tb', inserted).
       if inserted then Inr tb'
       else (case List.find (target row) (tb_events tb') of
               None \<Rightarrow> Inl Key_error
             | Some r \<Rightarrow> if er_digest r \<noteq> er_digest row then Inl mismatch else Inr tb'))"

subsection \<open>Reading a log whose constraints hold\<close>

definition unique_events :: "'e event_row list \<Rightarrow> bool" where
  "unique_events rows \<longleftrightarrow>
     distinct (map (\<lambda>r. (er_entry r, er_kind r)) rows) \<and> distinct (map (\<lambda>r. (er_key r, er_kind r)) rows)"

lemma find_unique_iff:
  assumes "\<And>x y. x \<in> set xs \<Longrightarrow> y \<in> set xs \<Longrightarrow> P x \<Longrightarrow> P y \<Longrightarrow> x = y"
  shows "List.find P xs = Some x \<longleftrightarrow> x \<in> set xs \<and> P x"
proof
  assume "List.find P xs = Some x"
  then show "x \<in> set xs \<and> P x" by (metis find_Some_iff nth_mem)
next
  assume x: "x \<in> set xs \<and> P x"
  then obtain y where y: "List.find P xs = Some y" by (metis find_None_iff not_Some_eq)
  then have "y \<in> set xs \<and> P y" by (metis find_Some_iff nth_mem)
  with x assms y show "List.find P xs = Some x" by metis
qed

lemma distinct_map_eqD:
  "distinct (map f xs) \<Longrightarrow> x \<in> set xs \<Longrightarrow> y \<in> set xs \<Longrightarrow> f x = f y \<Longrightarrow> x = y"
  by (simp add: distinct_map inj_on_def)

lemma by_kind_iff:
  assumes "unique_events (tb_events tb)"
  shows "by_kind (entry_rows tb e) k = Some r \<longleftrightarrow>
     r \<in> set (tb_events tb) \<and> er_entry r = e \<and> er_kind r = k"
proof -
  have "distinct (map (\<lambda>r. (er_entry r, er_kind r)) (tb_events tb))"
    using assms by (simp add: unique_events_def)
  from distinct_map_eqD [OF this] show ?thesis
    unfolding by_kind_def entry_rows_def by (subst find_unique_iff) auto
qed

lemma by_kind_None:
  "by_kind (entry_rows tb e) k = None \<longleftrightarrow>
     \<not> (\<exists>r \<in> set (tb_events tb). er_entry r = e \<and> er_kind r = k)"
  by (auto simp: by_kind_def entry_rows_def find_None_iff)

lemma started_by_key_iff:
  assumes "unique_events (tb_events tb)"
  shows "started_by_key tb key = Some r \<longleftrightarrow>
     r \<in> set (tb_events tb) \<and> er_key r = key \<and> er_kind r = Started"
proof -
  have "distinct (map (\<lambda>r. (er_key r, er_kind r)) (tb_events tb))"
    using assms by (simp add: unique_events_def)
  from distinct_map_eqD [OF this] show ?thesis
    unfolding started_by_key_def by (subst find_unique_iff) auto
qed

lemma started_by_key_None:
  "started_by_key tb key = None \<longleftrightarrow>
     \<not> (\<exists>r \<in> set (tb_events tb). er_key r = key \<and> er_kind r = Started)"
  by (auto simp: started_by_key_def find_None_iff)

lemma unique_events_snoc:
  "unique_events (rows @ [row]) \<longleftrightarrow>
     unique_events rows \<and> \<not> list_ex (same_entry row) rows \<and> \<not> list_ex (same_key row) rows"
  by (auto simp: unique_events_def list_ex_iff same_entry_def same_key_def)

lemma by_kind_snoc:
  "by_kind (entry_rows (tb\<lparr>tb_events := tb_events tb @ [row]\<rparr>) e) k =
     (if er_entry row = e \<and> er_kind row = k then Some row else by_kind (entry_rows tb e) k)"
  by (simp add: by_kind_def entry_rows_def)

lemma find_append_Some: "List.find P xs = Some x \<Longrightarrow> List.find P (xs @ ys) = Some x"
  by (induction xs) (auto split: if_splits)

lemma find_append_None: "List.find P xs = None \<Longrightarrow> List.find P (xs @ ys) = List.find P ys"
  by (induction xs) (auto split: if_splits)

lemma started_by_key_snoc:
  "started_by_key (tb\<lparr>tb_events := tb_events tb @ [row]\<rparr>) key =
     (case started_by_key tb key of Some r \<Rightarrow> Some r
      | None \<Rightarrow> if er_key row = key \<and> er_kind row = Started then Some row else None)"
  by (auto simp: started_by_key_def find_append_Some find_append_None split: option.split)

subsection \<open>Two sinks that agree\<close>

text \<open>Agreement of two calls: both refused, or equal results and states that still agree.\<close>

definition agree ::
    "('m \<Rightarrow> 'p \<Rightarrow> bool) \<Rightarrow> journal_error + 'm \<times> 'r \<Rightarrow> journal_error + 'p \<times> 'r \<Rightarrow> bool" where
  "agree R a b =
     (case (a, b) of
        (Inl _, Inl _) \<Rightarrow> True
      | (Inr (m, x), Inr (p, y)) \<Rightarrow> x = y \<and> R m p
      | _ \<Rightarrow> False)"

lemma agree_Inl [simp]: "agree R (Inl e) (Inl e')"
  and agree_Inr [simp]: "agree R (Inr (m, x)) (Inr (p, y)) = (x = y \<and> R m p)"
  by (simp_all add: agree_def)

lemma agree_cases:
  assumes "agree R a b"
  obtains (refused) e e' where "a = Inl e" "b = Inl e'"
  | (agreed) m p x where "a = Inr (m, x)" "b = Inr (p, x)" "R m p"
proof (cases a; cases b)
  fix x y
  assume "a = Inr x" "b = Inr y"
  with assms agreed show ?thesis by (cases x; cases y) simp
qed (use assms refused in \<open>simp_all add: agree_def split: prod.splits\<close>)

end
