(* ===== verification/Case_Repeats.thy ===== *)
theory Case_Repeats
  imports Pg_Tables
begin

text \<open>
  Evaluation case repeats (app/business_query/case_repeats.py): the in-memory sink, the Postgres
  sink and the lifecycle that drives either. The locale \<open>case_repeat_sink\<close> is the port the
  lifecycle relies on; both sinks are interpretations of it, and the Postgres sink is shown to
  simulate the in-memory one. The digest of a payload is a parameter (SHA-256 of its canonical
  JSON).
\<close>

subsection \<open>Payloads\<close>

datatype case_class =
    Case_answered | Case_clarification | Case_unsupported | Case_denied | Case_incomplete
  | Case_scorer_error | Case_evaluator_error | Case_budget_stop | Case_cancelled
  | Case_unexpected_error | Case_completion_unknown

record case_start =
  cs_id :: string
  cs_key :: string
  cs_project :: string
  cs_run :: string
  cs_case :: string
  cs_index :: nat
  cs_owner :: string
  cs_epoch :: int
  cs_expires :: int
  cs_started :: int

record case_terminal =
  ct_class :: case_class
  ct_code :: string
  ct_attempt :: "string option"
  ct_query :: "string option"
  ct_finished :: int

record case_journal =
  cj_start :: case_start
  cj_start_digest :: string
  cj_terminal :: "case_terminal option"
  cj_terminal_digest :: "string option"

definition case_event_kinds :: "case_journal \<Rightarrow> string list" where
  "case_event_kinds j =
     (if cj_terminal j \<noteq> None then [''started'', ''terminal''] else [''started''])"

type_synonym case_state = "(case_start, case_terminal) journal_state"

subsection \<open>The in-memory sink\<close>

record case_memory =
  cm_repeats :: "(string, case_state) dict"
  cm_keys :: "(string, string) dict"

definition empty_memory :: case_memory where
  "empty_memory = \<lparr>cm_repeats = [], cm_keys = []\<rparr>"

definition case_candidate :: "(case_start \<Rightarrow> string) \<Rightarrow> case_start \<Rightarrow> case_state" where
  "case_candidate sd s =
     \<lparr>js_start = s, js_start_digest = sd s, js_epoch = cs_epoch s, js_owner = cs_owner s,
      js_expires = cs_expires s, js_terminal = None, js_terminal_digest = None\<rparr>"

text \<open>\<open>self._repeats.get(prior_id) if prior_id else None\<close>.\<close>

definition prior_entry :: "(string, 'a) dict \<Rightarrow> string option \<Rightarrow> 'a option" where
  "prior_entry entries prior =
     (case prior of Some i \<Rightarrow> if i \<noteq> [] then dict_get entries i else None | None \<Rightarrow> None)"

definition mem_start ::
    "(case_start \<Rightarrow> string) \<Rightarrow> case_start \<Rightarrow> case_memory
      \<Rightarrow> journal_error + case_memory \<times> string" where
  "mem_start sd s m =
     (let prior = dict_get (cm_keys m) (cs_key s) in
      rbind (start_entry (case_candidate sd s) (prior_entry (cm_repeats m) prior)
               (dict_get (cm_repeats m) (cs_id s))) (\<lambda>_.
        Inr (case prior of
               Some i \<Rightarrow> (m, i)
             | None \<Rightarrow>
                 (m\<lparr>cm_repeats := dict_set (cm_repeats m) (cs_id s) (case_candidate sd s),
                    cm_keys := dict_set (cm_keys m) (cs_key s) (cs_id s)\<rparr>, cs_id s))))"

definition mem_finish ::
    "(case_terminal \<Rightarrow> string) \<Rightarrow> string \<Rightarrow> int \<Rightarrow> case_terminal \<Rightarrow> case_memory
      \<Rightarrow> journal_error + case_memory" where
  "mem_finish td i expected t m =
     rbind (require_entry (dict_get (cm_repeats m) i)) (\<lambda>st.
     rbind (commit_terminal st expected t (td t)) (\<lambda>st'.
       Inr (m\<lparr>cm_repeats := dict_set (cm_repeats m) i st'\<rparr>)))"

definition mem_claim ::
    "string \<Rightarrow> string \<Rightarrow> int \<Rightarrow> int \<Rightarrow> case_memory \<Rightarrow> journal_error + case_memory \<times> int" where
  "mem_claim i owner now expires m =
     rbind (require_entry (dict_get (cm_repeats m) i)) (\<lambda>st.
     rbind (reclaim_lease st now owner expires) (\<lambda>st'.
       Inr (m\<lparr>cm_repeats := dict_set (cm_repeats m) i st'\<rparr>, js_epoch st')))"

definition journal_of :: "case_state \<Rightarrow> case_journal" where
  "journal_of st =
     \<lparr>cj_start = js_start st, cj_start_digest = js_start_digest st, cj_terminal = js_terminal st,
      cj_terminal_digest = js_terminal_digest st\<rparr>"

definition mem_get :: "string \<Rightarrow> case_memory \<Rightarrow> journal_error + case_journal" where
  "mem_get i m = rbind (require_entry (dict_get (cm_repeats m) i)) (\<lambda>st. Inr (journal_of st))"

subsection \<open>The Postgres sink\<close>

datatype case_event = CStart case_start | CTerminal case_terminal

type_synonym case_tables = "case_event tables"

definition start_row :: "(case_start \<Rightarrow> string) \<Rightarrow> case_start \<Rightarrow> case_event event_row" where
  "start_row sd s =
     \<lparr>er_entry = cs_id s, er_key = cs_key s, er_project = cs_project s, er_run = cs_run s,
      er_case = cs_case s, er_index = cs_index s, er_call = 0, er_kind = Started,
      er_digest = sd s, er_event = CStart s, er_epoch = cs_epoch s\<rparr>"

definition pg_start ::
    "(case_start \<Rightarrow> string) \<Rightarrow> case_start \<Rightarrow> case_tables
      \<Rightarrow> journal_error + case_tables \<times> string" where
  "pg_start sd s tb =
     rbind (insert_ignore same_key [same_entry, same_identity] (start_row sd s) tb) (\<lambda>(tb1, _).
       case started_by_key tb1 (cs_key s) of
         None \<Rightarrow> Inl Start_digest_mismatch
       | Some r \<Rightarrow>
           if er_digest r \<noteq> sd s then Inl Start_digest_mismatch
           else Inr (insert_lease_ignore (er_entry r)
                       \<lparr>lr_owner = cs_owner s, lr_epoch = cs_epoch s, lr_expires = cs_expires s\<rparr>
                       tb1, er_entry r))"

fun start_payload :: "case_event \<Rightarrow> journal_error + case_start" where
  "start_payload (CStart s) = Inr s"
| "start_payload (CTerminal _) = Inl Key_error"

fun terminal_payload :: "case_event \<Rightarrow> journal_error + case_terminal" where
  "terminal_payload (CTerminal t) = Inr t"
| "terminal_payload (CStart _) = Inl Key_error"

definition pg_get :: "string \<Rightarrow> case_tables \<Rightarrow> journal_error + case_journal" where
  "pg_get i tb =
     (let rows = entry_rows tb i in
      if rows = [] then Inl Entry_not_found
      else (case by_kind rows Started of
              None \<Rightarrow> Inl Key_error
            | Some r \<Rightarrow>
                rbind (start_payload (er_event r)) (\<lambda>s.
                case by_kind rows Terminal_kind of
                  None \<Rightarrow> Inr \<lparr>cj_start = s, cj_start_digest = er_digest r, cj_terminal = None,
                               cj_terminal_digest = None\<rparr>
                | Some r' \<Rightarrow>
                    rbind (terminal_payload (er_event r')) (\<lambda>t.
                      Inr \<lparr>cj_start = s, cj_start_digest = er_digest r, cj_terminal = Some t,
                           cj_terminal_digest = Some (er_digest r')\<rparr>))))"

definition terminal_row ::
    "(case_terminal \<Rightarrow> string) \<Rightarrow> string \<Rightarrow> int \<Rightarrow> case_start \<Rightarrow> case_terminal
      \<Rightarrow> case_event event_row" where
  "terminal_row td i expected s t =
     \<lparr>er_entry = i, er_key = cs_key s, er_project = cs_project s, er_run = cs_run s,
      er_case = cs_case s, er_index = cs_index s, er_call = 0, er_kind = Terminal_kind,
      er_digest = td t, er_event = CTerminal t, er_epoch = expected\<rparr>"

definition pg_finish ::
    "(case_terminal \<Rightarrow> string) \<Rightarrow> string \<Rightarrow> int \<Rightarrow> case_terminal \<Rightarrow> case_tables
      \<Rightarrow> journal_error + case_tables" where
  "pg_finish td i expected t tb =
     (case dict_get (tb_leases tb) i of
        None \<Rightarrow> Inl Stale_lease_epoch
      | Some l \<Rightarrow>
          if lr_epoch l \<noteq> expected then Inl Stale_lease_epoch
          else rbind (pg_get i tb) (\<lambda>j.
            insert_conflict_digest same_entry [same_key, same_identity]
              (terminal_row td i expected (cj_start j) t) Terminal_committed tb))"

definition pg_claim ::
    "string \<Rightarrow> string \<Rightarrow> int \<Rightarrow> int \<Rightarrow> case_tables \<Rightarrow> journal_error + case_tables \<times> int" where
  "pg_claim i owner now expires tb =
     (case dict_get (tb_leases tb) i of
        None \<Rightarrow> Inl Entry_not_found
      | Some l \<Rightarrow>
          rbind (pg_get i tb) (\<lambda>j.
            if cj_terminal j \<noteq> None then Inl Terminal_committed
            else if now < lr_expires l then Inl Lease_active
            else Inr (update_lease i (lr_epoch l)
                        \<lparr>lr_owner = owner, lr_epoch = lr_epoch l + 1, lr_expires = expires\<rparr> tb,
                      lr_epoch l + 1)))"

subsection \<open>What the tables hold\<close>

text \<open>
  The key the lifecycle gives a repeat names its identity, so the identity constraint never
  fires before the key constraint.
\<close>

definition case_key :: "string \<Rightarrow> string \<Rightarrow> nat \<Rightarrow> string" where
  "case_key run cas idx = run @ '':'' @ cas @ '':'' @ show_nat idx"

definition start_ok :: "case_start \<Rightarrow> bool" where
  "start_ok s \<longleftrightarrow> cs_id s \<noteq> [] \<and> cs_key s = case_key (cs_run s) (cs_case s) (cs_index s)"

definition case_tables_ok ::
    "(case_start \<Rightarrow> string) \<Rightarrow> (case_terminal \<Rightarrow> string) \<Rightarrow> case_tables \<Rightarrow> bool" where
  "case_tables_ok sd td tb \<longleftrightarrow>
     unique_events (tb_events tb)
     \<and> (\<forall>r \<in> set (tb_events tb).
          (\<exists>s. start_ok s \<and> r = start_row sd s)
          \<or> (\<exists>s e t. start_row sd s \<in> set (tb_events tb) \<and> r = terminal_row td (cs_id s) e s t))
     \<and> (\<forall>i. dict_has (tb_leases tb) i \<longleftrightarrow>
          (\<exists>s. start_row sd s \<in> set (tb_events tb) \<and> cs_id s = i))"

lemma empty_tables_ok: "case_tables_ok sd td empty_tables"
  by (simp add: case_tables_ok_def empty_tables_def unique_events_def)

lemma row_fields [simp]:
  "er_entry (start_row sd s) = cs_id s" "er_key (start_row sd s) = cs_key s"
  "er_kind (start_row sd s) = Started" "er_digest (start_row sd s) = sd s"
  "er_event (start_row sd s) = CStart s"
  "er_entry (terminal_row td i e s t) = i" "er_key (terminal_row td i e s t) = cs_key s"
  "er_kind (terminal_row td i e s t) = Terminal_kind" "er_digest (terminal_row td i e s t) = td t"
  "er_event (terminal_row td i e s t) = CTerminal t"
  by (simp_all add: start_row_def terminal_row_def)

lemma start_row_neq_terminal_row [simp]: "start_row sd s \<noteq> terminal_row td i e s' t"
  "terminal_row td i e s' t \<noteq> start_row sd s"
  by (metis event_kind.distinct(3) row_fields(3,8))+

lemma start_row_inj [simp]: "start_row sd s = start_row sd s' \<longleftrightarrow> s = s'"
  by (metis case_event.inject(1) row_fields(5))

lemma started_row_is:
  assumes "case_tables_ok sd td tb" "r \<in> set (tb_events tb)" "er_kind r = Started"
  obtains s where "r = start_row sd s" "start_ok s"
  using assms by (auto simp: case_tables_ok_def)

lemma terminal_row_is:
  assumes "case_tables_ok sd td tb" "r \<in> set (tb_events tb)" "er_kind r = Terminal_kind"
  obtains s e t where "r = terminal_row td (cs_id s) e s t" "start_row sd s \<in> set (tb_events tb)"
  using assms by (auto simp: case_tables_ok_def)

lemma start_row_unique:
  assumes "case_tables_ok sd td tb" "start_row sd s \<in> set (tb_events tb)"
    "start_row sd s' \<in> set (tb_events tb)" "cs_id s = cs_id s' \<or> cs_key s = cs_key s'"
  shows "s = s'"
proof -
  from assms(1) have "distinct (map (\<lambda>r. (er_entry r, er_kind r)) (tb_events tb))"
    "distinct (map (\<lambda>r. (er_key r, er_kind r)) (tb_events tb))"
    by (simp_all add: case_tables_ok_def unique_events_def)
  from distinct_map_eqD [OF this(1) assms(2,3)] distinct_map_eqD [OF this(2) assms(2,3)] assms(4)
  show ?thesis by auto
qed

lemma row_has_start:
  assumes "case_tables_ok sd td tb" "r \<in> set (tb_events tb)"
  obtains s where "start_row sd s \<in> set (tb_events tb)" "cs_id s = er_entry r" "start_ok s"
    "cs_key s = er_key r"
proof -
  from assms have "(\<exists>s. start_ok s \<and> r = start_row sd s)
      \<or> (\<exists>s e t. start_row sd s \<in> set (tb_events tb) \<and> r = terminal_row td (cs_id s) e s t)"
    by (simp add: case_tables_ok_def)
  then show ?thesis
  proof (elim disjE exE conjE)
    fix s assume "start_ok s" "r = start_row sd s"
    with assms(2) that show ?thesis by simp
  next
    fix s e t assume s: "start_row sd s \<in> set (tb_events tb)" "r = terminal_row td (cs_id s) e s t"
    obtain s' where "start_row sd s = start_row sd s'" "start_ok s'"
      by (rule started_row_is [OF assms(1) s(1)]) simp
    with s that show ?thesis by simp
  qed
qed

text \<open>The terminal the log holds for an entry, with its digest.\<close>

definition logged_terminal :: "case_tables \<Rightarrow> string \<Rightarrow> case_terminal option \<times> string option" where
  "logged_terminal tb i =
     (case by_kind (entry_rows tb i) Terminal_kind of
        Some r \<Rightarrow> (case er_event r of CTerminal t \<Rightarrow> (Some t, Some (er_digest r))
                   | CStart _ \<Rightarrow> (None, None))
      | None \<Rightarrow> (None, None))"

lemma pg_get_started:
  assumes ok: "case_tables_ok sd td tb" and s: "start_row sd s \<in> set (tb_events tb)"
  shows "pg_get (cs_id s) tb = Inr \<lparr>cj_start = s, cj_start_digest = sd s,
     cj_terminal = fst (logged_terminal tb (cs_id s)),
     cj_terminal_digest = snd (logged_terminal tb (cs_id s))\<rparr>"
proof -
  from ok have u: "unique_events (tb_events tb)" by (simp add: case_tables_ok_def)
  from s have b: "by_kind (entry_rows tb (cs_id s)) Started = Some (start_row sd s)"
    by (subst by_kind_iff [OF u]) simp
  then have "entry_rows tb (cs_id s) \<noteq> []" by (auto simp: by_kind_def)
  moreover have "\<exists>t. er_event r = CTerminal t"
    if "by_kind (entry_rows tb (cs_id s)) Terminal_kind = Some r" for r
    using that [unfolded by_kind_iff [OF u]] terminal_row_is [OF ok, of r] by (metis row_fields(10))
  ultimately show ?thesis
    using b by (fastforce simp: pg_get_def Let_def logged_terminal_def split: option.split)
qed

lemma pg_get_missing:
  assumes ok: "case_tables_ok sd td tb" and i: "\<not> dict_has (tb_leases tb) i"
  shows "pg_get i tb = Inl Entry_not_found"
proof -
  have "er_entry r \<noteq> i" if r: "r \<in> set (tb_events tb)" for r
  proof -
    obtain s where "start_row sd s \<in> set (tb_events tb)" "cs_id s = er_entry r"
      by (rule row_has_start [OF ok r])
    with ok i show ?thesis by (auto simp: case_tables_ok_def)
  qed
  then have "entry_rows tb i = []" by (auto simp: entry_rows_def filter_empty_conv)
  then show ?thesis by (simp add: pg_get_def)
qed

lemma leased_start:
  assumes "case_tables_ok sd td tb" "dict_has (tb_leases tb) i"
  obtains s where "start_row sd s \<in> set (tb_events tb)" "cs_id s = i"
  using assms by (auto simp: case_tables_ok_def)

subsection \<open>The Postgres sink simulates the in-memory one\<close>

definition leased_state :: "case_journal \<Rightarrow> lease_row \<Rightarrow> case_state" where
  "leased_state j l =
     \<lparr>js_start = cj_start j, js_start_digest = cj_start_digest j, js_epoch = lr_epoch l,
      js_owner = lr_owner l, js_expires = lr_expires l, js_terminal = cj_terminal j,
      js_terminal_digest = cj_terminal_digest j\<rparr>"

text \<open>The state of an entry the tables stand for.\<close>

definition pg_state :: "case_tables \<Rightarrow> string \<Rightarrow> case_state option" where
  "pg_state tb i =
     (case pg_get i tb of
        Inl _ \<Rightarrow> None
      | Inr j \<Rightarrow> map_option (leased_state j) (dict_get (tb_leases tb) i))"

definition case_simulates ::
    "(case_start \<Rightarrow> string) \<Rightarrow> (case_terminal \<Rightarrow> string) \<Rightarrow> case_memory \<Rightarrow> case_tables \<Rightarrow> bool" where
  "case_simulates sd td m tb \<longleftrightarrow>
     case_tables_ok sd td tb
     \<and> (\<forall>i. dict_get (cm_repeats m) i = pg_state tb i)
     \<and> (\<forall>key. dict_get (cm_keys m) key = map_option er_entry (started_by_key tb key))"

lemma pg_state_started:
  assumes "case_tables_ok sd td tb" "start_row sd s \<in> set (tb_events tb)"
  obtains l where "dict_get (tb_leases tb) (cs_id s) = Some l"
    "pg_state tb (cs_id s) = Some \<lparr>js_start = s, js_start_digest = sd s, js_epoch = lr_epoch l,
      js_owner = lr_owner l, js_expires = lr_expires l,
      js_terminal = fst (logged_terminal tb (cs_id s)),
      js_terminal_digest = snd (logged_terminal tb (cs_id s))\<rparr>"
proof -
  from assms have "dict_has (tb_leases tb) (cs_id s)" by (auto simp: case_tables_ok_def)
  then obtain l where "dict_get (tb_leases tb) (cs_id s) = Some l" by (auto simp: dict_has_iff)
  with that pg_get_started [OF assms] show ?thesis by (simp add: pg_state_def leased_state_def)
qed

lemma pg_state_None_iff:
  assumes "case_tables_ok sd td tb"
  shows "pg_state tb i = None \<longleftrightarrow> \<not> (\<exists>s. start_row sd s \<in> set (tb_events tb) \<and> cs_id s = i)"
proof (cases "dict_has (tb_leases tb) i")
  case True
  then obtain s where s: "start_row sd s \<in> set (tb_events tb)" "cs_id s = i"
    by (rule leased_start [OF assms])
  obtain st where "pg_state tb (cs_id s) = Some st" by (rule pg_state_started [OF assms s(1)])
  with s show ?thesis by auto
next
  case False
  with pg_get_missing [OF assms this] assms show ?thesis
    by (auto simp: pg_state_def case_tables_ok_def)
qed

text \<open>A started row is added with its lease, for a key and an id that are both new.\<close>

definition with_start ::
    "(case_start \<Rightarrow> string) \<Rightarrow> case_start \<Rightarrow> case_tables \<Rightarrow> case_tables" where
  "with_start sd s tb =
     \<lparr>tb_events = tb_events tb @ [start_row sd s],
      tb_leases = dict_set (tb_leases tb) (cs_id s)
        \<lparr>lr_owner = cs_owner s, lr_epoch = cs_epoch s, lr_expires = cs_expires s\<rparr>\<rparr>"

lemma started_by_key_is:
  assumes "case_tables_ok sd td tb"
  shows "started_by_key tb key = Some r \<longleftrightarrow>
     (\<exists>s. r = start_row sd s \<and> r \<in> set (tb_events tb) \<and> cs_key s = key)"
proof -
  from assms have u: "unique_events (tb_events tb)" by (simp add: case_tables_ok_def)
  show ?thesis
    unfolding started_by_key_iff [OF u] using started_row_is [OF assms, of r]
    by (metis row_fields(2,3))
qed

lemma target_taken:
  assumes "case_tables_ok sd td tb"
  shows "list_ex (same_key (start_row sd s)) (tb_events tb) = (started_by_key tb (cs_key s) \<noteq> None)"
    and "list_ex (same_entry (start_row sd s)) (tb_events tb) = (pg_state tb (cs_id s) \<noteq> None)"
proof -
  show "list_ex (same_key (start_row sd s)) (tb_events tb) = (started_by_key tb (cs_key s) \<noteq> None)"
    by (force simp: list_ex_iff same_key_def started_by_key_None)
  have "list_ex (same_entry (start_row sd s)) (tb_events tb)
      = (\<exists>s'. start_row sd s' \<in> set (tb_events tb) \<and> cs_id s' = cs_id s)"
  proof
    assume "list_ex (same_entry (start_row sd s)) (tb_events tb)"
    then obtain r where r: "r \<in> set (tb_events tb)" "er_kind r = Started" "er_entry r = cs_id s"
      by (auto simp: list_ex_iff same_entry_def)
    obtain s' where "r = start_row sd s'" by (rule started_row_is [OF assms r(1,2)])
    with r show "\<exists>s'. start_row sd s' \<in> set (tb_events tb) \<and> cs_id s' = cs_id s" by auto
  qed (force simp: list_ex_iff same_entry_def)
  with pg_state_None_iff [OF assms, of "cs_id s"]
  show "list_ex (same_entry (start_row sd s)) (tb_events tb) = (pg_state tb (cs_id s) \<noteq> None)"
    by simp
qed

lemma same_identity_key:
  assumes "case_tables_ok sd td tb" "start_ok s" "r \<in> set (tb_events tb)"
    "same_identity (start_row sd s) r"
  shows "same_key (start_row sd s) r"
proof -
  from assms(4) have "er_kind r = Started" by (simp add: same_identity_def)
  then obtain s' where "r = start_row sd s'" "start_ok s'"
    by (rule started_row_is [OF assms(1,3)])
  with assms(2,4) show ?thesis
    by (simp add: same_identity_def same_key_def start_ok_def) (simp add: start_row_def)
qed

lemma pg_start_new:
  assumes ok: "case_tables_ok sd td tb" and s: "start_ok s"
    and key: "started_by_key tb (cs_key s) = None"
  shows "pg_start sd s tb = (if pg_state tb (cs_id s) \<noteq> None then Inl Unique_violation
     else Inr (with_start sd s tb, cs_id s))"
proof -
  have nokey: "\<not> list_ex (same_key (start_row sd s)) (tb_events tb)"
    using target_taken(1) [OF ok, of s] key by simp
  with same_identity_key [OF ok s] have noid: "\<not> list_ex (same_identity (start_row sd s)) (tb_events tb)"
    by (auto simp: list_ex_iff)
  then have clash: "list_ex (\<lambda>r. list_ex (\<lambda>u. u (start_row sd s) r) [same_entry, same_identity])
      (tb_events tb) = (pg_state tb (cs_id s) \<noteq> None)"
    unfolding target_taken(2) [OF ok, symmetric] by (auto simp: list_ex_iff)
  have nolease: "pg_state tb (cs_id s) = None \<Longrightarrow> \<not> dict_has (tb_leases tb) (cs_id s)"
    using pg_state_None_iff [OF ok, of "cs_id s"] ok by (auto simp: case_tables_ok_def)
  show ?thesis
    unfolding pg_start_def insert_ignore_def clash
    using nokey key nolease by (simp add: started_by_key_snoc insert_lease_ignore_def with_start_def)
qed

lemma pg_start_replay:
  assumes ok: "case_tables_ok sd td tb" and r: "started_by_key tb (cs_key s) = Some (start_row sd s')"
  shows "pg_start sd s tb = (if sd s' \<noteq> sd s then Inl Start_digest_mismatch else Inr (tb, cs_id s'))"
proof -
  from r have s': "start_row sd s' \<in> set (tb_events tb)"
    by (auto simp: started_by_key_is [OF ok])
  then have "dict_has (tb_leases tb) (cs_id s')" using ok by (auto simp: case_tables_ok_def)
  with r target_taken(1) [OF ok, of s] show ?thesis
    by (simp add: pg_start_def insert_ignore_def insert_lease_ignore_def)
qed

lemma with_start_ok:
  assumes ok: "case_tables_ok sd td tb" and s: "start_ok s"
    and key: "started_by_key tb (cs_key s) = None" and new: "pg_state tb (cs_id s) = None"
  shows "case_tables_ok sd td (with_start sd s tb)"
proof -
  have "\<not> list_ex (same_key (start_row sd s)) (tb_events tb)"
    "\<not> list_ex (same_entry (start_row sd s)) (tb_events tb)"
    using target_taken [OF ok, of s] key new by simp_all
  with ok s show ?thesis
    by (simp add: case_tables_ok_def with_start_def unique_events_snoc) blast
qed

lemma entry_rows_snoc:
  "entry_rows (tb\<lparr>tb_events := tb_events tb @ [row]\<rparr>) i =
     entry_rows tb i @ (if er_entry row = i then [row] else [])"
  by (simp add: entry_rows_def)

lemma with_start_simulates:
  assumes sim: "case_simulates sd td m tb" and s: "start_ok s"
    and key: "started_by_key tb (cs_key s) = None" and new: "pg_state tb (cs_id s) = None"
  shows "case_simulates sd td
    (m\<lparr>cm_repeats := dict_set (cm_repeats m) (cs_id s) (case_candidate sd s),
       cm_keys := dict_set (cm_keys m) (cs_key s) (cs_id s)\<rparr>) (with_start sd s tb)"
proof -
  let ?tb = "with_start sd s tb"
  from sim have ok: "case_tables_ok sd td tb" by (simp add: case_simulates_def)
  note ok' = with_start_ok [OF ok s key new]
  have rows: "entry_rows ?tb i = entry_rows tb i @ (if cs_id s = i then [start_row sd s] else [])" for i
    by (simp add: with_start_def entry_rows_def)
  have none: "entry_rows tb (cs_id s) = []"
  proof -
    have "er_entry r \<noteq> cs_id s" if r: "r \<in> set (tb_events tb)" for r
    proof -
      obtain s' where "start_row sd s' \<in> set (tb_events tb)" "cs_id s' = er_entry r"
        by (rule row_has_start [OF ok r])
      with new pg_state_None_iff [OF ok, of "cs_id s"] show ?thesis by metis
    qed
    then show ?thesis by (auto simp: entry_rows_def filter_empty_conv)
  qed
  have "pg_state ?tb i = (if i = cs_id s then Some (case_candidate sd s) else pg_state tb i)" for i
  proof (cases "i = cs_id s")
    case True
    with rows [of i] none have "pg_get i ?tb = Inr \<lparr>cj_start = s, cj_start_digest = sd s,
        cj_terminal = None, cj_terminal_digest = None\<rparr>"
      by (simp add: pg_get_def Let_def by_kind_def)
    with True show ?thesis
      by (simp add: pg_state_def with_start_def leased_state_def case_candidate_def update_conv')
  next
    case False
    then have "pg_get i ?tb = pg_get i tb" by (simp add: pg_get_def rows)
    with False show ?thesis
      by (cases "pg_get i tb") (simp_all add: pg_state_def with_start_def update_conv')
  qed
  moreover have "started_by_key ?tb k = (if k = cs_key s then Some (start_row sd s)
      else started_by_key tb k)" for k
    using started_by_key_snoc [of tb "start_row sd s" k] key
    by (auto simp: with_start_def started_by_key_def split: option.split)
  ultimately show ?thesis
    using sim ok' by (simp add: case_simulates_def update_conv')
qed

lemma start_agrees:
  assumes sim: "case_simulates sd td m tb" and s: "start_ok s"
  shows "agree (case_simulates sd td) (mem_start sd s m) (pg_start sd s tb)"
proof -
  from sim have ok: "case_tables_ok sd td tb"
    and reps: "\<And>i. dict_get (cm_repeats m) i = pg_state tb i"
    and keys: "\<And>k. dict_get (cm_keys m) k = map_option er_entry (started_by_key tb k)"
    by (simp_all add: case_simulates_def)
  show ?thesis
  proof (cases "started_by_key tb (cs_key s)")
    case None
    note pg = pg_start_new [OF ok s None]
    have mem: "mem_start sd s m = (if pg_state tb (cs_id s) \<noteq> None then Inl Entry_id_exists
       else Inr (m\<lparr>cm_repeats := dict_set (cm_repeats m) (cs_id s) (case_candidate sd s),
                  cm_keys := dict_set (cm_keys m) (cs_key s) (cs_id s)\<rparr>, cs_id s))"
      by (simp add: mem_start_def Let_def keys None prior_entry_def start_entry_def reps)
    show ?thesis
      unfolding mem pg using with_start_simulates [OF sim s None] by simp
  next
    case (Some r)
    then obtain s' where s': "r = start_row sd s'" "r \<in> set (tb_events tb)"
      by (auto simp: started_by_key_is [OF ok])
    obtain s'' where "r = start_row sd s''" "start_ok s''"
      by (rule started_row_is [OF ok s'(2)]) (simp add: s')
    with s' have ne: "cs_id s' \<noteq> []" by (simp add: start_ok_def)
    obtain st where st: "pg_state tb (cs_id s') = Some st" "js_start_digest st = sd s'"
      using s' by (auto elim: pg_state_started [OF ok])
    have "mem_start sd s m = (if sd s' \<noteq> sd s then Inl Start_digest_mismatch else Inr (m, cs_id s'))"
      using ne st by (simp add: mem_start_def Let_def keys Some s' prior_entry_def start_entry_def
          reps case_candidate_def)
    moreover have "pg_start sd s tb = (if sd s' \<noteq> sd s then Inl Start_digest_mismatch
        else Inr (tb, cs_id s'))"
      by (rule pg_start_replay [OF ok]) (simp add: Some s')
    ultimately show ?thesis using sim by simp
  qed
qed

lemma with_terminal_ok:
  assumes ok: "case_tables_ok sd td tb" and s: "start_row sd s \<in> set (tb_events tb)"
    and none: "by_kind (entry_rows tb (cs_id s)) Terminal_kind = None"
  shows "case_tables_ok sd td (tb\<lparr>tb_events := tb_events tb @ [terminal_row td (cs_id s) e s t]\<rparr>)"
proof -
  have "\<not> list_ex (same_entry (terminal_row td (cs_id s) e s t)) (tb_events tb)"
    using none by (auto simp: by_kind_None list_ex_iff same_entry_def)
  moreover have "\<not> list_ex (same_key (terminal_row td (cs_id s) e s t)) (tb_events tb)"
  proof
    assume "list_ex (same_key (terminal_row td (cs_id s) e s t)) (tb_events tb)"
    then obtain r where r: "r \<in> set (tb_events tb)" "er_kind r = Terminal_kind" "er_key r = cs_key s"
      by (auto simp: list_ex_iff same_key_def)
    obtain s' e' t' where "r = terminal_row td (cs_id s') e' s' t'"
      "start_row sd s' \<in> set (tb_events tb)"
      by (rule terminal_row_is [OF ok r(1,2)])
    moreover from this r(3) have "s = s'" by (intro start_row_unique [OF ok s]) auto
    ultimately show False using none r by (auto simp: by_kind_None)
  qed
  ultimately have u: "unique_events (tb_events tb @ [terminal_row td (cs_id s) e s t])"
    using ok by (simp add: case_tables_ok_def unique_events_snoc)
  have started: "start_row sd s' \<in> set (tb_events tb @ [terminal_row td (cs_id s) e s t])
      \<longleftrightarrow> start_row sd s' \<in> set (tb_events tb)" for s'
    by simp
  from ok s show ?thesis
    unfolding case_tables_ok_def tables.simps started using u
    by (intro conjI ballI) (simp_all, blast)
qed

lemma logged_terminal_snoc:
  "logged_terminal (tb\<lparr>tb_events := tb_events tb @ [terminal_row td j e s t]\<rparr>) i =
     (if i = j then (Some t, Some (td t)) else logged_terminal tb i)"
  by (simp add: logged_terminal_def by_kind_snoc)

lemma logged_terminal_None:
  assumes "case_tables_ok sd td tb"
  shows "fst (logged_terminal tb i) = None \<longleftrightarrow> by_kind (entry_rows tb i) Terminal_kind = None"
proof (cases "by_kind (entry_rows tb i) Terminal_kind")
  case (Some r)
  from assms have u: "unique_events (tb_events tb)" by (simp add: case_tables_ok_def)
  from Some have "r \<in> set (tb_events tb)" "er_kind r = Terminal_kind" by (simp_all add: by_kind_iff [OF u])
  then obtain s e t where "r = terminal_row td (cs_id s) e s t"
    by (rule terminal_row_is [OF assms])
  with Some show ?thesis by (simp add: logged_terminal_def)
qed (simp add: logged_terminal_def)

text \<open>What a finish does once the lease epoch is right.\<close>

lemma pg_finish_cases:
  assumes ok: "case_tables_ok sd td tb" and s: "start_row sd s \<in> set (tb_events tb)"
    and l: "dict_get (tb_leases tb) (cs_id s) = Some l" "lr_epoch l = e"
  shows "pg_finish td (cs_id s) e t tb =
    (if fst (logged_terminal tb (cs_id s)) = None
     then Inr (tb\<lparr>tb_events := tb_events tb @ [terminal_row td (cs_id s) e s t]\<rparr>)
     else if snd (logged_terminal tb (cs_id s)) \<noteq> Some (td t) then Inl Terminal_committed
     else Inr tb)"
proof -
  let ?row = "terminal_row td (cs_id s) e s t"
  from ok have u: "unique_events (tb_events tb)" by (simp add: case_tables_ok_def)
  have run: "pg_finish td (cs_id s) e t tb
      = insert_conflict_digest same_entry [same_key, same_identity] ?row Terminal_committed tb"
    using l pg_get_started [OF ok s] by (simp add: pg_finish_def)
  have target: "same_entry ?row = (\<lambda>r. er_entry r = cs_id s \<and> er_kind r = Terminal_kind)"
    by (auto simp: same_entry_def fun_eq_iff)
  show ?thesis
  proof (cases "by_kind (entry_rows tb (cs_id s)) Terminal_kind")
    case None
    with with_terminal_ok [OF ok s, of e t]
    have "unique_events (tb_events tb @ [?row])" by (simp add: case_tables_ok_def)
    then have free: "\<not> list_ex (same_entry ?row) (tb_events tb)" "\<not> list_ex (same_key ?row) (tb_events tb)"
      by (simp_all add: unique_events_snoc)
    have "\<not> list_ex (same_identity ?row) (tb_events tb)"
    proof
      assume "list_ex (same_identity ?row) (tb_events tb)"
      then obtain r where r: "r \<in> set (tb_events tb)" "same_identity ?row r"
        by (auto simp: list_ex_iff)
      then have "er_kind r = Terminal_kind" by (simp add: same_identity_def)
      then obtain s' e' t' where s': "r = terminal_row td (cs_id s') e' s' t'"
        "start_row sd s' \<in> set (tb_events tb)"
        by (rule terminal_row_is [OF ok r(1)])
      with r(2) have "same_identity (start_row sd s) (start_row sd s')"
        by (simp add: same_identity_def terminal_row_def start_row_def)
      moreover have "start_ok s" using started_row_is [OF ok s] by auto
      ultimately have "same_key (start_row sd s) (start_row sd s')"
        by (intro same_identity_key [OF ok _ s'(2)])
      then have "s = s'" by (intro start_row_unique [OF ok s s'(2)]) (simp add: same_key_def)
      with s'(1) r(1) free(1) show False by (force simp: list_ex_iff same_entry_def)
    qed
    with free have "\<not> list_ex (\<lambda>r. list_ex (\<lambda>u. u ?row r) [same_key, same_identity]) (tb_events tb)"
      by (auto simp: list_ex_iff)
    with free(1) None show ?thesis
      unfolding run by (simp add: insert_conflict_digest_def insert_ignore_def logged_terminal_def)
  next
    case (Some r)
    then have r: "r \<in> set (tb_events tb)" "er_entry r = cs_id s" "er_kind r = Terminal_kind"
      by (simp_all add: by_kind_iff [OF u])
    obtain s' e' t' where r': "r = terminal_row td (cs_id s') e' s' t'"
      by (rule terminal_row_is [OF ok r(1,3)])
    have "distinct (map (\<lambda>r. (er_entry r, er_kind r)) (tb_events tb))"
      using u by (simp add: unique_events_def)
    from distinct_map_eqD [OF this] have "List.find (same_entry ?row) (tb_events tb) = Some r"
      unfolding target using r by (subst find_unique_iff) auto
    moreover have "list_ex (same_entry ?row) (tb_events tb)"
      using r by (auto simp: target list_ex_iff)
    ultimately show ?thesis
      unfolding run using Some
      by (simp add: insert_conflict_digest_def insert_ignore_def logged_terminal_def r')
  qed
qed

text \<open>The entry of a call is either in neither sink, or started in both with one state.\<close>

lemma simulated_entry:
  assumes sim: "case_simulates sd td m tb"
  obtains (missing) "dict_get (cm_repeats m) i = None" "dict_get (tb_leases tb) i = None"
      "pg_get i tb = Inl Entry_not_found"
  | (started) s l where "start_row sd s \<in> set (tb_events tb)" "cs_id s = i"
      "dict_get (tb_leases tb) i = Some l"
      "dict_get (cm_repeats m) i = Some \<lparr>js_start = s, js_start_digest = sd s, js_epoch = lr_epoch l,
        js_owner = lr_owner l, js_expires = lr_expires l,
        js_terminal = fst (logged_terminal tb i), js_terminal_digest = snd (logged_terminal tb i)\<rparr>"
      "pg_get i tb = Inr \<lparr>cj_start = s, cj_start_digest = sd s,
        cj_terminal = fst (logged_terminal tb i), cj_terminal_digest = snd (logged_terminal tb i)\<rparr>"
proof -
  from sim have ok: "case_tables_ok sd td tb"
    and reps: "\<And>i. dict_get (cm_repeats m) i = pg_state tb i" by (simp_all add: case_simulates_def)
  show ?thesis
  proof (cases "dict_has (tb_leases tb) i")
    case False
    with pg_get_missing [OF ok False] show ?thesis
      by (intro missing) (simp_all add: reps pg_state_def dict_has_iff)
  next
    case True
    then obtain s where s: "start_row sd s \<in> set (tb_events tb)" "cs_id s = i"
      by (rule leased_start [OF ok])
    obtain l where "dict_get (tb_leases tb) i = Some l" "pg_state tb i = Some \<lparr>js_start = s,
        js_start_digest = sd s, js_epoch = lr_epoch l, js_owner = lr_owner l,
        js_expires = lr_expires l, js_terminal = fst (logged_terminal tb i),
        js_terminal_digest = snd (logged_terminal tb i)\<rparr>"
      using pg_state_started [OF ok s(1)] unfolding s(2) by metis
    with s pg_get_started [OF ok s(1)] show ?thesis by (intro started) (simp_all add: reps)
  qed
qed

lemma get_agrees:
  assumes sim: "case_simulates sd td m tb"
  shows "mem_get i m = pg_get i tb"
  by (rule simulated_entry [OF sim, of i])
    (simp_all add: mem_get_def require_entry_def journal_of_def)

lemma pg_get_terminal_other:
  assumes "i \<noteq> j"
  shows "pg_get i (tb\<lparr>tb_events := tb_events tb @ [terminal_row td j e s t]\<rparr>) = pg_get i tb"
  using assms by (simp add: pg_get_def entry_rows_snoc)

lemma case_memory_same [simp]: "m\<lparr>cm_repeats := cm_repeats m\<rparr> = (m :: case_memory)"
  by (cases m) simp

lemma finish_agrees:
  assumes sim: "case_simulates sd td m tb"
  shows "agree (case_simulates sd td)
    (rbind (mem_finish td i e t m) (\<lambda>m'. Inr (m', ()))) (rbind (pg_finish td i e t tb) (\<lambda>p'. Inr (p', ())))"
proof (rule simulated_entry [OF sim, of i])
  assume "dict_get (cm_repeats m) i = None" "dict_get (tb_leases tb) i = None"
  then show ?thesis by (simp add: mem_finish_def require_entry_def pg_finish_def)
next
  fix s l
  assume s: "start_row sd s \<in> set (tb_events tb)" "cs_id s = i"
    and l: "dict_get (tb_leases tb) i = Some l"
    and m: "dict_get (cm_repeats m) i = Some \<lparr>js_start = s, js_start_digest = sd s,
        js_epoch = lr_epoch l, js_owner = lr_owner l, js_expires = lr_expires l,
        js_terminal = fst (logged_terminal tb i), js_terminal_digest = snd (logged_terminal tb i)\<rparr>"
  from sim have ok: "case_tables_ok sd td tb"
    and reps: "\<And>i. dict_get (cm_repeats m) i = pg_state tb i"
    and keys: "\<And>k. dict_get (cm_keys m) k = map_option er_entry (started_by_key tb k)"
    by (simp_all add: case_simulates_def)
  show ?thesis
  proof (cases "lr_epoch l = e")
    case False
    with m l show ?thesis
      by (simp add: mem_finish_def require_entry_def commit_terminal_def check_lease_epoch_def
          pg_finish_def)
  next
    case True
    note pg = pg_finish_cases [OF ok s(1), unfolded s(2), OF l True, of t]
    show ?thesis
    proof (cases "fst (logged_terminal tb i)")
      case (Some t')
      have same: "dict_set (cm_repeats m) i (the (dict_get (cm_repeats m) i)) = cm_repeats m"
        using m by (simp add: update_Some_same)
      from Some m True same sim show ?thesis
        unfolding pg
        by (cases "snd (logged_terminal tb i) = Some (td t)")
          (simp_all add: mem_finish_def require_entry_def commit_terminal_def check_lease_epoch_def)
    next
      case None
      then have "by_kind (entry_rows tb (cs_id s)) Terminal_kind = None"
        using logged_terminal_None [OF ok] s(2) by simp
      let ?p = "tb\<lparr>tb_events := tb_events tb @ [terminal_row td i e s t]\<rparr>"
      have ok': "case_tables_ok sd td ?p"
        using with_terminal_ok [OF ok s(1) \<open>by_kind _ _ = None\<close>, of e t] s(2) by simp
      from s(1) have s': "start_row sd s \<in> set (tb_events ?p)" by simp
      have at: "pg_state ?p i = Some \<lparr>js_start = s, js_start_digest = sd s, js_epoch = lr_epoch l,
          js_owner = lr_owner l, js_expires = lr_expires l, js_terminal = Some t,
          js_terminal_digest = Some (td t)\<rparr>"
        using pg_get_started [OF ok' s'] l s(2)
        by (simp add: pg_state_def leased_state_def logged_terminal_snoc)
      have other: "pg_state ?p j = pg_state tb j" if "j \<noteq> i" for j
        using that by (cases "pg_get j tb") (simp_all add: pg_state_def pg_get_terminal_other)
      have keys': "started_by_key ?p k = started_by_key tb k" for k
        by (simp add: started_by_key_snoc split: option.split)
      have "case_simulates sd td (m\<lparr>cm_repeats := dict_set (cm_repeats m) i
          \<lparr>js_start = s, js_start_digest = sd s, js_epoch = lr_epoch l, js_owner = lr_owner l,
           js_expires = lr_expires l, js_terminal = Some t, js_terminal_digest = Some (td t)\<rparr>\<rparr>) ?p"
        using ok' reps keys keys' at other by (simp add: case_simulates_def update_conv')
      with None m True show ?thesis
        unfolding pg by (simp add: mem_finish_def require_entry_def commit_terminal_def
            check_lease_epoch_def)
    qed
  qed
qed

lemma claim_agrees:
  assumes sim: "case_simulates sd td m tb"
  shows "agree (case_simulates sd td) (mem_claim i owner now expires m) (pg_claim i owner now expires tb)"
proof (rule simulated_entry [OF sim, of i])
  assume "dict_get (cm_repeats m) i = None" "dict_get (tb_leases tb) i = None"
  then show ?thesis by (simp add: mem_claim_def require_entry_def pg_claim_def)
next
  fix s l
  assume s: "start_row sd s \<in> set (tb_events tb)" "cs_id s = i"
    and l: "dict_get (tb_leases tb) i = Some l"
    and m: "dict_get (cm_repeats m) i = Some \<lparr>js_start = s, js_start_digest = sd s,
        js_epoch = lr_epoch l, js_owner = lr_owner l, js_expires = lr_expires l,
        js_terminal = fst (logged_terminal tb i), js_terminal_digest = snd (logged_terminal tb i)\<rparr>"
    and g: "pg_get i tb = Inr \<lparr>cj_start = s, cj_start_digest = sd s,
        cj_terminal = fst (logged_terminal tb i), cj_terminal_digest = snd (logged_terminal tb i)\<rparr>"
  from sim have ok: "case_tables_ok sd td tb"
    and reps: "\<And>i. dict_get (cm_repeats m) i = pg_state tb i"
    and keys: "\<And>k. dict_get (cm_keys m) k = map_option er_entry (started_by_key tb k)"
    by (simp_all add: case_simulates_def)
  show ?thesis
  proof (cases "fst (logged_terminal tb i) \<noteq> None \<or> now < lr_expires l")
    case True
    with m l g show ?thesis
      by (auto simp: mem_claim_def require_entry_def reclaim_lease_def pg_claim_def)
  next
    case False
    let ?l = "\<lparr>lr_owner = owner, lr_epoch = lr_epoch l + 1, lr_expires = expires\<rparr>"
    let ?p = "tb\<lparr>tb_leases := dict_set (tb_leases tb) i ?l\<rparr>"
    have gets: "pg_get j ?p = pg_get j tb" for j by (simp add: pg_get_def entry_rows_def)
    have "dict_has (tb_leases tb) i" using l by (simp add: dict_has_iff)
    with ok have ok': "case_tables_ok sd td ?p" by (auto simp: case_tables_ok_def)
    have state: "pg_state ?p j = (if j = i then Some \<lparr>js_start = s, js_start_digest = sd s,
        js_epoch = lr_epoch l + 1, js_owner = owner, js_expires = expires,
        js_terminal = fst (logged_terminal tb i),
        js_terminal_digest = snd (logged_terminal tb i)\<rparr> else pg_state tb j)" for j
      using g by (cases "pg_get j tb") (auto simp: pg_state_def gets leased_state_def update_conv')
    have "started_by_key ?p k = started_by_key tb k" for k by (simp add: started_by_key_def)
    with ok' reps keys state have "case_simulates sd td
        (m\<lparr>cm_repeats := dict_set (cm_repeats m) i \<lparr>js_start = s, js_start_digest = sd s,
           js_epoch = lr_epoch l + 1, js_owner = owner, js_expires = expires,
           js_terminal = fst (logged_terminal tb i),
           js_terminal_digest = snd (logged_terminal tb i)\<rparr>\<rparr>) ?p"
      by (simp add: case_simulates_def update_conv')
    with False m l g show ?thesis
      by (simp add: mem_claim_def require_entry_def reclaim_lease_def pg_claim_def update_lease_def)
  qed
qed

subsection \<open>Any sequence of calls\<close>

text \<open>The operations of a sink, as a value; \<open>CaseRepeatSink\<close> is the protocol of the first two.\<close>

record 's case_sink =
  sk_start :: "case_start \<Rightarrow> 's \<Rightarrow> journal_error + 's \<times> string"
  sk_finish :: "string \<Rightarrow> int \<Rightarrow> case_terminal \<Rightarrow> 's \<Rightarrow> journal_error + 's"
  sk_claim :: "string \<Rightarrow> string \<Rightarrow> int \<Rightarrow> int \<Rightarrow> 's \<Rightarrow> journal_error + 's \<times> int"
  sk_get :: "string \<Rightarrow> 's \<Rightarrow> journal_error + case_journal"

definition memory_sink ::
    "(case_start \<Rightarrow> string) \<Rightarrow> (case_terminal \<Rightarrow> string) \<Rightarrow> case_memory case_sink" where
  "memory_sink sd td =
     \<lparr>sk_start = mem_start sd, sk_finish = mem_finish td, sk_claim = mem_claim, sk_get = mem_get\<rparr>"

definition postgres_sink ::
    "(case_start \<Rightarrow> string) \<Rightarrow> (case_terminal \<Rightarrow> string) \<Rightarrow> case_tables case_sink" where
  "postgres_sink sd td =
     \<lparr>sk_start = pg_start sd, sk_finish = pg_finish td, sk_claim = pg_claim, sk_get = pg_get\<rparr>"

datatype case_call =
    Start_case case_start
  | Finish_case string int case_terminal
  | Claim_case string string int int
  | Get_case string

datatype case_result =
  Refused | Started_as string | Finished_ok | Claimed int | Journal case_journal

text \<open>A refused call raises; the caller sees the refusal and the sink keeps its state.\<close>

fun sink_call :: "'s case_sink \<Rightarrow> case_call \<Rightarrow> 's \<Rightarrow> 's \<times> case_result" where
  "sink_call sk (Start_case s) \<sigma> =
     (case sk_start sk s \<sigma> of Inl _ \<Rightarrow> (\<sigma>, Refused) | Inr (\<sigma>', i) \<Rightarrow> (\<sigma>', Started_as i))"
| "sink_call sk (Finish_case i e t) \<sigma> =
     (case sk_finish sk i e t \<sigma> of Inl _ \<Rightarrow> (\<sigma>, Refused) | Inr \<sigma>' \<Rightarrow> (\<sigma>', Finished_ok))"
| "sink_call sk (Claim_case i w now x) \<sigma> =
     (case sk_claim sk i w now x \<sigma> of Inl _ \<Rightarrow> (\<sigma>, Refused) | Inr (\<sigma>', e) \<Rightarrow> (\<sigma>', Claimed e))"
| "sink_call sk (Get_case i) \<sigma> =
     (case sk_get sk i \<sigma> of Inl _ \<Rightarrow> (\<sigma>, Refused) | Inr j \<Rightarrow> (\<sigma>, Journal j))"

fun sink_run :: "'s case_sink \<Rightarrow> case_call list \<Rightarrow> 's \<Rightarrow> case_result list" where
  "sink_run sk [] \<sigma> = []"
| "sink_run sk (c # cs) \<sigma> =
     (case sink_call sk c \<sigma> of (\<sigma>', r) \<Rightarrow> r # sink_run sk cs \<sigma>')"

fun call_ok :: "case_call \<Rightarrow> bool" where
  "call_ok (Start_case s) = start_ok s"
| "call_ok _ = True"

lemma call_agrees:
  assumes sim: "case_simulates sd td m tb" and ok: "call_ok c"
  shows "snd (sink_call (memory_sink sd td) c m) = snd (sink_call (postgres_sink sd td) c tb)
    \<and> case_simulates sd td (fst (sink_call (memory_sink sd td) c m))
        (fst (sink_call (postgres_sink sd td) c tb))"
proof (cases c)
  case (Start_case s)
  with ok have "agree (case_simulates sd td) (mem_start sd s m) (pg_start sd s tb)"
    by (intro start_agrees [OF sim]) simp
  then show ?thesis
    by (rule agree_cases) (simp_all add: Start_case memory_sink_def postgres_sink_def sim)
next
  case (Finish_case i e t)
  from finish_agrees [OF sim, of i e t] sim show ?thesis
    by (cases "mem_finish td i e t m"; cases "pg_finish td i e t tb")
      (simp_all add: Finish_case memory_sink_def postgres_sink_def agree_def)
next
  case (Claim_case i w now x)
  from claim_agrees [OF sim] show ?thesis
    by (rule agree_cases [of _ "mem_claim i w now x m" "pg_claim i w now x tb"])
      (simp_all add: Claim_case memory_sink_def postgres_sink_def sim)
next
  case (Get_case i)
  with get_agrees [OF sim, of i] sim show ?thesis
    by (cases "pg_get i tb") (simp_all add: memory_sink_def postgres_sink_def)
qed

lemma run_agrees:
  "case_simulates sd td m tb \<Longrightarrow> list_all call_ok cs \<Longrightarrow>
     sink_run (memory_sink sd td) cs m = sink_run (postgres_sink sd td) cs tb"
proof (induction cs arbitrary: m tb)
  case (Cons c cs)
  from call_agrees [OF Cons.prems(1), of c] Cons.prems(2) Cons.IH show ?case
    by (auto simp: split_beta)
qed simp

lemma initial_simulates: "case_simulates sd td empty_memory empty_tables"
proof -
  have "pg_get i empty_tables = Inl Entry_not_found" for i
    by (rule pg_get_missing [OF empty_tables_ok]) (simp add: empty_tables_def)
  then show ?thesis
    by (simp add: case_simulates_def empty_tables_ok empty_memory_def pg_state_def)
      (simp add: started_by_key_def empty_tables_def)
qed

subsection \<open>The port the lifecycle relies on\<close>

text \<open>
  What a caller of \<open>CaseRepeatSink\<close> may rely on, stated by what \<open>get\<close> shows: a start that
  returns is readable under the id it returned and can be replayed, a finish that returns is
  readable, touches no other entry, and is final.
\<close>

locale case_repeat_port =
  fixes sk :: "'s case_sink"
    and sd :: "case_start \<Rightarrow> string"
    and td :: "case_terminal \<Rightarrow> string"
    and good :: "'s \<Rightarrow> bool"
  assumes start_reads: "good \<sigma> \<Longrightarrow> start_ok s \<Longrightarrow> sk_start sk s \<sigma> = Inr (\<sigma>', i) \<Longrightarrow>
      good \<sigma>' \<and> (\<exists>j. sk_get sk i \<sigma>' = Inr j \<and> cj_start_digest j = sd s)"
    and start_again: "good \<sigma> \<Longrightarrow> start_ok s \<Longrightarrow> sk_start sk s \<sigma> = Inr (\<sigma>', i) \<Longrightarrow>
      \<exists>\<sigma>''. sk_start sk s \<sigma>' = Inr (\<sigma>'', i) \<and> (\<forall>k. sk_get sk k \<sigma>'' = sk_get sk k \<sigma>')"
    and fresh_finish: "good \<sigma> \<Longrightarrow> start_ok s \<Longrightarrow> sk_start sk s \<sigma> = Inr (\<sigma>', i) \<Longrightarrow>
      sk_get sk i \<sigma> = Inl err \<Longrightarrow> \<exists>\<sigma>''. sk_finish sk i (cs_epoch s) t \<sigma>' = Inr \<sigma>''"
    and finish_reads: "good \<sigma> \<Longrightarrow> sk_finish sk i e t \<sigma> = Inr \<sigma>' \<Longrightarrow>
      good \<sigma>' \<and> (\<exists>j. sk_get sk i \<sigma>' = Inr j \<and> cj_terminal_digest j = Some (td t))
      \<and> (\<forall>k. k \<noteq> i \<longrightarrow> sk_get sk k \<sigma>' = sk_get sk k \<sigma>)"
    and finish_final: "good \<sigma> \<Longrightarrow> sk_get sk i \<sigma> = Inr j \<Longrightarrow> cj_terminal_digest j = Some d \<Longrightarrow>
      d \<noteq> td t \<Longrightarrow> \<exists>err. sk_finish sk i e t \<sigma> = Inl err"
begin

text \<open>An entry that finished keeps that digest through any later finishes of any entries.\<close>

lemma finishes_keep:
  assumes "rfold (\<lambda>\<sigma> (i, e, t). sk_finish sk i e t \<sigma>) \<sigma> xs = Inr \<sigma>'" "good \<sigma>"
    and "sk_get sk k \<sigma> = Inr j" "cj_terminal_digest j = Some d"
  shows "good \<sigma>' \<and> (\<exists>j'. sk_get sk k \<sigma>' = Inr j' \<and> cj_terminal_digest j' = Some d)"
proof (rule rfold_invariant [OF assms(1)])
  show "good \<sigma> \<and> (\<exists>j'. sk_get sk k \<sigma> = Inr j' \<and> cj_terminal_digest j' = Some d)"
    using assms(2-4) by blast
next
  fix \<sigma> x \<sigma>'
  assume inv: "good \<sigma> \<and> (\<exists>j'. sk_get sk k \<sigma> = Inr j' \<and> cj_terminal_digest j' = Some d)"
    and step: "(case x of (i, e, t) \<Rightarrow> sk_finish sk i e t \<sigma>) = Inr \<sigma>'"
  obtain i e t where x: "x = (i, e, t)" by (cases x)
  with step have f: "sk_finish sk i e t \<sigma> = Inr \<sigma>'" by simp
  note r = finish_reads [OF conjunct1 [OF inv] f]
  show "good \<sigma>' \<and> (\<exists>j'. sk_get sk k \<sigma>' = Inr j' \<and> cj_terminal_digest j' = Some d)"
  proof (cases "k = i")
    case False
    with r inv show ?thesis by simp
  next
    case True
    from inv obtain j' where j': "sk_get sk i \<sigma> = Inr j'" "cj_terminal_digest j' = Some d"
      unfolding True by blast
    have "d = td t" using finish_final [OF conjunct1 [OF inv] j', of t e] f by auto
    with r show ?thesis unfolding True by blast
  qed
qed

end

subsection \<open>The lifecycle\<close>

record case_lifecycle =
  lf_project :: string
  lf_run :: string
  lf_case :: string
  lf_index :: nat

definition TEN_MINUTES :: int where
  "TEN_MINUTES = 10 * 60 * 1000000"

definition lf_repeat_id :: "(string \<Rightarrow> string) \<Rightarrow> case_lifecycle \<Rightarrow> string" where
  "lf_repeat_id sha lf = ''cr_'' @ take 32 (sha (case_key (lf_run lf) (lf_case lf) (lf_index lf)))"

definition lf_start_payload ::
    "(string \<Rightarrow> string) \<Rightarrow> case_lifecycle \<Rightarrow> int \<Rightarrow> case_start" where
  "lf_start_payload sha lf now =
     \<lparr>cs_id = lf_repeat_id sha lf, cs_key = case_key (lf_run lf) (lf_case lf) (lf_index lf),
      cs_project = lf_project lf, cs_run = lf_run lf, cs_case = lf_case lf, cs_index = lf_index lf,
      cs_owner = lf_run lf, cs_epoch = 1, cs_expires = now + TEN_MINUTES, cs_started = now\<rparr>"

definition lf_start ::
    "'s case_sink \<Rightarrow> (string \<Rightarrow> string) \<Rightarrow> case_lifecycle \<Rightarrow> int \<Rightarrow> 's
      \<Rightarrow> journal_error + 's \<times> string" where
  "lf_start sk sha lf now = sk_start sk (lf_start_payload sha lf now)"

definition lf_terminal ::
    "case_class \<Rightarrow> string \<Rightarrow> string option \<Rightarrow> string option \<Rightarrow> int \<Rightarrow> case_terminal" where
  "lf_terminal cls code query attempt now =
     \<lparr>ct_class = cls, ct_code = code, ct_attempt = attempt, ct_query = query, ct_finished = now\<rparr>"

definition lf_finish ::
    "'s case_sink \<Rightarrow> (string \<Rightarrow> string) \<Rightarrow> case_lifecycle \<Rightarrow> case_terminal \<Rightarrow> 's
      \<Rightarrow> journal_error + 's" where
  "lf_finish sk sha lf t = sk_finish sk (lf_repeat_id sha lf) 1 t"

text \<open>\<open>CaseTerminalClass(outcome)\<close> raises on a value that is not of the enum.\<close>

definition case_class_of :: "string \<Rightarrow> case_class option" where
  "case_class_of v = map_of
     [(''answered'', Case_answered), (''clarification_required'', Case_clarification),
      (''unsupported'', Case_unsupported), (''denied'', Case_denied),
      (''incomplete'', Case_incomplete), (''scorer_error'', Case_scorer_error),
      (''evaluator_error'', Case_evaluator_error), (''budget_stop'', Case_budget_stop),
      (''cancelled'', Case_cancelled), (''unexpected_error'', Case_unexpected_error),
      (''completion_unknown'', Case_completion_unknown)] v"

definition lf_finish_outcome ::
    "'s case_sink \<Rightarrow> (string \<Rightarrow> string) \<Rightarrow> case_lifecycle \<Rightarrow> string \<Rightarrow> string \<Rightarrow> string option
      \<Rightarrow> string option \<Rightarrow> int \<Rightarrow> 's \<Rightarrow> journal_error + 's" where
  "lf_finish_outcome sk sha lf outcome reason query attempt now \<sigma> =
     (case case_class_of outcome of
        None \<Rightarrow> Inl Key_error
      | Some cls \<Rightarrow>
          lf_finish sk sha lf
            (lf_terminal cls (if reason \<noteq> [] then reason else outcome) query attempt now) \<sigma>)"

definition lf_finish_error ::
    "'s case_sink \<Rightarrow> (string \<Rightarrow> string) \<Rightarrow> case_lifecycle \<Rightarrow> string \<Rightarrow> string \<Rightarrow> int \<Rightarrow> 's
      \<Rightarrow> journal_error + 's" where
  "lf_finish_error sk sha lf cls code now \<sigma> =
     (case case_class_of cls of
        None \<Rightarrow> Inl Key_error
      | Some c \<Rightarrow> lf_finish sk sha lf (lf_terminal c code None None now) \<sigma>)"

lemma lf_start_payload_ok: "start_ok (lf_start_payload sha lf now)"
  by (simp add: start_ok_def lf_start_payload_def lf_repeat_id_def)

context case_repeat_port
begin

text \<open>
  A repeat that starts fresh can be finished, and its first terminal is the one that stays:
  whatever finishes of this or other repeats follow, and a second finish of it with another
  payload is refused.
\<close>

lemma lifecycle_once:
  assumes "good \<sigma>" "lf_start sk sha lf now \<sigma> = Inr (\<sigma>1, lf_repeat_id sha lf)"
    and "sk_get sk (lf_repeat_id sha lf) \<sigma> = Inl err"
  shows "\<exists>\<sigma>2. lf_finish sk sha lf t \<sigma>1 = Inr \<sigma>2
    \<and> (\<forall>xs \<sigma>3. rfold (\<lambda>\<sigma> (i, e, t). sk_finish sk i e t \<sigma>) \<sigma>2 xs = Inr \<sigma>3 \<longrightarrow>
         (\<exists>j. sk_get sk (lf_repeat_id sha lf) \<sigma>3 = Inr j \<and> cj_terminal_digest j = Some (td t))
         \<and> (\<forall>t'. td t' \<noteq> td t \<longrightarrow> (\<exists>err. lf_finish sk sha lf t' \<sigma>3 = Inl err)))"
proof -
  let ?i = "lf_repeat_id sha lf"
  from assms(2) have start: "sk_start sk (lf_start_payload sha lf now) \<sigma> = Inr (\<sigma>1, ?i)"
    by (simp add: lf_start_def)
  have epoch: "cs_epoch (lf_start_payload sha lf now) = 1" by (simp add: lf_start_payload_def)
  obtain \<sigma>2 where f: "lf_finish sk sha lf t \<sigma>1 = Inr \<sigma>2"
    using fresh_finish [OF assms(1) lf_start_payload_ok start assms(3)]
    unfolding epoch lf_finish_def by blast
  have g1: "good \<sigma>1" using start_reads [OF assms(1) lf_start_payload_ok start] by blast
  obtain j where j: "good \<sigma>2" "sk_get sk ?i \<sigma>2 = Inr j" "cj_terminal_digest j = Some (td t)"
    using finish_reads [OF g1 f [unfolded lf_finish_def]] by blast
  have "(\<exists>j. sk_get sk ?i \<sigma>3 = Inr j \<and> cj_terminal_digest j = Some (td t))
      \<and> (\<forall>t'. td t' \<noteq> td t \<longrightarrow> (\<exists>err. lf_finish sk sha lf t' \<sigma>3 = Inl err))"
    if run: "rfold (\<lambda>\<sigma> (i, e, t). sk_finish sk i e t \<sigma>) \<sigma>2 xs = Inr \<sigma>3" for xs \<sigma>3
  proof -
    from finishes_keep [OF run j] obtain j' where g3: "good \<sigma>3"
      and j': "sk_get sk ?i \<sigma>3 = Inr j'" "cj_terminal_digest j' = Some (td t)" by blast
    from finish_final [OF g3 j'] j' show ?thesis unfolding lf_finish_def by metis
  qed
  with f show ?thesis by blast
qed

end

subsection \<open>Both sinks keep the port's laws\<close>

definition memory_ok :: "case_memory \<Rightarrow> bool" where
  "memory_ok m \<longleftrightarrow>
     (\<forall>k i. dict_get (cm_keys m) k = Some i \<longrightarrow> i \<noteq> [] \<and> dict_get (cm_repeats m) i \<noteq> None)
     \<and> (\<forall>i st. dict_get (cm_repeats m) i = Some st \<longrightarrow> state_ok st)"

lemma mem_start_cases:
  assumes "memory_ok m" "mem_start sd s m = Inr (m', i)"
  obtains (replayed) st where "m' = m" "dict_get (cm_keys m) (cs_key s) = Some i" "i \<noteq> []"
      "dict_get (cm_repeats m) i = Some st" "js_start_digest st = sd s"
  | (added) "i = cs_id s" "dict_get (cm_keys m) (cs_key s) = None"
      "dict_get (cm_repeats m) i = None"
      "m' = m\<lparr>cm_repeats := dict_set (cm_repeats m) i (case_candidate sd s),
              cm_keys := dict_set (cm_keys m) (cs_key s) i\<rparr>"
proof (cases "dict_get (cm_keys m) (cs_key s)")
  case None
  with assms(2) added show ?thesis
    by (auto simp: mem_start_def Let_def prior_entry_def start_entry_def split: if_splits)
next
  case (Some k)
  with assms(1) have "k \<noteq> []" "dict_get (cm_repeats m) k \<noteq> None"
    unfolding memory_ok_def by blast+
  moreover from this obtain st where "dict_get (cm_repeats m) k = Some st" by blast
  ultimately show ?thesis using Some assms(2) replayed
    by (auto simp: mem_start_def Let_def prior_entry_def start_entry_def case_candidate_def
        split: if_splits)
qed

lemma memory_ok_added:
  assumes "memory_ok m" "cs_id s \<noteq> []"
  shows "memory_ok (m\<lparr>cm_repeats := dict_set (cm_repeats m) (cs_id s) (case_candidate sd s),
     cm_keys := dict_set (cm_keys m) (cs_key s) (cs_id s)\<rparr>)"
  using assms
  by (simp add: memory_ok_def update_conv' case_candidate_def state_ok_def)

lemma mem_start_reads:
  assumes ok: "memory_ok m" and s: "start_ok s" and start: "mem_start sd s m = Inr (m', i)"
  shows "memory_ok m' \<and> (\<exists>j. mem_get i m' = Inr j \<and> cj_start_digest j = sd s)"
proof (rule mem_start_cases [OF ok start])
  fix st
  assume "m' = m" "dict_get (cm_repeats m) i = Some st" "js_start_digest st = sd s"
  with ok show ?thesis by (simp add: mem_get_def require_entry_def journal_of_def)
next
  assume "i = cs_id s" "m' = m\<lparr>cm_repeats := dict_set (cm_repeats m) i (case_candidate sd s),
              cm_keys := dict_set (cm_keys m) (cs_key s) i\<rparr>"
  with memory_ok_added [OF ok, of s sd] s show ?thesis
    by (simp add: mem_get_def require_entry_def journal_of_def start_ok_def update_conv')
      (simp add: case_candidate_def)
qed

lemma mem_start_again:
  assumes ok: "memory_ok m" and s: "start_ok s" and start: "mem_start sd s m = Inr (m', i)"
  shows "mem_start sd s m' = Inr (m', i)"
proof (rule mem_start_cases [OF ok start])
  assume "m' = m"
  with start show ?thesis by simp
next
  assume "i = cs_id s" "m' = m\<lparr>cm_repeats := dict_set (cm_repeats m) i (case_candidate sd s),
              cm_keys := dict_set (cm_keys m) (cs_key s) i\<rparr>"
  with s show ?thesis
    by (simp add: mem_start_def Let_def prior_entry_def start_entry_def update_conv' start_ok_def)
qed

lemma mem_fresh_finish:
  assumes ok: "memory_ok m" and start: "mem_start sd s m = Inr (m', i)" and new: "mem_get i m = Inl err"
  shows "\<exists>m''. mem_finish td i (cs_epoch s) t m' = Inr m''"
proof (rule mem_start_cases [OF ok start])
  fix st
  assume "dict_get (cm_repeats m) i = Some st"
  with new show ?thesis by (simp add: mem_get_def require_entry_def)
next
  assume "m' = m\<lparr>cm_repeats := dict_set (cm_repeats m) i (case_candidate sd s),
              cm_keys := dict_set (cm_keys m) (cs_key s) i\<rparr>"
  then show ?thesis
    by (simp add: mem_finish_def commit_terminal_def case_candidate_def update_conv')
qed

lemma mem_finish_reads:
  assumes ok: "memory_ok m" and fin: "mem_finish td i e t m = Inr m'"
  shows "memory_ok m' \<and> (\<exists>j. mem_get i m' = Inr j \<and> cj_terminal_digest j = Some (td t))
    \<and> (\<forall>k. k \<noteq> i \<longrightarrow> mem_get k m' = mem_get k m)"
proof -
  from fin obtain st st' where st: "dict_get (cm_repeats m) i = Some st"
    "commit_terminal st e t (td t) = Inr st'"
    and m': "m' = m\<lparr>cm_repeats := dict_set (cm_repeats m) i st'\<rparr>"
    by (auto simp: mem_finish_def)
  from ok st(1) have "state_ok st" by (simp add: memory_ok_def)
  with st(2) have st': "js_terminal_digest st' = Some (td t)" "state_ok st'"
    by (auto simp: commit_terminal_def state_ok_def split: if_splits)
  from ok st'(2) have "memory_ok m'" by (simp add: m' memory_ok_def update_conv')
  moreover from st'(1) have "\<exists>j. mem_get i m' = Inr j \<and> cj_terminal_digest j = Some (td t)"
    by (simp add: m' mem_get_def update_conv' journal_of_def)
  ultimately show ?thesis by (simp add: m' mem_get_def update_conv')
qed

lemma mem_finish_final:
  assumes "memory_ok m" "mem_get i m = Inr j" "cj_terminal_digest j = Some d" "d \<noteq> td t"
  shows "\<exists>err. mem_finish td i e t m = Inl err"
proof -
  from assms(2) obtain st where st: "dict_get (cm_repeats m) i = Some st" "j = journal_of st"
    by (auto simp: mem_get_def)
  with assms(3) have d: "js_terminal_digest st = Some d" by (simp add: journal_of_def)
  from assms(1) st(1) have "state_ok st" by (simp add: memory_ok_def)
  with d have "js_terminal st \<noteq> None" by (simp add: state_ok_def)
  with d st(1) assms(4) show ?thesis
    by (simp add: mem_finish_def require_entry_def commit_terminal_def check_lease_epoch_def)
qed

interpretation memory: case_repeat_port "memory_sink sd td" sd td memory_ok
  for sd td
proof
  fix \<sigma> s \<sigma>' i
  assume "memory_ok \<sigma>" "start_ok s" "sk_start (memory_sink sd td) s \<sigma> = Inr (\<sigma>', i)"
  then show "memory_ok \<sigma>' \<and> (\<exists>j. sk_get (memory_sink sd td) i \<sigma>' = Inr j \<and> cj_start_digest j = sd s)"
    using mem_start_reads by (simp add: memory_sink_def)
next
  fix \<sigma> s \<sigma>' i
  assume "memory_ok \<sigma>" "start_ok s" "sk_start (memory_sink sd td) s \<sigma> = Inr (\<sigma>', i)"
  then show "\<exists>\<sigma>''. sk_start (memory_sink sd td) s \<sigma>' = Inr (\<sigma>'', i)
      \<and> (\<forall>k. sk_get (memory_sink sd td) k \<sigma>'' = sk_get (memory_sink sd td) k \<sigma>')"
    using mem_start_again [of \<sigma> s sd \<sigma>' i] by (simp add: memory_sink_def)
next
  fix \<sigma> s \<sigma>' i err t
  assume "memory_ok \<sigma>" "sk_start (memory_sink sd td) s \<sigma> = Inr (\<sigma>', i)"
    "sk_get (memory_sink sd td) i \<sigma> = Inl err"
  then show "\<exists>\<sigma>''. sk_finish (memory_sink sd td) i (cs_epoch s) t \<sigma>' = Inr \<sigma>''"
    using mem_fresh_finish by (simp add: memory_sink_def)
next
  fix \<sigma> i e t \<sigma>'
  assume "memory_ok \<sigma>" "sk_finish (memory_sink sd td) i e t \<sigma> = Inr \<sigma>'"
  then show "memory_ok \<sigma>'
      \<and> (\<exists>j. sk_get (memory_sink sd td) i \<sigma>' = Inr j \<and> cj_terminal_digest j = Some (td t))
      \<and> (\<forall>k. k \<noteq> i \<longrightarrow> sk_get (memory_sink sd td) k \<sigma>' = sk_get (memory_sink sd td) k \<sigma>)"
    using mem_finish_reads by (simp add: memory_sink_def)
next
  fix \<sigma> i j d t e
  assume "memory_ok \<sigma>" "sk_get (memory_sink sd td) i \<sigma> = Inr j"
    "cj_terminal_digest j = Some d" "d \<noteq> td t"
  then show "\<exists>err. sk_finish (memory_sink sd td) i e t \<sigma> = Inl err"
    using mem_finish_final by (simp add: memory_sink_def)
qed

text \<open>
  The tables keep the laws because they simulate a memory that does: \<open>postgres_ok\<close> says that
  some well-formed memory agrees with them.
\<close>

definition postgres_ok ::
    "(case_start \<Rightarrow> string) \<Rightarrow> (case_terminal \<Rightarrow> string) \<Rightarrow> case_tables \<Rightarrow> bool" where
  "postgres_ok sd td tb \<longleftrightarrow> (\<exists>m. memory_ok m \<and> case_simulates sd td m tb)"

lemma pg_start_simulated:
  assumes "case_simulates sd td m tb" "start_ok s" "pg_start sd s tb = Inr (tb', i)"
  obtains m' where "mem_start sd s m = Inr (m', i)" "case_simulates sd td m' tb'"
  using start_agrees [OF assms(1,2)] assms(3) by (auto elim: agree_cases)

lemma pg_finish_simulated:
  assumes "case_simulates sd td m tb"
  shows "(\<exists>err err'. mem_finish td i e t m = Inl err \<and> pg_finish td i e t tb = Inl err')
    \<or> (\<exists>m' tb'. mem_finish td i e t m = Inr m' \<and> pg_finish td i e t tb = Inr tb'
         \<and> case_simulates sd td m' tb')"
  using finish_agrees [OF assms, of i e t]
  by (cases "mem_finish td i e t m"; cases "pg_finish td i e t tb") (simp_all add: agree_def)

interpretation postgres: case_repeat_port "postgres_sink sd td" sd td "postgres_ok sd td"
  for sd td
proof
  fix \<sigma> s \<sigma>' i
  assume "postgres_ok sd td \<sigma>" and s: "start_ok s"
    and "sk_start (postgres_sink sd td) s \<sigma> = Inr (\<sigma>', i)"
  then obtain m where m: "memory_ok m" and sim: "case_simulates sd td m \<sigma>"
    and start: "pg_start sd s \<sigma> = Inr (\<sigma>', i)"
    by (auto simp: postgres_ok_def postgres_sink_def)
  obtain m' where m': "mem_start sd s m = Inr (m', i)" and sim': "case_simulates sd td m' \<sigma>'"
    by (rule pg_start_simulated [OF sim s start])
  from mem_start_reads [OF m s m'] get_agrees [OF sim', of i] sim'
  show "postgres_ok sd td \<sigma>' \<and> (\<exists>j. sk_get (postgres_sink sd td) i \<sigma>' = Inr j \<and> cj_start_digest j = sd s)"
    by (auto simp: postgres_ok_def postgres_sink_def)
next
  fix \<sigma> s \<sigma>' i
  assume "postgres_ok sd td \<sigma>" and s: "start_ok s"
    and "sk_start (postgres_sink sd td) s \<sigma> = Inr (\<sigma>', i)"
  then obtain m where m: "memory_ok m" and sim: "case_simulates sd td m \<sigma>"
    and start: "pg_start sd s \<sigma> = Inr (\<sigma>', i)"
    by (auto simp: postgres_ok_def postgres_sink_def)
  obtain m' where m': "mem_start sd s m = Inr (m', i)" and sim': "case_simulates sd td m' \<sigma>'"
    by (rule pg_start_simulated [OF sim s start])
  from start_agrees [OF sim' s] mem_start_again [OF m s m'] obtain \<sigma>''
    where "pg_start sd s \<sigma>' = Inr (\<sigma>'', i)" "case_simulates sd td m' \<sigma>''"
    by (auto elim: agree_cases)
  with get_agrees [OF sim'] get_agrees [of sd td m' \<sigma>'']
  show "\<exists>\<sigma>''. sk_start (postgres_sink sd td) s \<sigma>' = Inr (\<sigma>'', i)
      \<and> (\<forall>k. sk_get (postgres_sink sd td) k \<sigma>'' = sk_get (postgres_sink sd td) k \<sigma>')"
    by (auto simp: postgres_sink_def)
next
  fix \<sigma> s \<sigma>' i err t
  assume "postgres_ok sd td \<sigma>" and s: "start_ok s"
    and "sk_start (postgres_sink sd td) s \<sigma> = Inr (\<sigma>', i)"
    and "sk_get (postgres_sink sd td) i \<sigma> = Inl err"
  then obtain m where m: "memory_ok m" and sim: "case_simulates sd td m \<sigma>"
    and start: "pg_start sd s \<sigma> = Inr (\<sigma>', i)" and new: "pg_get i \<sigma> = Inl err"
    by (auto simp: postgres_ok_def postgres_sink_def)
  obtain m' where m': "mem_start sd s m = Inr (m', i)" and sim': "case_simulates sd td m' \<sigma>'"
    by (rule pg_start_simulated [OF sim s start])
  from mem_fresh_finish [OF m m', of err td t] new get_agrees [OF sim, of i]
    pg_finish_simulated [OF sim', of i "cs_epoch s" t]
  show "\<exists>\<sigma>''. sk_finish (postgres_sink sd td) i (cs_epoch s) t \<sigma>' = Inr \<sigma>''"
    by (auto simp: postgres_sink_def)
next
  fix \<sigma> i e t \<sigma>'
  assume "postgres_ok sd td \<sigma>" "sk_finish (postgres_sink sd td) i e t \<sigma> = Inr \<sigma>'"
  then obtain m m' where m: "memory_ok m" and sim: "case_simulates sd td m \<sigma>"
    and m': "mem_finish td i e t m = Inr m'" and sim': "case_simulates sd td m' \<sigma>'"
    using pg_finish_simulated [of sd td _ \<sigma> i e t]
    by (fastforce simp: postgres_ok_def postgres_sink_def)
  from mem_finish_reads [OF m m'] get_agrees [OF sim'] get_agrees [OF sim] sim'
  show "postgres_ok sd td \<sigma>'
      \<and> (\<exists>j. sk_get (postgres_sink sd td) i \<sigma>' = Inr j \<and> cj_terminal_digest j = Some (td t))
      \<and> (\<forall>k. k \<noteq> i \<longrightarrow> sk_get (postgres_sink sd td) k \<sigma>' = sk_get (postgres_sink sd td) k \<sigma>)"
    by (auto simp: postgres_ok_def postgres_sink_def)
next
  fix \<sigma> i j d t e
  assume ok: "postgres_ok sd td \<sigma>" and get: "sk_get (postgres_sink sd td) i \<sigma> = Inr j"
    and d: "cj_terminal_digest j = Some d" "d \<noteq> td t"
  from ok obtain m where m: "memory_ok m" and sim: "case_simulates sd td m \<sigma>"
    by (auto simp: postgres_ok_def)
  from get get_agrees [OF sim, of i] have "mem_get i m = Inr j" by (simp add: postgres_sink_def)
  from mem_finish_final [OF m this d(1), of td t e] d(2) pg_finish_simulated [OF sim, of i e t]
  show "\<exists>err. sk_finish (postgres_sink sd td) i e t \<sigma> = Inl err"
    by (auto simp: postgres_sink_def)
qed

subsection \<open>What the sinks promise\<close>

fun sink_state :: "'s case_sink \<Rightarrow> case_call list \<Rightarrow> 's \<Rightarrow> 's" where
  "sink_state sk [] \<sigma> = \<sigma>"
| "sink_state sk (c # cs) \<sigma> = sink_state sk cs (fst (sink_call sk c \<sigma>))"

lemma mem_claim_ok:
  assumes ok: "memory_ok m" and "mem_claim i w now x m = Inr (m', e)"
  shows "memory_ok m'"
proof -
  from assms obtain st st' where st: "dict_get (cm_repeats m) i = Some st"
    "reclaim_lease st now w x = Inr st'" "m' = m\<lparr>cm_repeats := dict_set (cm_repeats m) i st'\<rparr>"
    by (auto simp: mem_claim_def)
  from ok st(1) have "state_ok st" by (simp add: memory_ok_def)
  with st(2) have "state_ok st'" by (auto simp: reclaim_lease_def state_ok_def split: if_splits)
  with ok st(3) show ?thesis by (simp add: memory_ok_def update_conv')
qed

lemma memory_call_ok:
  assumes "memory_ok m" "call_ok c"
  shows "memory_ok (fst (sink_call (memory_sink sd td) c m))"
proof (cases c)
  case (Start_case s)
  with assms mem_start_reads [of m s sd] show ?thesis
    by (cases "mem_start sd s m") (auto simp: memory_sink_def)
next
  case (Finish_case i e t)
  with assms mem_finish_reads [of m td i e t] show ?thesis
    by (cases "mem_finish td i e t m") (auto simp: memory_sink_def)
next
  case (Claim_case i w now x)
  with assms mem_claim_ok [of m i w now x] show ?thesis
    by (cases "mem_claim i w now x m") (auto simp: memory_sink_def)
next
  case (Get_case i)
  with assms show ?thesis by (cases "mem_get i m") (auto simp: memory_sink_def)
qed

lemma postgres_reachable_ok:
  "memory_ok m \<Longrightarrow> case_simulates sd td m tb \<Longrightarrow> list_all call_ok cs \<Longrightarrow>
     postgres_ok sd td (sink_state (postgres_sink sd td) cs tb)"
proof (induction cs arbitrary: m tb)
  case (Cons c cs)
  from Cons.prems(3) have "call_ok c" "list_all call_ok cs" by simp_all
  with Cons.IH [OF memory_call_ok [OF Cons.prems(1) this(1), of sd td]
      conjunct2 [OF call_agrees [OF Cons.prems(2) this(1)]]]
  show ?case by simp
qed (auto simp: postgres_ok_def)

lemma empty_memory_ok: "memory_ok empty_memory"
  by (simp add: memory_ok_def empty_memory_def)

text \<open>
  C14. The in-memory case-repeat sink is the Postgres sink: for every sequence of starts,
  finishes, lease claims and reads (starts as the lifecycle builds them), the two return the
  same results call by call, with a call refused by one exactly when the other refuses it.
\<close>

theorem case_sinks_agree:
  assumes "list_all call_ok cs"
  shows "sink_run (memory_sink sd td) cs empty_memory = sink_run (postgres_sink sd td) cs empty_tables"
  by (rule run_agrees [OF initial_simulates assms])

definition demo_case :: case_start where
  "demo_case = \<lparr>cs_id = ''cr_1'', cs_key = ''r:c:0'', cs_project = ''p'', cs_run = ''r'',
     cs_case = ''c'', cs_index = 0, cs_owner = ''w1'', cs_epoch = 1, cs_expires = 100,
     cs_started = 0\<rparr>"

definition demo_terminal :: case_terminal where
  "demo_terminal = \<lparr>ct_class = Case_answered, ct_code = ''ok'', ct_attempt = None, ct_query = None,
     ct_finished = 50\<rparr>"

definition demo_calls :: "case_call list" where
  "demo_calls = [Start_case demo_case, Claim_case ''cr_1'' ''w2'' 120 300,
     Finish_case ''cr_1'' 1 demo_terminal, Finish_case ''cr_1'' 2 demo_terminal,
     Finish_case ''cr_1'' 2 demo_terminal, Start_case demo_case]"

lemma demo_case_ok: "start_ok demo_case"
  by code_simp

theorem case_sinks_agree_witness:
  "sink_run (postgres_sink cs_id ct_code) demo_calls empty_tables =
     [Started_as ''cr_1'', Claimed 2, Refused, Finished_ok, Finished_ok, Started_as ''cr_1'']"
proof -
  have "list_all call_ok demo_calls" by (simp add: demo_calls_def demo_case_ok)
  from case_sinks_agree [OF this, of cs_id ct_code]
  show ?thesis by (simp add: demo_calls_def memory_sink_def mem_start_def mem_finish_def
      mem_claim_def empty_memory_def demo_case_def demo_terminal_def prior_entry_def
      start_entry_def case_candidate_def require_entry_def commit_terminal_def
      check_lease_epoch_def reclaim_lease_def)
qed

text \<open>
  C21. A case repeat is finished once, in Postgres: after any history of calls, a repeat whose
  start was new can be finished, and after any further finishes its journal still holds that
  terminal's digest, while a finish of it with another payload is refused.
\<close>

theorem postgres_repeat_finishes_once:
  assumes "list_all call_ok cs"
    and "lf_start (postgres_sink sd td) sha lf now (sink_state (postgres_sink sd td) cs empty_tables)
           = Inr (tb1, lf_repeat_id sha lf)"
    and "pg_get (lf_repeat_id sha lf) (sink_state (postgres_sink sd td) cs empty_tables) = Inl err"
  shows "\<exists>tb2. lf_finish (postgres_sink sd td) sha lf t tb1 = Inr tb2
    \<and> (\<forall>xs tb3. rfold (\<lambda>tb (i, e, t). pg_finish td i e t tb) tb2 xs = Inr tb3 \<longrightarrow>
         (\<exists>j. pg_get (lf_repeat_id sha lf) tb3 = Inr j \<and> cj_terminal_digest j = Some (td t))
         \<and> (\<forall>t'. td t' \<noteq> td t \<longrightarrow>
              (\<exists>err. lf_finish (postgres_sink sd td) sha lf t' tb3 = Inl err)))"
  using postgres.lifecycle_once [OF postgres_reachable_ok
      [OF empty_memory_ok initial_simulates assms(1)] assms(2), of err t] assms(3)
  by (simp add: postgres_sink_def)

definition demo_lifecycle :: case_lifecycle where
  "demo_lifecycle = \<lparr>lf_project = ''p'', lf_run = ''r'', lf_case = ''c'', lf_index = 0\<rparr>"

theorem postgres_repeat_finishes_once_witness:
  "\<exists>tb1 tb2. lf_start (postgres_sink cs_id ct_code) id demo_lifecycle 5 empty_tables
        = Inr (tb1, lf_repeat_id id demo_lifecycle)
     \<and> lf_finish (postgres_sink cs_id ct_code) id demo_lifecycle demo_terminal tb1 = Inr tb2"
proof -
  obtain tb1 where start: "lf_start (postgres_sink cs_id ct_code) id demo_lifecycle 5
      (sink_state (postgres_sink cs_id ct_code) [] empty_tables) = Inr (tb1, lf_repeat_id id demo_lifecycle)"
    by (simp add: lf_start_def postgres_sink_def pg_start_def insert_ignore_def empty_tables_def
        lf_start_payload_def start_row_def started_by_key_def)
  have new: "pg_get (lf_repeat_id id demo_lifecycle)
      (sink_state (postgres_sink cs_id ct_code) [] empty_tables) = Inl Entry_not_found"
    by (simp add: pg_get_def entry_rows_def empty_tables_def)
  have "list_all call_ok []" by simp
  from postgres_repeat_finishes_once [OF this start new] start show ?thesis
    by (metis sink_state.simps(1))
qed

end
