(* ===== verification/Attempts.thy ===== *)
theory Attempts
  imports Pg_Tables
begin

text \<open>
  Planner attempts (app/business_query/plan/attempts.py): the payloads and their validators, the
  in-memory sink and the Postgres sink with their three stages (started, response committed,
  terminal). The Postgres sink simulates the in-memory one as long as no attempt ended with an
  unknown completion; there the two differ, which the last theorem shows. The digest of a payload
  is a parameter (\<open>journal_digest\<close>, SHA-256 of its canonical JSON).
\<close>

subsection \<open>Payloads\<close>

datatype terminal_class =
    Completed | Planner_protocol | Planner_semantic | Provider_error | Timeout_class
  | Cancelled_class | Completion_unknown

datatype terminal_code =
    Plan_valid | Clarification_code | Unsupported_code | Planner_empty_content
  | Planner_invalid_json | Planner_schema_invalid | Planner_shape_mismatch
  | Planner_capability_mismatch | Planner_provider_unavailable | Planner_timeout
  | Planner_cancelled | Completion_unknown_code

fun class_of_code :: "terminal_code \<Rightarrow> terminal_class" where
  "class_of_code Plan_valid = Completed"
| "class_of_code Clarification_code = Completed"
| "class_of_code Unsupported_code = Completed"
| "class_of_code Planner_empty_content = Planner_protocol"
| "class_of_code Planner_invalid_json = Planner_protocol"
| "class_of_code Planner_schema_invalid = Planner_protocol"
| "class_of_code Planner_shape_mismatch = Planner_semantic"
| "class_of_code Planner_capability_mismatch = Planner_protocol"
| "class_of_code Planner_provider_unavailable = Provider_error"
| "class_of_code Planner_timeout = Timeout_class"
| "class_of_code Planner_cancelled = Cancelled_class"
| "class_of_code Completion_unknown_code = Completion_unknown"

datatype raw_shape = Shape_empty | Json_object | Json_string | Json_array | Json_scalar | Shape_other

datatype validation_result =
  Valid_plan | Valid_clarification | Valid_unsupported | Empty_content | Invalid_json | Schema_invalid

record attempt_start =
  as_id :: string
  as_key :: string
  as_project :: string
  as_run :: string
  as_case :: string
  as_index :: nat
  as_call :: nat
  as_owner :: string
  as_epoch :: int
  as_expires :: int
  as_started :: int

record attempt_response =
  rs_digest :: string
  rs_shape :: raw_shape
  rs_result :: validation_result
  rs_plan :: "string option"
  rs_repair :: "string option"
  rs_committed :: int

record attempt_terminal =
  tm_class :: terminal_class
  tm_code :: terminal_code
  tm_duration :: nat
  tm_query :: "string option"
  tm_finished :: int

definition attempt_key :: "attempt_start \<Rightarrow> string" where
  "attempt_key s = as_run s @ '':'' @ as_case s @ '':'' @ show_nat (as_index s) @ '':''
     @ show_nat (as_call s)"

text \<open>\<open>_stable_identity_and_live_lease\<close>, \<open>_code_matches_class\<close> and the field constraints.\<close>

definition wf_start :: "attempt_start \<Rightarrow> bool" where
  "wf_start s \<longleftrightarrow> 1 \<le> as_epoch s \<and> as_key s = attempt_key s \<and> as_started s < as_expires s"

definition wf_response :: "attempt_response \<Rightarrow> bool" where
  "wf_response r \<longleftrightarrow> length (rs_digest r) = 64
     \<and> (case rs_plan r of None \<Rightarrow> True | Some f \<Rightarrow> length f = 64)"

definition wf_terminal :: "attempt_terminal \<Rightarrow> bool" where
  "wf_terminal t \<longleftrightarrow> tm_class t = class_of_code (tm_code t)"

datatype attempt_event =
  AStart attempt_start | AResponse attempt_response | ATerminal attempt_terminal

type_synonym digest = "attempt_event \<Rightarrow> string"

record attempt_journal =
  aj_start :: attempt_start
  aj_start_digest :: string
  aj_response :: "attempt_response option"
  aj_response_digest :: "string option"
  aj_terminal :: "attempt_terminal option"
  aj_terminal_digest :: "string option"

definition attempt_event_kinds :: "attempt_journal \<Rightarrow> string list" where
  "attempt_event_kinds j =
     [''started''] @ (if aj_response j \<noteq> None then [''response_committed''] else [])
     @ (if aj_terminal j \<noteq> None then [''terminal''] else [])"

type_synonym attempt_state = "(attempt_start, attempt_terminal) journal_state"

subsection \<open>The in-memory sink\<close>

record attempt_memory =
  am_attempts :: "(string, attempt_state) dict"
  am_responses :: "(string, attempt_response \<times> string) dict"
  am_keys :: "(string, string) dict"

definition no_attempts :: attempt_memory where
  "no_attempts = \<lparr>am_attempts = [], am_responses = [], am_keys = []\<rparr>"

definition attempt_count :: "attempt_memory \<Rightarrow> nat" where
  "attempt_count m = length (am_attempts m)"

definition attempt_candidate :: "digest \<Rightarrow> attempt_start \<Rightarrow> attempt_state" where
  "attempt_candidate dg s =
     \<lparr>js_start = s, js_start_digest = dg (AStart s), js_epoch = as_epoch s,
      js_owner = as_owner s, js_expires = as_expires s, js_terminal = None,
      js_terminal_digest = None\<rparr>"

definition uncertain :: "attempt_state option \<Rightarrow> bool" where
  "uncertain st =
     (case st of
        None \<Rightarrow> False
      | Some st \<Rightarrow> (case js_terminal st of None \<Rightarrow> False
                     | Some t \<Rightarrow> tm_class t = Completion_unknown))"

definition am_start ::
    "digest \<Rightarrow> attempt_start \<Rightarrow> attempt_memory \<Rightarrow> journal_error + attempt_memory \<times> string" where
  "am_start dg s m =
     (let prior = dict_get (am_keys m) (as_key s);
          by_key = (case prior of
                      Some i \<Rightarrow> if i \<noteq> [] then dict_get (am_attempts m) i else None
                    | None \<Rightarrow> None)
      in if uncertain by_key then Inl Uncertain_completion
         else rbind (start_entry (attempt_candidate dg s) by_key
                       (dict_get (am_attempts m) (as_id s))) (\<lambda>_.
           Inr (case prior of
                  Some i \<Rightarrow> (m, i)
                | None \<Rightarrow>
                    (m\<lparr>am_attempts := dict_set (am_attempts m) (as_id s) (attempt_candidate dg s),
                       am_keys := dict_set (am_keys m) (as_key s) (as_id s)\<rparr>, as_id s))))"

definition am_commit_response ::
    "digest \<Rightarrow> string \<Rightarrow> int \<Rightarrow> attempt_response \<Rightarrow> attempt_memory
      \<Rightarrow> journal_error + attempt_memory" where
  "am_commit_response dg i expected r m =
     rbind (require_entry (dict_get (am_attempts m) i)) (\<lambda>st.
     rbind (check_lease_epoch st expected) (\<lambda>_.
       if js_terminal st \<noteq> None then Inl Terminal_committed
       else (case dict_get (am_responses m) i of
               Some (_, d) \<Rightarrow> if d \<noteq> dg (AResponse r) then Inl Response_digest_mismatch else Inr m
             | None \<Rightarrow>
                 Inr (m\<lparr>am_responses := dict_set (am_responses m) i (r, dg (AResponse r))\<rparr>))))"

text \<open>The rules a terminal must keep with the response, when none is recorded yet.\<close>

definition terminal_rules :: "bool \<Rightarrow> attempt_terminal \<Rightarrow> journal_error + unit" where
  "terminal_rules responded t =
     (if tm_class t = Completed \<and> \<not> responded then Inl Response_required
      else if tm_class t = Completion_unknown \<and> responded then Inl Response_committed
      else Inr ())"

definition am_finish ::
    "digest \<Rightarrow> string \<Rightarrow> int \<Rightarrow> attempt_terminal \<Rightarrow> attempt_memory
      \<Rightarrow> journal_error + attempt_memory" where
  "am_finish dg i expected t m =
     rbind (require_entry (dict_get (am_attempts m) i)) (\<lambda>st.
     rbind (check_lease_epoch st expected) (\<lambda>_.
     rbind (if js_terminal st = None then terminal_rules (dict_get (am_responses m) i \<noteq> None) t
            else Inr ()) (\<lambda>_.
     rbind (commit_terminal st expected t (dg (ATerminal t))) (\<lambda>st'.
       Inr (m\<lparr>am_attempts := dict_set (am_attempts m) i st'\<rparr>)))))"

definition am_claim ::
    "string \<Rightarrow> string \<Rightarrow> int \<Rightarrow> int \<Rightarrow> attempt_memory
      \<Rightarrow> journal_error + attempt_memory \<times> int" where
  "am_claim i owner now expires m =
     rbind (require_entry (dict_get (am_attempts m) i)) (\<lambda>st.
     rbind (reclaim_lease st now owner expires) (\<lambda>st'.
       Inr (m\<lparr>am_attempts := dict_set (am_attempts m) i st'\<rparr>, js_epoch st')))"

definition am_get :: "string \<Rightarrow> attempt_memory \<Rightarrow> journal_error + attempt_journal" where
  "am_get i m =
     rbind (require_entry (dict_get (am_attempts m) i)) (\<lambda>st.
       Inr \<lparr>aj_start = js_start st, aj_start_digest = js_start_digest st,
            aj_response = map_option fst (dict_get (am_responses m) i),
            aj_response_digest = map_option snd (dict_get (am_responses m) i),
            aj_terminal = js_terminal st, aj_terminal_digest = js_terminal_digest st\<rparr>)"

subsection \<open>The Postgres sink\<close>

type_synonym attempt_tables = "attempt_event tables"

fun kind_of_event :: "attempt_event \<Rightarrow> event_kind" where
  "kind_of_event (AStart _) = Started"
| "kind_of_event (AResponse _) = Response_committed_kind"
| "kind_of_event (ATerminal _) = Terminal_kind"

definition attempt_row ::
    "digest \<Rightarrow> string \<Rightarrow> int \<Rightarrow> attempt_start \<Rightarrow> attempt_event \<Rightarrow> attempt_event event_row" where
  "attempt_row dg i epoch s ev =
     \<lparr>er_entry = i, er_key = as_key s, er_project = as_project s, er_run = as_run s,
      er_case = as_case s, er_index = as_index s, er_call = as_call s,
      er_kind = kind_of_event ev, er_digest = dg ev, er_event = ev, er_epoch = epoch\<rparr>"

abbreviation attempt_start_row :: "digest \<Rightarrow> attempt_start \<Rightarrow> attempt_event event_row" where
  "attempt_start_row dg s \<equiv> attempt_row dg (as_id s) (as_epoch s) s (AStart s)"

definition ap_start ::
    "digest \<Rightarrow> attempt_start \<Rightarrow> attempt_tables \<Rightarrow> journal_error + attempt_tables \<times> string" where
  "ap_start dg s tb =
     rbind (insert_ignore same_key [same_entry] (attempt_start_row dg s) tb) (\<lambda>(tb1, _).
       case started_by_key tb1 (as_key s) of
         None \<Rightarrow> Inl Start_digest_mismatch
       | Some r \<Rightarrow>
           if er_digest r \<noteq> dg (AStart s) then Inl Start_digest_mismatch
           else Inr (insert_lease_ignore (er_entry r)
                       \<lparr>lr_owner = as_owner s, lr_epoch = as_epoch s, lr_expires = as_expires s\<rparr>
                       tb1, er_entry r))"

fun start_of_event :: "attempt_event \<Rightarrow> journal_error + attempt_start" where
  "start_of_event (AStart s) = Inr s"
| "start_of_event _ = Inl Key_error"

fun response_of_event :: "attempt_event \<Rightarrow> journal_error + attempt_response" where
  "response_of_event (AResponse r) = Inr r"
| "response_of_event _ = Inl Key_error"

fun terminal_of_event :: "attempt_event \<Rightarrow> journal_error + attempt_terminal" where
  "terminal_of_event (ATerminal t) = Inr t"
| "terminal_of_event _ = Inl Key_error"

definition optional_payload ::
    "('e \<Rightarrow> journal_error + 'a) \<Rightarrow> 'e event_row option \<Rightarrow> journal_error + 'a option" where
  "optional_payload parse row =
     (case row of None \<Rightarrow> Inr None | Some r \<Rightarrow> rbind (parse (er_event r)) (\<lambda>x. Inr (Some x)))"

definition ap_get :: "string \<Rightarrow> attempt_tables \<Rightarrow> journal_error + attempt_journal" where
  "ap_get i tb =
     (let rows = entry_rows tb i in
      if rows = [] then Inl Entry_not_found
      else (case by_kind rows Started of
              None \<Rightarrow> Inl Key_error
            | Some r0 \<Rightarrow>
                rbind (start_of_event (er_event r0)) (\<lambda>s.
                rbind (optional_payload response_of_event
                         (by_kind rows Response_committed_kind)) (\<lambda>r.
                rbind (optional_payload terminal_of_event (by_kind rows Terminal_kind)) (\<lambda>t.
                  Inr \<lparr>aj_start = s, aj_start_digest = er_digest r0, aj_response = r,
                       aj_response_digest =
                         map_option er_digest (by_kind rows Response_committed_kind),
                       aj_terminal = t,
                       aj_terminal_digest = map_option er_digest (by_kind rows Terminal_kind)\<rparr>)))))"

definition ap_insert ::
    "digest \<Rightarrow> string \<Rightarrow> int \<Rightarrow> attempt_start \<Rightarrow> attempt_event \<Rightarrow> journal_error \<Rightarrow> attempt_tables
      \<Rightarrow> journal_error + attempt_tables" where
  "ap_insert dg i expected s ev mismatch tb =
     insert_conflict_digest same_entry [same_key] (attempt_row dg i expected s ev) mismatch tb"

text \<open>\<open>_append\<close>, for the event of the stage it is called with.\<close>

definition ap_append ::
    "digest \<Rightarrow> string \<Rightarrow> int \<Rightarrow> attempt_event \<Rightarrow> attempt_tables
      \<Rightarrow> journal_error + attempt_tables" where
  "ap_append dg i expected ev tb =
     (case dict_get (tb_leases tb) i of
        None \<Rightarrow> Inl Stale_lease_epoch
      | Some l \<Rightarrow>
          if lr_epoch l \<noteq> expected then Inl Stale_lease_epoch
          else rbind (ap_get i tb) (\<lambda>j.
            if aj_terminal j \<noteq> None
            then (if kind_of_event ev = Terminal_kind \<and> aj_terminal_digest j = Some (dg ev)
                  then Inr tb else Inl Terminal_committed)
            else (case ev of
                    AResponse r \<Rightarrow>
                      if aj_response j \<noteq> None
                      then (if aj_response_digest j = Some (dg ev) then Inr tb
                            else Inl Response_digest_mismatch)
                      else ap_insert dg i expected (aj_start j) ev Response_digest_mismatch tb
                  | ATerminal t \<Rightarrow>
                      rbind (terminal_rules (aj_response j \<noteq> None) t) (\<lambda>_.
                        ap_insert dg i expected (aj_start j) ev Terminal_committed tb)
                  | AStart _ \<Rightarrow> Inl Key_error)))"

definition ap_commit_response ::
    "digest \<Rightarrow> string \<Rightarrow> int \<Rightarrow> attempt_response \<Rightarrow> attempt_tables
      \<Rightarrow> journal_error + attempt_tables" where
  "ap_commit_response dg i expected r = ap_append dg i expected (AResponse r)"

definition ap_finish ::
    "digest \<Rightarrow> string \<Rightarrow> int \<Rightarrow> attempt_terminal \<Rightarrow> attempt_tables
      \<Rightarrow> journal_error + attempt_tables" where
  "ap_finish dg i expected t = ap_append dg i expected (ATerminal t)"

definition ap_claim ::
    "string \<Rightarrow> string \<Rightarrow> int \<Rightarrow> int \<Rightarrow> attempt_tables
      \<Rightarrow> journal_error + attempt_tables \<times> int" where
  "ap_claim i owner now expires tb =
     (case dict_get (tb_leases tb) i of
        None \<Rightarrow> Inl Entry_not_found
      | Some l \<Rightarrow>
          rbind (ap_get i tb) (\<lambda>j.
            if aj_terminal j \<noteq> None then Inl Terminal_committed
            else if now < lr_expires l then Inl Lease_active
            else Inr (update_lease i (lr_epoch l)
                        \<lparr>lr_owner = owner, lr_epoch = lr_epoch l + 1, lr_expires = expires\<rparr> tb,
                      lr_epoch l + 1)))"

end
