(* ===== verification/Attempts_Sim.thy ===== *)
theory Attempts_Sim
  imports Attempts
begin

text \<open>
  The Postgres sink of planner attempts simulates the in-memory one, call by call, while no
  attempt ended with an unknown completion; and what every sequence of calls keeps.
\<close>

subsection \<open>What the tables hold\<close>

definition attempt_tables_ok :: "digest \<Rightarrow> attempt_tables \<Rightarrow> bool" where
  "attempt_tables_ok dg tb \<longleftrightarrow>
     unique_events (tb_events tb)
     \<and> (\<forall>r \<in> set (tb_events tb). \<exists>s e ev. r = attempt_row dg (as_id s) e s ev
          \<and> attempt_start_row dg s \<in> set (tb_events tb) \<and> as_id s \<noteq> []
          \<and> (kind_of_event ev = Started \<longrightarrow> ev = AStart s \<and> e = as_epoch s))
     \<and> (\<forall>i. dict_has (tb_leases tb) i \<longleftrightarrow>
          (\<exists>s. attempt_start_row dg s \<in> set (tb_events tb) \<and> as_id s = i))"

lemma empty_attempts_ok: "attempt_tables_ok dg empty_tables"
  by (simp add: attempt_tables_ok_def empty_tables_def unique_events_def)

lemma attempt_row_fields [simp]:
  "er_entry (attempt_row dg i e s ev) = i" "er_key (attempt_row dg i e s ev) = as_key s"
  "er_kind (attempt_row dg i e s ev) = kind_of_event ev" "er_digest (attempt_row dg i e s ev) = dg ev"
  "er_event (attempt_row dg i e s ev) = ev"
  by (simp_all add: attempt_row_def)

lemma ap_row_is:
  assumes "attempt_tables_ok dg tb" "r \<in> set (tb_events tb)"
  obtains s e ev where "r = attempt_row dg (as_id s) e s ev"
    "attempt_start_row dg s \<in> set (tb_events tb)" "as_id s \<noteq> []"
    "kind_of_event ev = Started \<Longrightarrow> ev = AStart s \<and> e = as_epoch s"
  using assms unfolding attempt_tables_ok_def by metis

lemma ap_started_is:
  assumes "attempt_tables_ok dg tb" "r \<in> set (tb_events tb)" "er_kind r = Started"
  obtains s where "r = attempt_start_row dg s" "as_id s \<noteq> []"
  by (rule ap_row_is [OF assms(1,2)]) (use assms(3) in auto)

lemma ap_unique_events: "attempt_tables_ok dg tb \<Longrightarrow> unique_events (tb_events tb)"
  by (simp add: attempt_tables_ok_def)

lemma ap_start_unique:
  assumes "attempt_tables_ok dg tb" "attempt_start_row dg s \<in> set (tb_events tb)"
    "attempt_start_row dg s' \<in> set (tb_events tb)" "as_id s = as_id s' \<or> as_key s = as_key s'"
  shows "s = s'"
proof -
  from ap_unique_events [OF assms(1)]
  have "distinct (map (\<lambda>r. (er_entry r, er_kind r)) (tb_events tb))"
    "distinct (map (\<lambda>r. (er_key r, er_kind r)) (tb_events tb))"
    by (simp_all add: unique_events_def)
  from distinct_map_eqD [OF this(1) assms(2,3)] distinct_map_eqD [OF this(2) assms(2,3)] assms(4)
  have "attempt_start_row dg s = attempt_start_row dg s'" by auto
  then show ?thesis by (metis attempt_row_fields(5) attempt_event.inject(1))
qed

text \<open>What the log holds of the later stages.\<close>

fun response_in :: "attempt_event \<Rightarrow> attempt_response option" where
  "response_in (AResponse r) = Some r"
| "response_in _ = None"

fun terminal_in :: "attempt_event \<Rightarrow> attempt_terminal option" where
  "terminal_in (ATerminal t) = Some t"
| "terminal_in _ = None"

definition logged_response :: "attempt_tables \<Rightarrow> string \<Rightarrow> (attempt_response \<times> string) option" where
  "logged_response tb i =
     (case by_kind (entry_rows tb i) Response_committed_kind of None \<Rightarrow> None
      | Some r \<Rightarrow> map_option (\<lambda>x. (x, er_digest r)) (response_in (er_event r)))"

definition logged_final :: "attempt_tables \<Rightarrow> string \<Rightarrow> (attempt_terminal \<times> string) option" where
  "logged_final tb i =
     (case by_kind (entry_rows tb i) Terminal_kind of None \<Rightarrow> None
      | Some r \<Rightarrow> map_option (\<lambda>x. (x, er_digest r)) (terminal_in (er_event r)))"

lemma kind_eqs [simp]:
  "kind_of_event ev = Response_committed_kind \<longleftrightarrow> (\<exists>r. ev = AResponse r)"
  "kind_of_event ev = Terminal_kind \<longleftrightarrow> (\<exists>t. ev = ATerminal t)"
  "kind_of_event ev = Started \<longleftrightarrow> (\<exists>s. ev = AStart s)"
  by (cases ev; simp)+

lemma ap_by_kind_event:
  assumes ok: "attempt_tables_ok dg tb" and r: "by_kind (entry_rows tb i) k = Some r"
  shows "kind_of_event (er_event r) = k \<and> er_digest r = dg (er_event r)"
proof -
  from r have r': "r \<in> set (tb_events tb)" "er_kind r = k"
    by (simp_all add: by_kind_iff [OF ap_unique_events [OF ok]])
  obtain s e ev where "r = attempt_row dg (as_id s) e s ev"
    by (rule ap_row_is [OF ok r'(1)])
  with r'(2) show ?thesis by simp
qed

lemma logged_response_Some:
  assumes "attempt_tables_ok dg tb" "by_kind (entry_rows tb i) Response_committed_kind = Some r"
  obtains x where "er_event r = AResponse x" "er_digest r = dg (AResponse x)"
    "logged_response tb i = Some (x, dg (AResponse x))"
  using ap_by_kind_event [OF assms] assms(2) by (auto simp: logged_response_def)

lemma logged_final_Some:
  assumes "attempt_tables_ok dg tb" "by_kind (entry_rows tb i) Terminal_kind = Some r"
  obtains x where "er_event r = ATerminal x" "er_digest r = dg (ATerminal x)"
    "logged_final tb i = Some (x, dg (ATerminal x))"
  using ap_by_kind_event [OF assms] assms(2) by (auto simp: logged_final_def)

lemma logged_None_iff:
  assumes "attempt_tables_ok dg tb"
  shows "logged_response tb i = None \<longleftrightarrow> by_kind (entry_rows tb i) Response_committed_kind = None"
    and "logged_final tb i = None \<longleftrightarrow> by_kind (entry_rows tb i) Terminal_kind = None"
proof -
  show "logged_response tb i = None \<longleftrightarrow> by_kind (entry_rows tb i) Response_committed_kind = None"
    by (cases "by_kind (entry_rows tb i) Response_committed_kind")
      (auto simp: logged_response_def elim: logged_response_Some [OF assms])
  show "logged_final tb i = None \<longleftrightarrow> by_kind (entry_rows tb i) Terminal_kind = None"
    by (cases "by_kind (entry_rows tb i) Terminal_kind")
      (auto simp: logged_final_def elim: logged_final_Some [OF assms])
qed

definition journal_in :: "digest \<Rightarrow> attempt_tables \<Rightarrow> attempt_start \<Rightarrow> attempt_journal" where
  "journal_in dg tb s =
     \<lparr>aj_start = s, aj_start_digest = dg (AStart s),
      aj_response = map_option fst (logged_response tb (as_id s)),
      aj_response_digest = map_option snd (logged_response tb (as_id s)),
      aj_terminal = map_option fst (logged_final tb (as_id s)),
      aj_terminal_digest = map_option snd (logged_final tb (as_id s))\<rparr>"

lemma ap_get_started:
  assumes ok: "attempt_tables_ok dg tb" and s: "attempt_start_row dg s \<in> set (tb_events tb)"
  shows "ap_get (as_id s) tb = Inr (journal_in dg tb s)"
proof -
  let ?rows = "entry_rows tb (as_id s)"
  from s have b: "by_kind ?rows Started = Some (attempt_start_row dg s)"
    by (subst by_kind_iff [OF ap_unique_events [OF ok]]) simp
  then have ne: "?rows \<noteq> []" by (auto simp: by_kind_def)
  have r: "optional_payload response_of_event (by_kind ?rows Response_committed_kind)
      = Inr (map_option fst (logged_response tb (as_id s)))
      \<and> map_option er_digest (by_kind ?rows Response_committed_kind)
      = map_option snd (logged_response tb (as_id s))"
  proof (cases "by_kind ?rows Response_committed_kind")
    case None
    then show ?thesis by (simp add: optional_payload_def logged_response_def)
  next
    case (Some r)
    show ?thesis
      by (rule logged_response_Some [OF ok Some]) (simp add: Some optional_payload_def)
  qed
  have t: "optional_payload terminal_of_event (by_kind ?rows Terminal_kind)
      = Inr (map_option fst (logged_final tb (as_id s)))
      \<and> map_option er_digest (by_kind ?rows Terminal_kind)
      = map_option snd (logged_final tb (as_id s))"
  proof (cases "by_kind ?rows Terminal_kind")
    case None
    then show ?thesis by (simp add: optional_payload_def logged_final_def)
  next
    case (Some r)
    show ?thesis
      by (rule logged_final_Some [OF ok Some]) (simp add: Some optional_payload_def)
  qed
  from b ne r t show ?thesis by (simp add: ap_get_def Let_def journal_in_def)
qed

lemma ap_get_missing:
  assumes ok: "attempt_tables_ok dg tb" and i: "\<not> dict_has (tb_leases tb) i"
  shows "ap_get i tb = Inl Entry_not_found"
proof -
  have "er_entry r \<noteq> i" if r: "r \<in> set (tb_events tb)" for r
  proof -
    obtain s e ev where "r = attempt_row dg (as_id s) e s ev"
      "attempt_start_row dg s \<in> set (tb_events tb)"
      by (rule ap_row_is [OF ok r])
    with ok i show ?thesis by (auto simp: attempt_tables_ok_def)
  qed
  then have "entry_rows tb i = []" by (auto simp: entry_rows_def filter_empty_conv)
  then show ?thesis by (simp add: ap_get_def)
qed

subsection \<open>The simulation\<close>

definition ap_state :: "attempt_tables \<Rightarrow> string \<Rightarrow> attempt_state option" where
  "ap_state tb i =
     (case ap_get i tb of
        Inl _ \<Rightarrow> None
      | Inr j \<Rightarrow> map_option (\<lambda>l. \<lparr>js_start = aj_start j, js_start_digest = aj_start_digest j,
          js_epoch = lr_epoch l, js_owner = lr_owner l, js_expires = lr_expires l,
          js_terminal = aj_terminal j, js_terminal_digest = aj_terminal_digest j\<rparr>)
          (dict_get (tb_leases tb) i))"

definition attempt_simulates :: "digest \<Rightarrow> attempt_memory \<Rightarrow> attempt_tables \<Rightarrow> bool" where
  "attempt_simulates dg m tb \<longleftrightarrow>
     attempt_tables_ok dg tb
     \<and> (\<forall>i. dict_get (am_attempts m) i = ap_state tb i)
     \<and> (\<forall>i. dict_get (am_responses m) i = logged_response tb i)
     \<and> (\<forall>key. dict_get (am_keys m) key = map_option er_entry (started_by_key tb key))"

definition state_in :: "digest \<Rightarrow> attempt_tables \<Rightarrow> attempt_start \<Rightarrow> lease_row \<Rightarrow> attempt_state" where
  "state_in dg tb s l =
     \<lparr>js_start = s, js_start_digest = dg (AStart s), js_epoch = lr_epoch l,
      js_owner = lr_owner l, js_expires = lr_expires l,
      js_terminal = map_option fst (logged_final tb (as_id s)),
      js_terminal_digest = map_option snd (logged_final tb (as_id s))\<rparr>"

lemma ap_entry:
  assumes ok: "attempt_tables_ok dg tb"
  obtains (missing) "ap_state tb i = None" "dict_get (tb_leases tb) i = None"
      "ap_get i tb = Inl Entry_not_found"
      "\<not> (\<exists>s. attempt_start_row dg s \<in> set (tb_events tb) \<and> as_id s = i)"
  | (started) s l where "attempt_start_row dg s \<in> set (tb_events tb)" "as_id s = i" "i \<noteq> []"
      "dict_get (tb_leases tb) i = Some l" "ap_state tb i = Some (state_in dg tb s l)"
      "ap_get i tb = Inr (journal_in dg tb s)"
proof (cases "dict_has (tb_leases tb) i")
  case False
  with ap_get_missing [OF ok False] ok show ?thesis
    by (intro missing) (auto simp: ap_state_def dict_has_iff attempt_tables_ok_def)
next
  case True
  with ok obtain s where s: "attempt_start_row dg s \<in> set (tb_events tb)" "as_id s = i"
    by (auto simp: attempt_tables_ok_def)
  from True obtain l where l: "dict_get (tb_leases tb) i = Some l" by (auto simp: dict_has_iff)
  obtain s' where "attempt_start_row dg s = attempt_start_row dg s'" "as_id s' \<noteq> []"
    by (rule ap_started_is [OF ok s(1)]) simp
  then have ne: "i \<noteq> []" unfolding s(2) [symmetric] by (metis attempt_row_fields(1))
  note g = ap_get_started [OF ok s(1), unfolded s(2)]
  have "ap_state tb i = Some (state_in dg tb s l)"
    by (simp add: ap_state_def g l journal_in_def state_in_def)
  from started [OF s ne l this g] show ?thesis .
qed

lemma ap_key_is:
  assumes ok: "attempt_tables_ok dg tb"
  obtains (free) "started_by_key tb key = None"
      "\<And>r. r \<in> set (tb_events tb) \<Longrightarrow> er_kind r = Started \<Longrightarrow> er_key r \<noteq> key"
  | (taken) s where "started_by_key tb key = Some (attempt_start_row dg s)"
      "attempt_start_row dg s \<in> set (tb_events tb)" "as_key s = key"
proof (cases "started_by_key tb key")
  case None
  then show ?thesis by (intro free) (auto simp: started_by_key_None)
next
  case (Some r)
  then have r: "r \<in> set (tb_events tb)" "er_kind r = Started" "er_key r = key"
    by (simp_all add: started_by_key_iff [OF ap_unique_events [OF ok]])
  obtain s where "r = attempt_start_row dg s" by (rule ap_started_is [OF ok r(1,2)])
  with Some r taken show ?thesis by simp
qed

subsection \<open>Starting\<close>

lemma ap_targets:
  assumes ok: "attempt_tables_ok dg tb"
  shows "list_ex (same_key (attempt_start_row dg s)) (tb_events tb)
      = (started_by_key tb (as_key s) \<noteq> None)"
    and "list_ex (same_entry (attempt_start_row dg s)) (tb_events tb) = (ap_state tb (as_id s) \<noteq> None)"
proof -
  show "list_ex (same_key (attempt_start_row dg s)) (tb_events tb)
      = (started_by_key tb (as_key s) \<noteq> None)"
    by (force simp: list_ex_iff same_key_def started_by_key_None)
  have iff: "list_ex (same_entry (attempt_start_row dg s)) (tb_events tb)
      = (\<exists>s'. attempt_start_row dg s' \<in> set (tb_events tb) \<and> as_id s' = as_id s)"
  proof
    assume "list_ex (same_entry (attempt_start_row dg s)) (tb_events tb)"
    then obtain r where r: "r \<in> set (tb_events tb)" "er_kind r = Started" "er_entry r = as_id s"
      by (auto simp: list_ex_iff same_entry_def)
    obtain s' where s': "r = attempt_start_row dg s'" by (rule ap_started_is [OF ok r(1,2)])
    from r(3) have "as_id s' = as_id s" unfolding s' by simp
    with r(1) show "\<exists>s'. attempt_start_row dg s' \<in> set (tb_events tb) \<and> as_id s' = as_id s"
      unfolding s' by blast
  qed (force simp: list_ex_iff same_entry_def)
  show "list_ex (same_entry (attempt_start_row dg s)) (tb_events tb) = (ap_state tb (as_id s) \<noteq> None)"
    unfolding iff by (rule ap_entry [OF ok, of "as_id s"]) (blast, metis option.distinct(1))
qed

definition with_attempt :: "digest \<Rightarrow> attempt_start \<Rightarrow> attempt_tables \<Rightarrow> attempt_tables" where
  "with_attempt dg s tb =
     \<lparr>tb_events = tb_events tb @ [attempt_start_row dg s],
      tb_leases = dict_set (tb_leases tb) (as_id s)
        \<lparr>lr_owner = as_owner s, lr_epoch = as_epoch s, lr_expires = as_expires s\<rparr>\<rparr>"

lemma ap_start_new:
  assumes ok: "attempt_tables_ok dg tb" and key: "started_by_key tb (as_key s) = None"
  shows "ap_start dg s tb = (if ap_state tb (as_id s) \<noteq> None then Inl Unique_violation
     else Inr (with_attempt dg s tb, as_id s))"
proof -
  have nokey: "\<not> list_ex (same_key (attempt_start_row dg s)) (tb_events tb)"
    using ap_targets(1) [OF ok, of s] key by simp
  have clash: "list_ex (\<lambda>r. list_ex (\<lambda>u. u (attempt_start_row dg s) r) [same_entry]) (tb_events tb)
      = (ap_state tb (as_id s) \<noteq> None)"
    unfolding ap_targets(2) [OF ok, symmetric] by simp
  have nolease: "ap_state tb (as_id s) = None \<Longrightarrow> \<not> dict_has (tb_leases tb) (as_id s)"
    by (rule ap_entry [OF ok, of "as_id s"]) (simp_all add: dict_has_iff)
  show ?thesis
    unfolding ap_start_def insert_ignore_def clash
    using nokey key nolease by (simp add: started_by_key_snoc insert_lease_ignore_def with_attempt_def)
qed

lemma ap_start_replay:
  assumes ok: "attempt_tables_ok dg tb"
    and r: "started_by_key tb (as_key s) = Some (attempt_start_row dg s')"
    "attempt_start_row dg s' \<in> set (tb_events tb)"
  shows "ap_start dg s tb = (if dg (AStart s') \<noteq> dg (AStart s) then Inl Start_digest_mismatch
     else Inr (tb, as_id s'))"
proof -
  from r(2) have "dict_has (tb_leases tb) (as_id s')" using ok by (auto simp: attempt_tables_ok_def)
  with r(1) ap_targets(1) [OF ok, of s] show ?thesis
    by (simp add: ap_start_def insert_ignore_def insert_lease_ignore_def)
qed

lemma ap_rows_none:
  assumes "attempt_tables_ok dg tb" "ap_state tb i = None"
  shows "entry_rows tb i = []"
proof (rule ap_entry [OF assms(1), of i])
  assume none: "\<not> (\<exists>s. attempt_start_row dg s \<in> set (tb_events tb) \<and> as_id s = i)"
  have "er_entry r \<noteq> i" if r: "r \<in> set (tb_events tb)" for r
    by (rule ap_row_is [OF assms(1) r]) (use none in auto)
  then show ?thesis by (auto simp: entry_rows_def filter_empty_conv)
qed (use assms(2) in simp)

lemma with_attempt_ok:
  assumes ok: "attempt_tables_ok dg tb" and id: "as_id s \<noteq> []"
    and key: "started_by_key tb (as_key s) = None" and new: "ap_state tb (as_id s) = None"
  shows "attempt_tables_ok dg (with_attempt dg s tb)"
proof -
  have "\<not> list_ex (same_key (attempt_start_row dg s)) (tb_events tb)"
    "\<not> list_ex (same_entry (attempt_start_row dg s)) (tb_events tb)"
    using ap_targets [OF ok, of s] key new by simp_all
  then have u: "unique_events (tb_events (with_attempt dg s tb))"
    using ap_unique_events [OF ok] by (simp add: with_attempt_def unique_events_snoc)
  have inj: "attempt_start_row dg s' = attempt_start_row dg s \<longleftrightarrow> s' = s" for s'
    by (metis attempt_row_fields(5) attempt_event.inject(1))
  show ?thesis
    unfolding attempt_tables_ok_def
  proof (intro conjI ballI allI)
    fix r
    assume "r \<in> set (tb_events (with_attempt dg s tb))"
    then consider "r \<in> set (tb_events tb)" | "r = attempt_start_row dg s"
      by (auto simp: with_attempt_def)
    then show "\<exists>s' e ev. r = attempt_row dg (as_id s') e s' ev
        \<and> attempt_start_row dg s' \<in> set (tb_events (with_attempt dg s tb)) \<and> as_id s' \<noteq> []
        \<and> (kind_of_event ev = Started \<longrightarrow> ev = AStart s' \<and> e = as_epoch s')"
    proof cases
      case 1
      show ?thesis
      proof (rule ap_row_is [OF ok 1])
        fix s' e ev
        assume "r = attempt_row dg (as_id s') e s' ev"
          "attempt_start_row dg s' \<in> set (tb_events tb)" "as_id s' \<noteq> []"
          "kind_of_event ev = Started \<Longrightarrow> ev = AStart s' \<and> e = as_epoch s'"
        then show ?thesis
          by (intro exI [of _ s'] exI [of _ e] exI [of _ ev]) (simp add: with_attempt_def)
      qed
    next
      case 2
      with id show ?thesis
        by (intro exI [of _ s] exI [of _ "as_epoch s"] exI [of _ "AStart s"])
          (simp add: with_attempt_def)
    qed
  next
    fix i
    show "dict_has (tb_leases (with_attempt dg s tb)) i =
        (\<exists>s'. attempt_start_row dg s' \<in> set (tb_events (with_attempt dg s tb)) \<and> as_id s' = i)"
      using ok by (auto simp: with_attempt_def attempt_tables_ok_def inj)
  qed (rule u)
qed

lemma with_attempt_simulates:
  assumes sim: "attempt_simulates dg m tb" and id: "as_id s \<noteq> []"
    and key: "started_by_key tb (as_key s) = None" and new: "ap_state tb (as_id s) = None"
  shows "attempt_simulates dg
    (m\<lparr>am_attempts := dict_set (am_attempts m) (as_id s) (attempt_candidate dg s),
       am_keys := dict_set (am_keys m) (as_key s) (as_id s)\<rparr>) (with_attempt dg s tb)"
proof -
  let ?tb = "with_attempt dg s tb"
  from sim have ok: "attempt_tables_ok dg tb" by (simp add: attempt_simulates_def)
  note ok' = with_attempt_ok [OF ok id key new] and none = ap_rows_none [OF ok new]
  have rows: "entry_rows ?tb i = entry_rows tb i
      @ (if as_id s = i then [attempt_start_row dg s] else [])" for i
    by (simp add: with_attempt_def entry_rows_def)
  have state: "ap_state ?tb i = (if i = as_id s then Some (attempt_candidate dg s) else ap_state tb i)" for i
  proof (cases "i = as_id s")
    case True
    with rows [of i] none have "ap_get i ?tb = Inr \<lparr>aj_start = s, aj_start_digest = dg (AStart s),
        aj_response = None, aj_response_digest = None, aj_terminal = None, aj_terminal_digest = None\<rparr>"
      by (simp add: ap_get_def Let_def by_kind_def optional_payload_def)
    with True show ?thesis
      by (simp add: ap_state_def with_attempt_def attempt_candidate_def update_conv')
  next
    case False
    then have "ap_get i ?tb = ap_get i tb" by (simp add: ap_get_def rows)
    with False show ?thesis
      by (cases "ap_get i tb") (simp_all add: ap_state_def with_attempt_def update_conv')
  qed
  have resp: "logged_response ?tb i = logged_response tb i" for i
    using none by (cases "i = as_id s") (simp_all add: logged_response_def rows by_kind_def)
  have "started_by_key ?tb k = (if k = as_key s then Some (attempt_start_row dg s)
      else started_by_key tb k)" for k
    using started_by_key_snoc [of tb "attempt_start_row dg s" k] key
    by (auto simp: with_attempt_def started_by_key_def split: option.split)
  with sim ok' state resp show ?thesis by (simp add: attempt_simulates_def update_conv')
qed

lemma attempt_start_agrees:
  assumes sim: "attempt_simulates dg m tb" and id: "as_id s \<noteq> []"
    and certain: "\<And>i. \<not> uncertain (dict_get (am_attempts m) i)"
  shows "agree (attempt_simulates dg) (am_start dg s m) (ap_start dg s tb)"
proof -
  from sim have ok: "attempt_tables_ok dg tb"
    and reps: "\<And>i. dict_get (am_attempts m) i = ap_state tb i"
    and keys: "\<And>k. dict_get (am_keys m) k = map_option er_entry (started_by_key tb k)"
    by (simp_all add: attempt_simulates_def)
  show ?thesis
  proof (rule ap_key_is [OF ok, of "as_key s"])
    assume none: "started_by_key tb (as_key s) = None"
    have mem: "am_start dg s m = (if ap_state tb (as_id s) \<noteq> None then Inl Entry_id_exists
       else Inr (m\<lparr>am_attempts := dict_set (am_attempts m) (as_id s) (attempt_candidate dg s),
                  am_keys := dict_set (am_keys m) (as_key s) (as_id s)\<rparr>, as_id s))"
      by (simp add: am_start_def Let_def keys none start_entry_def reps uncertain_def)
    show ?thesis
      unfolding mem ap_start_new [OF ok none] using with_attempt_simulates [OF sim id none] by simp
  next
    fix s'
    assume taken: "started_by_key tb (as_key s) = Some (attempt_start_row dg s')"
      and s': "attempt_start_row dg s' \<in> set (tb_events tb)"
    obtain l where "as_id s' \<noteq> []" "ap_state tb (as_id s') = Some (state_in dg tb s' l)"
    proof (rule ap_entry [OF ok, of "as_id s'"])
      fix s2 l
      assume "attempt_start_row dg s2 \<in> set (tb_events tb)" "as_id s2 = as_id s'" "as_id s' \<noteq> []"
        "ap_state tb (as_id s') = Some (state_in dg tb s2 l)"
      moreover from this have "s2 = s'" by (intro ap_start_unique [OF ok _ s']) auto
      ultimately show ?thesis using that by simp
    qed (use s' in blast)
    then have "am_start dg s m = (if dg (AStart s') \<noteq> dg (AStart s) then Inl Start_digest_mismatch
        else Inr (m, as_id s'))"
      using certain [of "as_id s'"] by (simp add: am_start_def Let_def keys taken start_entry_def
          reps attempt_candidate_def) (simp add: state_in_def)
    with ap_start_replay [OF ok taken s'] sim show ?thesis by simp
  qed
qed

subsection \<open>The later stages\<close>

definition with_event ::
    "digest \<Rightarrow> attempt_start \<Rightarrow> int \<Rightarrow> attempt_event \<Rightarrow> attempt_tables \<Rightarrow> attempt_tables" where
  "with_event dg s e ev tb =
     tb\<lparr>tb_events := tb_events tb @ [attempt_row dg (as_id s) e s ev]\<rparr>"

text \<open>A stage the entry has not reached: its row is free of every constraint.\<close>

definition stage_free :: "digest \<Rightarrow> attempt_tables \<Rightarrow> attempt_start \<Rightarrow> attempt_event \<Rightarrow> bool" where
  "stage_free dg tb s ev \<longleftrightarrow>
     attempt_tables_ok dg tb \<and> attempt_start_row dg s \<in> set (tb_events tb)
     \<and> (\<forall>s'. ev \<noteq> AStart s') \<and> by_kind (entry_rows tb (as_id s)) (kind_of_event ev) = None"

lemma stage_free_unique:
  assumes "stage_free dg tb s ev"
  shows "\<not> list_ex (same_entry (attempt_row dg (as_id s) e s ev)) (tb_events tb)"
    and "\<not> list_ex (same_key (attempt_row dg (as_id s) e s ev)) (tb_events tb)"
proof -
  from assms have ok: "attempt_tables_ok dg tb" and s: "attempt_start_row dg s \<in> set (tb_events tb)"
    and free: "by_kind (entry_rows tb (as_id s)) (kind_of_event ev) = None"
    by (simp_all add: stage_free_def)
  show "\<not> list_ex (same_entry (attempt_row dg (as_id s) e s ev)) (tb_events tb)"
    using free by (auto simp: by_kind_None list_ex_iff same_entry_def)
  show "\<not> list_ex (same_key (attempt_row dg (as_id s) e s ev)) (tb_events tb)"
  proof
    assume "list_ex (same_key (attempt_row dg (as_id s) e s ev)) (tb_events tb)"
    then obtain r where r: "r \<in> set (tb_events tb)" "er_kind r = kind_of_event ev"
      "er_key r = as_key s"
      by (auto simp: list_ex_iff same_key_def)
    obtain s' e' ev' where s': "r = attempt_row dg (as_id s') e' s' ev'"
      "attempt_start_row dg s' \<in> set (tb_events tb)"
      by (rule ap_row_is [OF ok r(1)])
    from r(3) s'(1) have "s' = s" by (intro ap_start_unique [OF ok s'(2) s]) simp
    with free r s'(1) show False by (auto simp: by_kind_None)
  qed
qed

lemma with_event_ok:
  assumes free: "stage_free dg tb s ev"
  shows "attempt_tables_ok dg (with_event dg s e ev tb)"
proof -
  let ?row = "attempt_row dg (as_id s) e s ev"
  from free have ok: "attempt_tables_ok dg tb" and s: "attempt_start_row dg s \<in> set (tb_events tb)"
    and ev: "\<And>s'. ev \<noteq> AStart s'"
    by (simp_all add: stage_free_def)
  have u: "unique_events (tb_events (with_event dg s e ev tb))"
    using stage_free_unique [OF free] ap_unique_events [OF ok]
    by (simp add: with_event_def unique_events_snoc)
  have neq: "attempt_start_row dg s' \<noteq> ?row" for s'
    using ev by (metis attempt_row_fields(5))
  have id: "as_id s \<noteq> []"
    by (rule ap_started_is [OF ok s]) (simp, metis attempt_row_fields(1))
  show ?thesis
    unfolding attempt_tables_ok_def
  proof (intro conjI ballI allI)
    fix r
    assume "r \<in> set (tb_events (with_event dg s e ev tb))"
    then consider "r \<in> set (tb_events tb)" | "r = ?row" by (auto simp: with_event_def)
    then show "\<exists>s' e' ev'. r = attempt_row dg (as_id s') e' s' ev'
        \<and> attempt_start_row dg s' \<in> set (tb_events (with_event dg s e ev tb)) \<and> as_id s' \<noteq> []
        \<and> (kind_of_event ev' = Started \<longrightarrow> ev' = AStart s' \<and> e' = as_epoch s')"
    proof cases
      case 1
      show ?thesis
      proof (rule ap_row_is [OF ok 1])
        fix s' e' ev'
        assume "r = attempt_row dg (as_id s') e' s' ev'"
          "attempt_start_row dg s' \<in> set (tb_events tb)" "as_id s' \<noteq> []"
          "kind_of_event ev' = Started \<Longrightarrow> ev' = AStart s' \<and> e' = as_epoch s'"
        then show ?thesis
          by (intro exI [of _ s'] exI [of _ e'] exI [of _ ev']) (simp add: with_event_def)
      qed
    next
      case 2
      with s id ev show ?thesis
        by (intro exI [of _ s] exI [of _ e] exI [of _ ev]) (simp add: with_event_def)
    qed
  next
    fix i
    show "dict_has (tb_leases (with_event dg s e ev tb)) i =
        (\<exists>s'. attempt_start_row dg s' \<in> set (tb_events (with_event dg s e ev tb)) \<and> as_id s' = i)"
      using ok neq by (simp add: with_event_def attempt_tables_ok_def)
  qed (rule u)
qed

lemma ap_insert_free:
  assumes "stage_free dg tb s ev"
  shows "ap_insert dg (as_id s) e s ev mm tb = Inr (with_event dg s e ev tb)"
proof -
  have "\<not> list_ex (\<lambda>r. list_ex (\<lambda>u. u (attempt_row dg (as_id s) e s ev) r) [same_key]) (tb_events tb)"
    using stage_free_unique(2) [OF assms, of e] by simp
  with stage_free_unique(1) [OF assms, of e] show ?thesis
    by (simp add: ap_insert_def insert_conflict_digest_def insert_ignore_def with_event_def)
qed

lemma logged_with_event:
  "logged_response (with_event dg s e ev tb) i =
     (if i = as_id s \<and> kind_of_event ev = Response_committed_kind
      then map_option (\<lambda>x. (x, dg ev)) (response_in ev) else logged_response tb i)"
  "logged_final (with_event dg s e ev tb) i =
     (if i = as_id s \<and> kind_of_event ev = Terminal_kind
      then map_option (\<lambda>x. (x, dg ev)) (terminal_in ev) else logged_final tb i)"
  by (auto simp: logged_response_def logged_final_def with_event_def by_kind_snoc)

lemma with_event_state:
  assumes free: "stage_free dg tb s ev" and l: "dict_get (tb_leases tb) (as_id s) = Some l"
  shows "ap_state (with_event dg s e ev tb) i =
    (if i = as_id s then Some (state_in dg (with_event dg s e ev tb) s l) else ap_state tb i)"
proof (cases "i = as_id s")
  case True
  from free have "attempt_start_row dg s \<in> set (tb_events (with_event dg s e ev tb))"
    by (simp add: stage_free_def with_event_def)
  from ap_get_started [OF with_event_ok [OF free] this] l True show ?thesis
    by (simp add: ap_state_def journal_in_def state_in_def) (simp add: with_event_def)
next
  case False
  then have "ap_get i (with_event dg s e ev tb) = ap_get i tb"
    by (simp add: ap_get_def with_event_def entry_rows_def)
  with False show ?thesis
    by (cases "ap_get i tb") (simp_all add: ap_state_def with_event_def)
qed

lemma with_event_key:
  "(\<forall>s'. ev \<noteq> AStart s') \<Longrightarrow> started_by_key (with_event dg s e ev tb) k = started_by_key tb k"
  by (simp add: with_event_def started_by_key_snoc split: option.split)

lemma attempt_memory_same [simp]:
  "m\<lparr>am_attempts := am_attempts m\<rparr> = (m :: attempt_memory)"
  by (cases m) simp

text \<open>What \<open>_append\<close> does for a leased entry, by what the log holds.\<close>

lemma ap_append_started:
  assumes "dict_get (tb_leases tb) i = Some l" "lr_epoch l = e"
    and "ap_get i tb = Inr (journal_in dg tb s)" "as_id s = i"
  shows "ap_append dg i e (AResponse r) tb =
      (if logged_final tb i \<noteq> None then Inl Terminal_committed
       else case logged_response tb i of
         Some (_, d) \<Rightarrow> if d = dg (AResponse r) then Inr tb else Inl Response_digest_mismatch
       | None \<Rightarrow> ap_insert dg i e s (AResponse r) Response_digest_mismatch tb)"
    and "ap_append dg i e (ATerminal t) tb =
      (case logged_final tb i of
         Some (_, d) \<Rightarrow> if d = dg (ATerminal t) then Inr tb else Inl Terminal_committed
       | None \<Rightarrow> rbind (terminal_rules (logged_response tb i \<noteq> None) t) (\<lambda>_.
           ap_insert dg i e s (ATerminal t) Terminal_committed tb))"
  using assms
  by (simp_all add: ap_append_def journal_in_def split: option.split)

definition agree_unit ::
    "('m \<Rightarrow> 'p \<Rightarrow> bool) \<Rightarrow> journal_error + 'm \<Rightarrow> journal_error + 'p \<Rightarrow> bool" where
  "agree_unit R a b =
     (case (a, b) of (Inl _, Inl _) \<Rightarrow> True | (Inr m, Inr p) \<Rightarrow> R m p | _ \<Rightarrow> False)"

lemma agree_unit_simps [simp]:
  "agree_unit R (Inl x) (Inl y)" "agree_unit R (Inr m) (Inr p) = R m p"
  by (simp_all add: agree_unit_def)

lemma response_agrees:
  assumes sim: "attempt_simulates dg m tb"
  shows "agree_unit (attempt_simulates dg) (am_commit_response dg i e r m)
    (ap_commit_response dg i e r tb)"
proof -
  from sim have ok: "attempt_tables_ok dg tb"
    and reps: "\<And>i. dict_get (am_attempts m) i = ap_state tb i"
    and resp: "\<And>i. dict_get (am_responses m) i = logged_response tb i"
    and keys: "\<And>k. dict_get (am_keys m) k = map_option er_entry (started_by_key tb k)"
    by (simp_all add: attempt_simulates_def)
  show ?thesis
  proof (rule ap_entry [OF ok, of i])
    assume "ap_state tb i = None" "dict_get (tb_leases tb) i = None"
    then show ?thesis
      by (simp add: am_commit_response_def require_entry_def reps ap_commit_response_def ap_append_def)
  next
    fix s l
    assume s: "attempt_start_row dg s \<in> set (tb_events tb)" "as_id s = i"
      and l: "dict_get (tb_leases tb) i = Some l" and st: "ap_state tb i = Some (state_in dg tb s l)"
      and g: "ap_get i tb = Inr (journal_in dg tb s)"
    show ?thesis
    proof (cases "lr_epoch l = e")
      case False
      with l st show ?thesis
        by (simp add: am_commit_response_def require_entry_def reps state_in_def
            check_lease_epoch_def ap_commit_response_def ap_append_def)
    next
      case True
      note pg = ap_append_started(1) [OF l True g s(2), of r]
      have mem: "am_commit_response dg i e r m =
        (if logged_final tb i \<noteq> None then Inl Terminal_committed
         else case logged_response tb i of
           Some (_, d) \<Rightarrow> if d \<noteq> dg (AResponse r) then Inl Response_digest_mismatch else Inr m
         | None \<Rightarrow> Inr (m\<lparr>am_responses := dict_set (am_responses m) i (r, dg (AResponse r))\<rparr>))"
        using True s(2) by (simp add: am_commit_response_def require_entry_def reps st resp
            state_in_def check_lease_epoch_def)
      show ?thesis
      proof (cases "logged_final tb i = None \<and> logged_response tb i = None")
        case False
        with sim show ?thesis
          unfolding ap_commit_response_def pg mem by (auto split: option.splits)
      next
        case none: True
        then have free: "stage_free dg tb s (AResponse r)"
          using ok s logged_None_iff(1) [OF ok, of i] by (simp add: stage_free_def)
        let ?p = "with_event dg s e (AResponse r) tb"
        from l s(2) have l': "dict_get (tb_leases tb) (as_id s) = Some l" by simp
        have "ap_state ?p j = ap_state tb j" for j
          using with_event_state [OF free l', of e j] st s(2)
          by (simp add: state_in_def logged_with_event)
        moreover have "logged_response ?p j = (if j = i then Some (r, dg (AResponse r))
            else logged_response tb j)" for j
          using s(2) by (simp add: logged_with_event)
        moreover have "started_by_key ?p k = started_by_key tb k" for k
          by (rule with_event_key) simp
        ultimately have "attempt_simulates dg
            (m\<lparr>am_responses := dict_set (am_responses m) i (r, dg (AResponse r))\<rparr>) ?p"
          using with_event_ok [OF free, of e] reps resp keys
          by (simp add: attempt_simulates_def update_conv')
        with none ap_insert_free [OF free, of e Response_digest_mismatch] s(2) show ?thesis
          unfolding ap_commit_response_def pg mem by simp
      qed
    qed
  qed
qed

lemma attempt_finish_agrees:
  assumes sim: "attempt_simulates dg m tb"
  shows "agree_unit (attempt_simulates dg) (am_finish dg i e t m) (ap_finish dg i e t tb)"
proof -
  from sim have ok: "attempt_tables_ok dg tb"
    and reps: "\<And>i. dict_get (am_attempts m) i = ap_state tb i"
    and resp: "\<And>i. dict_get (am_responses m) i = logged_response tb i"
    and keys: "\<And>k. dict_get (am_keys m) k = map_option er_entry (started_by_key tb k)"
    by (simp_all add: attempt_simulates_def)
  show ?thesis
  proof (rule ap_entry [OF ok, of i])
    assume "ap_state tb i = None" "dict_get (tb_leases tb) i = None"
    then show ?thesis by (simp add: am_finish_def require_entry_def reps ap_finish_def ap_append_def)
  next
    fix s l
    assume s: "attempt_start_row dg s \<in> set (tb_events tb)" "as_id s = i"
      and l: "dict_get (tb_leases tb) i = Some l" and st: "ap_state tb i = Some (state_in dg tb s l)"
      and g: "ap_get i tb = Inr (journal_in dg tb s)"
    show ?thesis
    proof (cases "lr_epoch l = e")
      case False
      with l st show ?thesis
        by (simp add: am_finish_def require_entry_def reps state_in_def check_lease_epoch_def
            ap_finish_def ap_append_def)
    next
      case True
      note pg = ap_append_started(2) [OF l True g s(2), of t]
      show ?thesis
      proof (cases "logged_final tb i")
        case (Some x)
        have "dict_set (am_attempts m) i (state_in dg tb s l) = am_attempts m"
          using st by (intro update_Some_same) (simp add: reps)
        with Some True st s(2) sim show ?thesis
          unfolding ap_finish_def pg
          by (auto simp: am_finish_def require_entry_def reps check_lease_epoch_def
              commit_terminal_def state_in_def split: prod.split)
      next
        case None
        let ?st = "(state_in dg tb s l)\<lparr>js_terminal := Some t, js_terminal_digest := Some (dg (ATerminal t))\<rparr>"
        have mem: "am_finish dg i e t m = rbind (terminal_rules (logged_response tb i \<noteq> None) t)
            (\<lambda>_. Inr (m\<lparr>am_attempts := dict_set (am_attempts m) i ?st\<rparr>))"
          using None True s(2) by (simp add: am_finish_def require_entry_def reps st resp
              check_lease_epoch_def commit_terminal_def state_in_def)
        from None ok s have free: "stage_free dg tb s (ATerminal t)"
          using logged_None_iff(2) [OF ok, of i] by (simp add: stage_free_def)
        let ?p = "with_event dg s e (ATerminal t) tb"
        from l s(2) have l': "dict_get (tb_leases tb) (as_id s) = Some l" by simp
        have "ap_state ?p j = (if j = i then Some ?st else ap_state tb j)" for j
          using with_event_state [OF free l', of e j] s(2)
          by (simp add: state_in_def logged_with_event)
        moreover have "logged_response ?p j = logged_response tb j" for j
          by (simp add: logged_with_event)
        moreover have "started_by_key ?p k = started_by_key tb k" for k
          by (rule with_event_key) simp
        ultimately have "attempt_simulates dg
            (m\<lparr>am_attempts := dict_set (am_attempts m) i ?st\<rparr>) ?p"
          using with_event_ok [OF free, of e] reps resp keys
          by (simp add: attempt_simulates_def update_conv')
        with None ap_insert_free [OF free, of e Terminal_committed] s(2) show ?thesis
          unfolding ap_finish_def pg mem
          by (cases "terminal_rules (logged_response tb i \<noteq> None) t") simp_all
      qed
    qed
  qed
qed

lemma attempt_claim_agrees:
  assumes sim: "attempt_simulates dg m tb"
  shows "agree (attempt_simulates dg) (am_claim i w now x m) (ap_claim i w now x tb)"
proof -
  from sim have ok: "attempt_tables_ok dg tb"
    and reps: "\<And>i. dict_get (am_attempts m) i = ap_state tb i"
    and resp: "\<And>i. dict_get (am_responses m) i = logged_response tb i"
    and keys: "\<And>k. dict_get (am_keys m) k = map_option er_entry (started_by_key tb k)"
    by (simp_all add: attempt_simulates_def)
  show ?thesis
  proof (rule ap_entry [OF ok, of i])
    assume "ap_state tb i = None" "dict_get (tb_leases tb) i = None"
    then show ?thesis by (simp add: am_claim_def require_entry_def reps ap_claim_def)
  next
    fix s l
    assume s: "attempt_start_row dg s \<in> set (tb_events tb)" "as_id s = i"
      and l: "dict_get (tb_leases tb) i = Some l" and st: "ap_state tb i = Some (state_in dg tb s l)"
      and g: "ap_get i tb = Inr (journal_in dg tb s)"
    show ?thesis
    proof (cases "logged_final tb i \<noteq> None \<or> now < lr_expires l")
      case True
      with l st g s(2) show ?thesis
        by (auto simp: am_claim_def require_entry_def reps state_in_def reclaim_lease_def
            ap_claim_def journal_in_def)
    next
      case False
      let ?l = "\<lparr>lr_owner = w, lr_epoch = lr_epoch l + 1, lr_expires = x\<rparr>"
      let ?p = "tb\<lparr>tb_leases := dict_set (tb_leases tb) i ?l\<rparr>"
      have gets: "ap_get j ?p = ap_get j tb" for j by (simp add: ap_get_def entry_rows_def)
      have logs: "logged_response ?p j = logged_response tb j" "logged_final ?p j = logged_final tb j"
        "started_by_key ?p k = started_by_key tb k" for j k
        by (simp_all add: logged_response_def logged_final_def entry_rows_def started_by_key_def)
      have "dict_has (tb_leases tb) i" using l by (simp add: dict_has_iff)
      with ok have ok': "attempt_tables_ok dg ?p" by (auto simp: attempt_tables_ok_def)
      have state: "ap_state ?p j = (if j = i then Some (state_in dg tb s ?l) else ap_state tb j)" for j
        using g s(2) by (cases "ap_get j tb")
          (auto simp: ap_state_def gets state_in_def journal_in_def update_conv')
      with ok' reps resp keys have "attempt_simulates dg
          (m\<lparr>am_attempts := dict_set (am_attempts m) i (state_in dg tb s ?l)\<rparr>) ?p"
        by (simp add: attempt_simulates_def update_conv' logs)
      with False l st g s(2) show ?thesis
        by (simp add: am_claim_def require_entry_def reps reclaim_lease_def ap_claim_def
            update_lease_def journal_in_def state_in_def)
    qed
  qed
qed

lemma attempt_get_agrees:
  assumes sim: "attempt_simulates dg m tb"
  shows "am_get i m = ap_get i tb"
proof -
  from sim have ok: "attempt_tables_ok dg tb"
    and reps: "\<And>i. dict_get (am_attempts m) i = ap_state tb i"
    and resp: "\<And>i. dict_get (am_responses m) i = logged_response tb i"
    by (simp_all add: attempt_simulates_def)
  show ?thesis
    by (rule ap_entry [OF ok, of i])
      (simp_all add: am_get_def require_entry_def reps resp state_in_def journal_in_def)
qed

subsection \<open>Any sequence of calls\<close>

datatype attempt_call =
    Start_attempt attempt_start
  | Commit_response string int attempt_response
  | Finish_attempt string int attempt_terminal
  | Claim_attempt string string int int
  | Get_attempt string

datatype attempt_result =
  Refused_call | Attempt_id string | Committed_ok | Claimed_epoch int | Attempt_journal attempt_journal

definition settled :: "'s \<Rightarrow> journal_error + 's \<times> attempt_result \<Rightarrow> 's \<times> attempt_result" where
  "settled \<sigma> r = (case r of Inl _ \<Rightarrow> (\<sigma>, Refused_call) | Inr x \<Rightarrow> x)"

fun am_call :: "digest \<Rightarrow> attempt_call \<Rightarrow> attempt_memory \<Rightarrow> attempt_memory \<times> attempt_result" where
  "am_call dg (Start_attempt s) m =
     settled m (rbind (am_start dg s m) (\<lambda>(m', i). Inr (m', Attempt_id i)))"
| "am_call dg (Commit_response i e r) m =
     settled m (rbind (am_commit_response dg i e r m) (\<lambda>m'. Inr (m', Committed_ok)))"
| "am_call dg (Finish_attempt i e t) m =
     settled m (rbind (am_finish dg i e t m) (\<lambda>m'. Inr (m', Committed_ok)))"
| "am_call dg (Claim_attempt i w now x) m =
     settled m (rbind (am_claim i w now x m) (\<lambda>(m', e). Inr (m', Claimed_epoch e)))"
| "am_call dg (Get_attempt i) m =
     settled m (rbind (am_get i m) (\<lambda>j. Inr (m, Attempt_journal j)))"

fun ap_call :: "digest \<Rightarrow> attempt_call \<Rightarrow> attempt_tables \<Rightarrow> attempt_tables \<times> attempt_result" where
  "ap_call dg (Start_attempt s) tb =
     settled tb (rbind (ap_start dg s tb) (\<lambda>(tb', i). Inr (tb', Attempt_id i)))"
| "ap_call dg (Commit_response i e r) tb =
     settled tb (rbind (ap_commit_response dg i e r tb) (\<lambda>tb'. Inr (tb', Committed_ok)))"
| "ap_call dg (Finish_attempt i e t) tb =
     settled tb (rbind (ap_finish dg i e t tb) (\<lambda>tb'. Inr (tb', Committed_ok)))"
| "ap_call dg (Claim_attempt i w now x) tb =
     settled tb (rbind (ap_claim i w now x tb) (\<lambda>(tb', e). Inr (tb', Claimed_epoch e)))"
| "ap_call dg (Get_attempt i) tb =
     settled tb (rbind (ap_get i tb) (\<lambda>j. Inr (tb, Attempt_journal j)))"

fun run_calls :: "('c \<Rightarrow> 's \<Rightarrow> 's \<times> 'r) \<Rightarrow> 'c list \<Rightarrow> 's \<Rightarrow> 's \<times> 'r list" where
  "run_calls f [] \<sigma> = (\<sigma>, [])"
| "run_calls f (c # cs) \<sigma> =
     (case f c \<sigma> of (\<sigma>', r) \<Rightarrow> (case run_calls f cs \<sigma>' of (\<sigma>'', rs) \<Rightarrow> (\<sigma>'', r # rs)))"

text \<open>Starts have an id, and no call ends an attempt with an unknown completion.\<close>

fun certain_call :: "attempt_call \<Rightarrow> bool" where
  "certain_call (Start_attempt s) = (as_id s \<noteq> [])"
| "certain_call (Finish_attempt i e t) = (tm_class t \<noteq> Completion_unknown)"
| "certain_call _ = True"

definition certain_memory :: "attempt_memory \<Rightarrow> bool" where
  "certain_memory m \<longleftrightarrow> (\<forall>i. \<not> uncertain (dict_get (am_attempts m) i))"

lemma certain_set:
  assumes "certain_memory m" "\<not> uncertain (Some st)"
  shows "certain_memory (m\<lparr>am_attempts := dict_set (am_attempts m) i st, am_keys := ks\<rparr>)"
    "certain_memory (m\<lparr>am_attempts := dict_set (am_attempts m) i st\<rparr>)"
  using assms by (simp_all add: certain_memory_def update_conv')

lemma certain_call_keeps:
  assumes m: "certain_memory m" and c: "certain_call c"
  shows "certain_memory (fst (am_call dg c m))"
proof (cases c)
  case (Start_attempt s)
  have "\<not> uncertain (Some (attempt_candidate dg s))" by (simp add: uncertain_def attempt_candidate_def)
  from certain_set(1) [OF m this] m show ?thesis
    by (simp add: Start_attempt am_start_def Let_def settled_def start_entry_def
        split: option.split)
next
  case (Commit_response i e r)
  have "certain_memory (m\<lparr>am_responses := x\<rparr>)" for x using m by (simp add: certain_memory_def)
  with m show ?thesis
    by (auto simp: Commit_response am_commit_response_def settled_def require_entry_def
        check_lease_epoch_def split: option.split)
next
  case (Finish_attempt i e t)
  show ?thesis
  proof (cases "am_finish dg i e t m")
    case (Inr m')
    then obtain st st' where st: "dict_get (am_attempts m) i = Some st"
      "commit_terminal st e t (dg (ATerminal t)) = Inr st'"
      and m': "m' = m\<lparr>am_attempts := dict_set (am_attempts m) i st'\<rparr>"
      by (auto simp: am_finish_def)
    from m st(1) have "\<not> uncertain (Some st)" unfolding certain_memory_def by metis
    with st(2) c have "\<not> uncertain (Some st')"
      by (auto simp: Finish_attempt uncertain_def commit_terminal_def split: if_splits)
    from certain_set(2) [OF m this] Inr show ?thesis by (simp add: Finish_attempt settled_def m')
  qed (simp add: Finish_attempt settled_def m)
next
  case (Claim_attempt i w now x)
  show ?thesis
  proof (cases "am_claim i w now x m")
    case (Inr r)
    then obtain st st' where st: "dict_get (am_attempts m) i = Some st"
      "reclaim_lease st now w x = Inr st'"
      and r: "r = (m\<lparr>am_attempts := dict_set (am_attempts m) i st'\<rparr>, js_epoch st')"
      by (auto simp: am_claim_def)
    from st(2) have "\<not> uncertain (Some st')"
      by (auto simp: uncertain_def reclaim_lease_def split: if_splits)
    from certain_set(2) [OF m this] Inr show ?thesis by (simp add: Claim_attempt settled_def r)
  qed (simp add: Claim_attempt settled_def m)
next
  case (Get_attempt i)
  with m show ?thesis by (cases "am_get i m") (simp_all add: settled_def)
qed

lemma attempt_call_agrees:
  assumes sim: "attempt_simulates dg m tb" and m: "certain_memory m" and c: "certain_call c"
  shows "snd (am_call dg c m) = snd (ap_call dg c tb)
    \<and> attempt_simulates dg (fst (am_call dg c m)) (fst (ap_call dg c tb))"
proof (cases c)
  case (Start_attempt s)
  with c m have "agree (attempt_simulates dg) (am_start dg s m) (ap_start dg s tb)"
    by (intro attempt_start_agrees [OF sim]) (simp_all add: certain_memory_def)
  then show ?thesis by (rule agree_cases) (simp_all add: Start_attempt settled_def sim)
next
  case (Commit_response i e r)
  from response_agrees [OF sim, of i e r] sim show ?thesis
    by (cases "am_commit_response dg i e r m"; cases "ap_commit_response dg i e r tb")
      (simp_all add: Commit_response settled_def agree_unit_def)
next
  case (Finish_attempt i e t)
  from attempt_finish_agrees [OF sim, of i e t] sim show ?thesis
    by (cases "am_finish dg i e t m"; cases "ap_finish dg i e t tb")
      (simp_all add: Finish_attempt settled_def agree_unit_def)
next
  case (Claim_attempt i w now x)
  from attempt_claim_agrees [OF sim] show ?thesis
    by (rule agree_cases [of _ "am_claim i w now x m" "ap_claim i w now x tb"])
      (simp_all add: Claim_attempt settled_def sim)
next
  case (Get_attempt i)
  with attempt_get_agrees [OF sim, of i] sim show ?thesis
    by (cases "ap_get i tb") (simp_all add: settled_def)
qed

lemma attempt_runs_agree:
  "attempt_simulates dg m tb \<Longrightarrow> certain_memory m \<Longrightarrow> list_all certain_call cs \<Longrightarrow>
     snd (run_calls (am_call dg) cs m) = snd (run_calls (ap_call dg) cs tb)"
proof (induction cs arbitrary: m tb)
  case (Cons c cs)
  from Cons.prems(3) have c: "certain_call c" and cs: "list_all certain_call cs" by simp_all
  note step = attempt_call_agrees [OF Cons.prems(1,2) c]
  from Cons.IH [OF conjunct2 [OF step] certain_call_keeps [OF Cons.prems(2) c] cs] step
  show ?case by (simp add: split_beta)
qed simp

lemma initial_attempts_simulate: "attempt_simulates dg no_attempts empty_tables"
proof -
  have "ap_get i empty_tables = Inl Entry_not_found" for i
    by (rule ap_get_missing [OF empty_attempts_ok]) (simp add: empty_tables_def)
  then show ?thesis
    by (simp add: attempt_simulates_def empty_attempts_ok no_attempts_def ap_state_def)
      (simp add: started_by_key_def logged_response_def by_kind_def entry_rows_def empty_tables_def)
qed

text \<open>
  C15. The in-memory attempt sink has the compare-and-set rules of the Postgres sink: for every
  sequence of starts, response commits, finishes, lease claims and reads in which no attempt
  ends with an unknown completion, the two sinks return the same results call by call.
\<close>

theorem attempt_sinks_agree:
  assumes "list_all certain_call cs"
  shows "snd (run_calls (am_call dg) cs no_attempts) = snd (run_calls (ap_call dg) cs empty_tables)"
  by (rule attempt_runs_agree [OF initial_attempts_simulate _ assms])
    (simp add: certain_memory_def no_attempts_def uncertain_def)

definition demo_start :: attempt_start where
  "demo_start = \<lparr>as_id = ''a1'', as_key = ''r:c:0:0'', as_project = ''p'', as_run = ''r'',
     as_case = ''c'', as_index = 0, as_call = 0, as_owner = ''w1'', as_epoch = 1, as_expires = 100,
     as_started = 0\<rparr>"

definition demo_final :: "terminal_code \<Rightarrow> attempt_terminal" where
  "demo_final code = \<lparr>tm_class = class_of_code code, tm_code = code, tm_duration = 5,
     tm_query = None, tm_finished = 50\<rparr>"

definition demo_digest :: digest where
  "demo_digest ev = (case ev of AStart s \<Rightarrow> as_id s | AResponse r \<Rightarrow> rs_digest r | ATerminal t \<Rightarrow> ''t'')"

theorem attempt_sinks_agree_witness:
  "snd (run_calls (ap_call demo_digest) [Start_attempt demo_start, Finish_attempt ''a1'' 1 (demo_final Plan_valid),
     Finish_attempt ''a1'' 1 (demo_final Planner_timeout), Claim_attempt ''a1'' ''w2'' 200 300] empty_tables)
   = [Attempt_id ''a1'', Refused_call, Committed_ok, Refused_call]"
proof -
  have "list_all certain_call [Start_attempt demo_start, Finish_attempt ''a1'' 1 (demo_final Plan_valid),
     Finish_attempt ''a1'' 1 (demo_final Planner_timeout), Claim_attempt ''a1'' ''w2'' 200 300]"
    by (simp add: demo_start_def demo_final_def)
  from attempt_sinks_agree [OF this, of demo_digest] show ?thesis
    by (simp add: am_start_def am_finish_def am_claim_def settled_def no_attempts_def demo_start_def
        demo_final_def uncertain_def start_entry_def attempt_candidate_def require_entry_def
        check_lease_epoch_def terminal_rules_def commit_terminal_def reclaim_lease_def)
qed

text \<open>
  The two attempt sinks part after an unknown completion: a replay of the start is refused
  by the in-memory sink, so that nobody retries blindly, and accepted by the Postgres sink,
  which returns the attempt's id as if it were still open.
\<close>

theorem uncertain_replay_differs:
  "snd (run_calls (am_call demo_digest) [Start_attempt demo_start,
      Finish_attempt ''a1'' 1 (demo_final Completion_unknown_code), Start_attempt demo_start] no_attempts)
     = [Attempt_id ''a1'', Committed_ok, Refused_call]
   \<and> snd (run_calls (ap_call demo_digest) [Start_attempt demo_start,
      Finish_attempt ''a1'' 1 (demo_final Completion_unknown_code), Start_attempt demo_start] empty_tables)
     = [Attempt_id ''a1'', Committed_ok, Attempt_id ''a1'']"
  by code_simp

subsection \<open>The stages of an attempt\<close>

text \<open>A terminal agrees with the response stage: completed needs one, unknown excludes one.\<close>

definition stages_ok :: "attempt_memory \<Rightarrow> bool" where
  "stages_ok m \<longleftrightarrow>
     (\<forall>i st t. dict_get (am_attempts m) i = Some st \<longrightarrow> js_terminal st = Some t \<longrightarrow>
        (tm_class t = Completed \<longrightarrow> dict_get (am_responses m) i \<noteq> None)
        \<and> (tm_class t = Completion_unknown \<longrightarrow> dict_get (am_responses m) i = None))"

lemma stages_call:
  assumes ok: "stages_ok m"
  shows "stages_ok (fst (am_call dg c m))"
proof (cases c)
  case (Start_attempt s)
  show ?thesis
  proof (cases "dict_get (am_keys m) (as_key s)")
    case None
    have "stages_ok (m\<lparr>am_attempts := dict_set (am_attempts m) (as_id s) (attempt_candidate dg s),
        am_keys := ks\<rparr>)" for ks
      using ok by (simp add: stages_ok_def update_conv' attempt_candidate_def)
    with ok show ?thesis
      by (simp add: Start_attempt am_start_def settled_def None uncertain_def start_entry_def)
  next
    case (Some i)
    with ok show ?thesis
      by (auto simp: Start_attempt am_start_def settled_def Let_def start_entry_def
          split: option.splits)
  qed
next
  case (Commit_response i e r)
  show ?thesis
  proof (cases "am_commit_response dg i e r m")
    case (Inr m')
    then consider "m' = m" | st where "dict_get (am_attempts m) i = Some st" "js_terminal st = None"
        "m' = m\<lparr>am_responses := dict_set (am_responses m) i (r, dg (AResponse r))\<rparr>"
      by (auto simp: am_commit_response_def split: if_splits option.splits)
    then have "stages_ok m'"
    proof cases
      case 2
      with ok show ?thesis by (auto simp: stages_ok_def update_conv')
    qed (use ok in simp)
    with Inr show ?thesis by (simp add: Commit_response settled_def)
  qed (simp add: Commit_response settled_def ok)
next
  case (Finish_attempt i e t)
  show ?thesis
  proof (cases "am_finish dg i e t m")
    case (Inr m')
    then obtain st st' where st: "dict_get (am_attempts m) i = Some st"
      "commit_terminal st e t (dg (ATerminal t)) = Inr st'"
      and m': "m' = m\<lparr>am_attempts := dict_set (am_attempts m) i st'\<rparr>"
      and rules: "(if js_terminal st = None
          then terminal_rules (dict_get (am_responses m) i \<noteq> None) t else Inr ()) = Inr ()"
      by (auto simp: am_finish_def simp del: not_None_eq)
    have "(tm_class u = Completed \<longrightarrow> dict_get (am_responses m) i \<noteq> None)
        \<and> (tm_class u = Completion_unknown \<longrightarrow> dict_get (am_responses m) i = None)"
      if u: "js_terminal st' = Some u" for u
    proof (cases "js_terminal st")
      case None
      with st(2) u have "u = t" by (auto simp: commit_terminal_def)
      with rules None show ?thesis
        by (auto simp: terminal_rules_def simp del: not_None_eq split: if_splits)
    next
      case (Some v)
      with st(2) u have "st' = st" by (auto simp: commit_terminal_def split: if_splits)
      with u ok st(1) show ?thesis unfolding stages_ok_def by blast
    qed
    with ok have "stages_ok m'" by (simp add: m' stages_ok_def update_conv')
    with Inr show ?thesis by (simp add: Finish_attempt settled_def)
  qed (simp add: Finish_attempt settled_def ok)
next
  case (Claim_attempt i w now x)
  show ?thesis
  proof (cases "am_claim i w now x m")
    case (Inr r)
    then obtain st st' where st: "reclaim_lease st now w x = Inr st'"
      and r: "r = (m\<lparr>am_attempts := dict_set (am_attempts m) i st'\<rparr>, js_epoch st')"
      by (auto simp: am_claim_def)
    from st have "js_terminal st' = None" by (auto simp: reclaim_lease_def split: if_splits)
    with ok have "stages_ok (fst r)" by (simp add: r stages_ok_def update_conv')
    with Inr show ?thesis by (simp add: Claim_attempt settled_def r)
  qed (simp add: Claim_attempt settled_def ok)
next
  case (Get_attempt i)
  with ok show ?thesis by (cases "am_get i m") (simp_all add: settled_def)
qed

lemma stages_run: "stages_ok m \<Longrightarrow> stages_ok (fst (run_calls (am_call dg) cs m))"
proof (induction cs arbitrary: m)
  case (Cons c cs)
  from Cons.IH [OF stages_call [OF Cons.prems, of dg c]] show ?case by (simp add: split_beta)
qed simp

text \<open>
  C22. No attempt is recorded as completed without its response: whatever calls were made, an
  attempt whose journal shows a completed terminal shows a committed response too, and one
  whose completion is unknown shows none.
\<close>

theorem completed_has_response:
  assumes "am_get i (fst (run_calls (am_call dg) cs no_attempts)) = Inr j"
    and "aj_terminal j = Some t"
  shows "(tm_class t = Completed \<longrightarrow> aj_response j \<noteq> None)
    \<and> (tm_class t = Completion_unknown \<longrightarrow> aj_response j = None)"
proof -
  have "stages_ok no_attempts" by (simp add: stages_ok_def no_attempts_def)
  from stages_run [OF this, of dg cs] assms show ?thesis
    by (auto simp: am_get_def stages_ok_def)
qed

definition demo_response :: attempt_response where
  "demo_response = \<lparr>rs_digest = ''d'', rs_shape = Json_object, rs_result = Valid_plan, rs_plan = None,
     rs_repair = None, rs_committed = 20\<rparr>"

theorem completed_has_response_witness:
  "\<exists>j. am_get ''a1'' (fst (run_calls (am_call demo_digest) [Start_attempt demo_start,
      Commit_response ''a1'' 1 demo_response, Finish_attempt ''a1'' 1 (demo_final Plan_valid)] no_attempts))
      = Inr j \<and> aj_response j \<noteq> None"
proof -
  let ?m = "fst (run_calls (am_call demo_digest) [Start_attempt demo_start,
      Commit_response ''a1'' 1 demo_response, Finish_attempt ''a1'' 1 (demo_final Plan_valid)] no_attempts)"
  let ?j = "\<lparr>aj_start = demo_start, aj_start_digest = ''a1'', aj_response = Some demo_response,
      aj_response_digest = Some ''d'', aj_terminal = Some (demo_final Plan_valid),
      aj_terminal_digest = Some ''t''\<rparr>"
  have j: "am_get ''a1'' ?m = Inr ?j" by code_simp
  have "aj_terminal ?j = Some (demo_final Plan_valid)" by simp
  from completed_has_response [OF j this] have "aj_response ?j \<noteq> None" by (simp add: demo_final_def)
  with j show ?thesis by blast
qed

end
