(* ===== verification/Cancel_Service.thy ===== *)
theory Cancel_Service
  imports Prelude
begin

text \<open>
  Cancellation of streaming runs (app/services/cancel_service.py): the registrations a process
  keeps, the in-memory service, and the Redis service as a machine whose steps are the single
  Redis commands of its calls, so that the calls of several instances may interleave at every
  await. Keys may expire and pub/sub messages may be lost at any time.
\<close>

subsection \<open>Registrations of one process\<close>

datatype phase = Generating | Finalizing | Done_phase

record local_reg =
  lg_user :: string
  lg_task_done :: bool
  lg_task_cancelled :: bool
  lg_cancelled :: bool
  lg_polls :: nat
  lg_phase :: phase

record run_record =
  rr_user :: string
  rr_instance :: string
  rr_cancelled :: bool
  rr_phase :: "phase option"

definition MAX_REDIS_CANCEL_POLLS :: nat where "MAX_REDIS_CANCEL_POLLS = 120"

definition new_registration :: "string \<Rightarrow> bool \<Rightarrow> local_reg" where
  "new_registration user pre =
     \<lparr>lg_user = user, lg_task_done = False, lg_task_cancelled = False, lg_cancelled = pre,
      lg_polls = 0, lg_phase = Generating\<rparr>"

text \<open>\<open>_apply_local_cancel\<close>: the task itself is cancelled only while it generates.\<close>

definition cancel_reg :: "local_reg \<Rightarrow> local_reg" where
  "cancel_reg reg =
     (if lg_cancelled reg then reg
      else reg\<lparr>lg_cancelled := True,
               lg_task_cancelled := (lg_task_cancelled reg
                 \<or> (lg_phase reg = Generating \<and> \<not> lg_task_done reg))\<rparr>)"

definition apply_local_cancel ::
    "string \<Rightarrow> (string \<rightharpoonup> local_reg) \<Rightarrow> (string \<rightharpoonup> local_reg)" where
  "apply_local_cancel run regs =
     (case regs run of None \<Rightarrow> regs | Some reg \<Rightarrow> regs(run \<mapsto> cancel_reg reg))"

subsection \<open>The in-memory service\<close>

record mem_service =
  mc_runs :: "string \<rightharpoonup> run_record"
  mc_tombs :: "string \<rightharpoonup> string"
  mc_local :: "string \<rightharpoonup> local_reg"

definition mc_empty :: mem_service where
  "mc_empty = \<lparr>mc_runs = Map.empty, mc_tombs = Map.empty, mc_local = Map.empty\<rparr>"

definition mc_register :: "string \<Rightarrow> string \<Rightarrow> string \<Rightarrow> mem_service \<Rightarrow> mem_service" where
  "mc_register inst run user m =
     (let pre = (mc_tombs m run = Some user) in
      m\<lparr>mc_tombs := (if pre then (mc_tombs m)(run := None) else mc_tombs m),
        mc_runs := (mc_runs m)(run \<mapsto> \<lparr>rr_user = user, rr_instance = inst, rr_cancelled = pre,
                                      rr_phase = None\<rparr>),
        mc_local := (mc_local m)(run \<mapsto> new_registration user pre)\<rparr>)"

definition mc_unregister :: "string \<Rightarrow> mem_service \<Rightarrow> mem_service" where
  "mc_unregister run m =
     m\<lparr>mc_runs := (mc_runs m)(run := None), mc_tombs := (mc_tombs m)(run := None),
       mc_local := (mc_local m)(run := None)\<rparr>"

definition mc_cancel_run :: "string \<Rightarrow> string \<Rightarrow> mem_service \<Rightarrow> mem_service \<times> bool" where
  "mc_cancel_run run user m =
     (case mc_runs m run of
        None \<Rightarrow> (m\<lparr>mc_tombs := (mc_tombs m)(run \<mapsto> user)\<rparr>, True)
      | Some rec \<Rightarrow>
          if rr_user rec \<noteq> user then (m, False)
          else if rr_cancelled rec then (m, True)
          else (m\<lparr>mc_runs := (mc_runs m)(run \<mapsto> rec\<lparr>rr_cancelled := True\<rparr>),
                  mc_local := apply_local_cancel run (mc_local m)\<rparr>, True))"

definition mc_is_cancelled :: "string \<Rightarrow> mem_service \<Rightarrow> mem_service \<times> bool" where
  "mc_is_cancelled run m =
     (case mc_local m run of
        None \<Rightarrow> (m, False)
      | Some reg \<Rightarrow>
          if lg_cancelled reg then (m, True)
          else if MAX_REDIS_CANCEL_POLLS \<le> lg_polls reg then (m, False)
          else
            (let reg1 = reg\<lparr>lg_polls := lg_polls reg + 1\<rparr> in
             case mc_runs m run of
               Some rec \<Rightarrow>
                 if rr_cancelled rec
                 then (m\<lparr>mc_local := (mc_local m)(run \<mapsto> reg1\<lparr>lg_cancelled := True\<rparr>)\<rparr>, True)
                 else (m\<lparr>mc_local := (mc_local m)(run \<mapsto> reg1)\<rparr>, False)
             | None \<Rightarrow> (m\<lparr>mc_local := (mc_local m)(run \<mapsto> reg1)\<rparr>, False)))"

definition mc_begin_finalize :: "string \<Rightarrow> mem_service \<Rightarrow> mem_service \<times> bool" where
  "mc_begin_finalize run m =
     (case mc_local m run of
        None \<Rightarrow> (m, False)
      | Some reg \<Rightarrow>
          if lg_cancelled reg then (m, False)
          else (m\<lparr>mc_local := (mc_local m)(run \<mapsto> reg\<lparr>lg_phase := Finalizing\<rparr>),
                  mc_runs := (case mc_runs m run of
                                None \<Rightarrow> mc_runs m
                              | Some rec \<Rightarrow> (mc_runs m)(run \<mapsto> rec\<lparr>rr_phase := Some Finalizing\<rparr>))\<rparr>,
                True))"

definition mc_mark_done :: "string \<Rightarrow> mem_service \<Rightarrow> mem_service" where
  "mc_mark_done run m =
     m\<lparr>mc_local := (case mc_local m run of
                      None \<Rightarrow> mc_local m
                    | Some reg \<Rightarrow> (mc_local m)(run \<mapsto> reg\<lparr>lg_phase := Done_phase\<rparr>)),
       mc_runs := (case mc_runs m run of
                     None \<Rightarrow> mc_runs m
                   | Some rec \<Rightarrow> (mc_runs m)(run \<mapsto> rec\<lparr>rr_phase := Some Done_phase\<rparr>))\<rparr>"

subsection \<open>The Redis service\<close>

text \<open>What a call has still to do after the Redis command it has just run.\<close>

datatype pending =
    Registering string string string bool nat
  | Unregistering string
  | Writing_tombstone string string
  | Cancelling string string run_record
  | Notifying string string run_record
  | Finalizing_call string string nat
  | Marking string run_record
  | Polling string string

record cluster =
  cl_runs :: "string \<rightharpoonup> run_record"
  cl_tombs :: "string \<rightharpoonup> string"
  cl_bus :: "(string \<times> string) list"
  cl_local :: "string \<Rightarrow> string \<rightharpoonup> local_reg"
  cl_pending :: "nat \<rightharpoonup> pending"
  cl_results :: "(nat \<times> bool) list"

definition cl_empty :: cluster where
  "cl_empty = \<lparr>cl_runs = Map.empty, cl_tombs = Map.empty, cl_bus = [],
     cl_local = (\<lambda>_. Map.empty), cl_pending = Map.empty, cl_results = []\<rparr>"

definition goes_on :: "nat \<Rightarrow> pending \<Rightarrow> cluster \<Rightarrow> cluster" where
  "goes_on c p \<sigma> = \<sigma>\<lparr>cl_pending := (cl_pending \<sigma>)(c \<mapsto> p)\<rparr>"

definition ends :: "nat \<Rightarrow> cluster \<Rightarrow> cluster" where
  "ends c \<sigma> = \<sigma>\<lparr>cl_pending := (cl_pending \<sigma>)(c := None)\<rparr>"

definition ends_with :: "nat \<Rightarrow> bool \<Rightarrow> cluster \<Rightarrow> cluster" where
  "ends_with c b \<sigma> = (ends c \<sigma>)\<lparr>cl_results := cl_results \<sigma> @ [(c, b)]\<rparr>"

definition set_reg :: "string \<Rightarrow> string \<Rightarrow> (local_reg \<Rightarrow> local_reg) \<Rightarrow> cluster \<Rightarrow> cluster" where
  "set_reg inst run f \<sigma> =
     \<sigma>\<lparr>cl_local := (cl_local \<sigma>)(inst := (case cl_local \<sigma> inst run of
         None \<Rightarrow> cl_local \<sigma> inst
       | Some reg \<Rightarrow> (cl_local \<sigma> inst)(run \<mapsto> f reg)))\<rparr>"

definition put_run :: "string \<Rightarrow> run_record \<Rightarrow> cluster \<Rightarrow> cluster" where
  "put_run run rec \<sigma> = \<sigma>\<lparr>cl_runs := (cl_runs \<sigma>)(run \<mapsto> rec)\<rparr>"

definition fresh_record :: "string \<Rightarrow> string \<Rightarrow> bool \<Rightarrow> run_record" where
  "fresh_record user inst c =
     \<lparr>rr_user = user, rr_instance = inst, rr_cancelled = c, rr_phase = Some Generating\<rparr>"

text \<open>The next command of a pending call.\<close>

fun advance :: "nat \<Rightarrow> pending \<Rightarrow> cluster \<Rightarrow> cluster" where
  "advance c (Registering run user inst pre stage) \<sigma> =
     (if stage = 0 \<and> pre
      then goes_on c (Registering run user inst pre 1) (\<sigma>\<lparr>cl_tombs := (cl_tombs \<sigma>)(run := None)\<rparr>)
      else if stage \<le> 1
      then goes_on c (Registering run user inst pre 2) (put_run run (fresh_record user inst pre) \<sigma>)
      else if stage = 2
      then (let \<sigma>1 = \<sigma>\<lparr>cl_local := (cl_local \<sigma>)(inst := (cl_local \<sigma> inst)(run \<mapsto>
                          new_registration user pre))\<rparr>
            in if pre then goes_on c (Registering run user inst pre 3) \<sigma>1 else ends c \<sigma>1)
      else ends c (put_run run (fresh_record user inst True) \<sigma>))"
| "advance c (Unregistering run) \<sigma> = ends c (\<sigma>\<lparr>cl_runs := (cl_runs \<sigma>)(run := None)\<rparr>)"
| "advance c (Writing_tombstone run user) \<sigma> =
     ends_with c True (\<sigma>\<lparr>cl_tombs := (cl_tombs \<sigma>)(run \<mapsto> user)\<rparr>)"
| "advance c (Cancelling run inst rec) \<sigma> =
     goes_on c (Notifying run inst rec) (put_run run (rec\<lparr>rr_cancelled := True\<rparr>) \<sigma>)"
| "advance c (Notifying run inst rec) \<sigma> =
     ends_with c True
       (if rr_instance rec = inst then set_reg inst run cancel_reg \<sigma>
        else if rr_phase rec = Some Generating
        then \<sigma>\<lparr>cl_bus := cl_bus \<sigma> @ [(rr_instance rec, run)]\<rparr> else \<sigma>)"
| "advance c (Finalizing_call run inst n) \<sigma> =
     (case cl_runs \<sigma> run of
        None \<Rightarrow> ends_with c False (set_reg inst run (\<lambda>reg. reg\<lparr>lg_phase := Generating\<rparr>) \<sigma>)
      | Some rec \<Rightarrow>
          if rr_cancelled rec
          then ends_with c False
                 (set_reg inst run (\<lambda>reg. reg\<lparr>lg_cancelled := True, lg_phase := Generating\<rparr>) \<sigma>)
          else ends_with c True (put_run run (rec\<lparr>rr_phase := Some Finalizing\<rparr>) \<sigma>))"
| "advance c (Marking run rec) \<sigma> =
     ends c (put_run run (rec\<lparr>rr_phase := Some Done_phase\<rparr>) \<sigma>)"
| "advance c (Polling run inst) \<sigma> =
     (case cl_runs \<sigma> run of
        None \<Rightarrow> ends_with c False \<sigma>
      | Some rec \<Rightarrow>
          if rr_cancelled rec
          then ends_with c True
                 (set_reg inst run (\<lambda>reg. cancel_reg (reg\<lparr>lg_cancelled := True\<rparr>)) \<sigma>)
          else ends_with c False \<sigma>)"

datatype cancel_step =
    Register_call nat string string string
  | Unregister_call nat string string
  | Cancel_call nat string string string
  | Poll_call nat string string
  | Finalize_call nat string string
  | Contend nat
  | Redis_fails nat
  | Mark_done_call nat string string
  | Next nat
  | Deliver nat
  | Lose nat
  | Expire_run string
  | Expire_tombstone string
  | Task_ends string string

text \<open>The code of each call up to and including its first Redis command (\<open>is_cancelled\<close> and
  \<open>begin_finalize\<close> change their registration before it).\<close>

definition start_poll :: "nat \<Rightarrow> string \<Rightarrow> string \<Rightarrow> cluster \<Rightarrow> cluster" where
  "start_poll c run inst \<sigma> =
     (case cl_local \<sigma> inst run of
        None \<Rightarrow> ends_with c False \<sigma>
      | Some reg \<Rightarrow>
          if lg_cancelled reg then ends_with c True \<sigma>
          else if MAX_REDIS_CANCEL_POLLS \<le> lg_polls reg then ends_with c False \<sigma>
          else goes_on c (Polling run inst)
                 (set_reg inst run (\<lambda>reg. reg\<lparr>lg_polls := lg_polls reg + 1\<rparr>) \<sigma>))"

definition start_cancel :: "nat \<Rightarrow> string \<Rightarrow> string \<Rightarrow> string \<Rightarrow> cluster \<Rightarrow> cluster" where
  "start_cancel c run user inst \<sigma> =
     (case cl_runs \<sigma> run of
        None \<Rightarrow> goes_on c (Writing_tombstone run user) \<sigma>
      | Some rec \<Rightarrow>
          if rr_user rec \<noteq> user then ends_with c False \<sigma>
          else if rr_cancelled rec
          then ends_with c True (if rr_instance rec = inst then set_reg inst run cancel_reg \<sigma> else \<sigma>)
          else goes_on c (Cancelling run inst rec) \<sigma>)"

definition start_finalize :: "nat \<Rightarrow> string \<Rightarrow> string \<Rightarrow> cluster \<Rightarrow> cluster" where
  "start_finalize c run inst \<sigma> =
     (case cl_local \<sigma> inst run of
        None \<Rightarrow> ends_with c False \<sigma>
      | Some reg \<Rightarrow>
          if lg_cancelled reg then ends_with c False \<sigma>
          else goes_on c (Finalizing_call run inst 0)
                 (set_reg inst run (\<lambda>reg. reg\<lparr>lg_phase := Finalizing\<rparr>) \<sigma>))"

text \<open>A lost optimistic transaction is tried again, five times in all.\<close>

definition contend :: "nat \<Rightarrow> cluster \<Rightarrow> cluster" where
  "contend c \<sigma> =
     (case cl_pending \<sigma> c of
        Some (Finalizing_call run inst n) \<Rightarrow>
          if n + 1 < 5 then goes_on c (Finalizing_call run inst (n + 1)) \<sigma>
          else ends_with c False (set_reg inst run (\<lambda>reg. reg\<lparr>lg_phase := Generating\<rparr>) \<sigma>)
      | _ \<Rightarrow> \<sigma>)"

text \<open>Redis does not answer a pending call: \<open>is_cancelled\<close> reads that as not cancelled, the
  others log it or raise it to their caller.\<close>

definition redis_fails :: "nat \<Rightarrow> cluster \<Rightarrow> cluster" where
  "redis_fails c \<sigma> =
     (case cl_pending \<sigma> c of
        Some (Polling run inst) \<Rightarrow> ends_with c False \<sigma>
      | _ \<Rightarrow> ends c \<sigma>)"

definition start_mark_done :: "nat \<Rightarrow> string \<Rightarrow> string \<Rightarrow> cluster \<Rightarrow> cluster" where
  "start_mark_done c run inst \<sigma> =
     (let \<sigma>1 = set_reg inst run (\<lambda>reg. reg\<lparr>lg_phase := Done_phase\<rparr>) \<sigma> in
      case cl_runs \<sigma> run of None \<Rightarrow> \<sigma>1 | Some rec \<Rightarrow> goes_on c (Marking run rec) \<sigma>1)"

definition deliver :: "nat \<Rightarrow> cluster \<Rightarrow> cluster" where
  "deliver n \<sigma> =
     (if n < length (cl_bus \<sigma>)
      then (case cl_bus \<sigma> ! n of (inst, run) \<Rightarrow>
              set_reg inst run cancel_reg
                (\<sigma>\<lparr>cl_bus := take n (cl_bus \<sigma>) @ drop (n + 1) (cl_bus \<sigma>)\<rparr>))
      else \<sigma>)"

fun take_step :: "cancel_step \<Rightarrow> cluster \<Rightarrow> cluster" where
  "take_step (Register_call c run user inst) \<sigma> =
     goes_on c (Registering run user inst (cl_tombs \<sigma> run = Some user) 0) \<sigma>"
| "take_step (Unregister_call c run inst) \<sigma> =
     goes_on c (Unregistering run)
       (\<sigma>\<lparr>cl_local := (cl_local \<sigma>)(inst := (cl_local \<sigma> inst)(run := None))\<rparr>)"
| "take_step (Cancel_call c run user inst) \<sigma> = start_cancel c run user inst \<sigma>"
| "take_step (Poll_call c run inst) \<sigma> = start_poll c run inst \<sigma>"
| "take_step (Finalize_call c run inst) \<sigma> = start_finalize c run inst \<sigma>"
| "take_step (Contend c) \<sigma> = contend c \<sigma>"
| "take_step (Redis_fails c) \<sigma> = redis_fails c \<sigma>"
| "take_step (Mark_done_call c run inst) \<sigma> = start_mark_done c run inst \<sigma>"
| "take_step (Next c) \<sigma> = (case cl_pending \<sigma> c of None \<Rightarrow> \<sigma> | Some p \<Rightarrow> advance c p \<sigma>)"
| "take_step (Deliver n) \<sigma> = deliver n \<sigma>"
| "take_step (Lose n) \<sigma> = \<sigma>\<lparr>cl_bus := take n (cl_bus \<sigma>) @ drop (n + 1) (cl_bus \<sigma>)\<rparr>"
| "take_step (Expire_run run) \<sigma> = \<sigma>\<lparr>cl_runs := (cl_runs \<sigma>)(run := None)\<rparr>"
| "take_step (Expire_tombstone run) \<sigma> = \<sigma>\<lparr>cl_tombs := (cl_tombs \<sigma>)(run := None)\<rparr>"
| "take_step (Task_ends inst run) \<sigma> = set_reg inst run (\<lambda>reg. reg\<lparr>lg_task_done := True\<rparr>) \<sigma>"

definition cancel_run_steps :: "cancel_step list \<Rightarrow> cluster \<Rightarrow> cluster" where
  "cancel_run_steps ss \<sigma> = fold take_step ss \<sigma>"


subsection \<open>Only the owner's request cancels\<close>

text \<open>Every registration of a run is by the user \<open>owner run\<close>; another user may ask to cancel it.\<close>

fun registers_as :: "(string \<Rightarrow> string) \<Rightarrow> cancel_step \<Rightarrow> bool" where
  "registers_as owner (Register_call c run user inst) = (user = owner run)"
| "registers_as owner _ = True"

fun asks_cancel :: "(string \<Rightarrow> string) \<Rightarrow> string \<Rightarrow> cancel_step \<Rightarrow> bool" where
  "asks_cancel owner run (Cancel_call c run1 user inst) = (run1 = run \<and> user = owner run)"
| "asks_cancel owner run _ = False"

definition record_authorised :: "(string \<Rightarrow> string) \<Rightarrow> (string \<Rightarrow> bool) \<Rightarrow> string \<Rightarrow> run_record \<Rightarrow> bool" where
  "record_authorised owner req run rec \<longleftrightarrow>
     rr_user rec = owner run \<and> (rr_cancelled rec \<longrightarrow> req run)"

definition reg_authorised :: "(string \<Rightarrow> bool) \<Rightarrow> string \<Rightarrow> local_reg \<Rightarrow> bool" where
  "reg_authorised req run reg \<longleftrightarrow> (lg_cancelled reg \<or> lg_task_cancelled reg \<longrightarrow> req run)"

fun pending_authorised :: "(string \<Rightarrow> string) \<Rightarrow> (string \<Rightarrow> bool) \<Rightarrow> pending \<Rightarrow> bool" where
  "pending_authorised owner req (Registering run user inst pre stage) =
     (user = owner run \<and> (stage = 3 \<or> pre \<longrightarrow> req run) \<and> stage \<le> 3)"
| "pending_authorised owner req (Writing_tombstone run user) = (user = owner run \<longrightarrow> req run)"
| "pending_authorised owner req (Cancelling run inst rec) = (rr_user rec = owner run \<and> req run)"
| "pending_authorised owner req (Notifying run inst rec) = (rr_user rec = owner run \<and> req run)"
| "pending_authorised owner req (Marking run rec) = record_authorised owner req run rec"
| "pending_authorised owner req _ = True"

definition authorised :: "(string \<Rightarrow> string) \<Rightarrow> (string \<Rightarrow> bool) \<Rightarrow> cluster \<Rightarrow> bool" where
  "authorised owner req \<sigma> \<longleftrightarrow>
     (\<forall>run rec. cl_runs \<sigma> run = Some rec \<longrightarrow> record_authorised owner req run rec) \<and>
     (\<forall>run. cl_tombs \<sigma> run = Some (owner run) \<longrightarrow> req run) \<and>
     (\<forall>inst run. (inst, run) \<in> set (cl_bus \<sigma>) \<longrightarrow> req run) \<and>
     (\<forall>inst run reg. cl_local \<sigma> inst run = Some reg \<longrightarrow> reg_authorised req run reg) \<and>
     (\<forall>c p. cl_pending \<sigma> c = Some p \<longrightarrow> pending_authorised owner req p)"

lemma record_authorised_put [simp]:
  "record_authorised owner req run (rec\<lparr>rr_cancelled := True\<rparr>) \<longleftrightarrow> rr_user rec = owner run \<and> req run"
  "record_authorised owner req run (rec\<lparr>rr_phase := ph\<rparr>) = record_authorised owner req run rec"
  "record_authorised owner req run (fresh_record user inst pre) \<longleftrightarrow>
     user = owner run \<and> (pre \<longrightarrow> req run)"
  by (auto simp: record_authorised_def fresh_record_def)

lemma reg_authorised_intros [simp]:
  "reg_authorised req run (reg\<lparr>lg_phase := ph\<rparr>) = reg_authorised req run reg"
  "reg_authorised req run (reg\<lparr>lg_polls := n\<rparr>) = reg_authorised req run reg"
  "reg_authorised req run (reg\<lparr>lg_task_done := b\<rparr>) = reg_authorised req run reg"
  "reg_authorised req run (new_registration user pre) \<longleftrightarrow> (pre \<longrightarrow> req run)"
  "req run \<Longrightarrow> reg_authorised req run reg"
  by (auto simp: reg_authorised_def new_registration_def)

text \<open>The parts a helper leaves alone.\<close>

lemma goes_on_fields [simp]:
  "cl_runs (goes_on c p \<sigma>) = cl_runs \<sigma>" "cl_tombs (goes_on c p \<sigma>) = cl_tombs \<sigma>"
  "cl_bus (goes_on c p \<sigma>) = cl_bus \<sigma>" "cl_local (goes_on c p \<sigma>) = cl_local \<sigma>"
  "cl_pending (goes_on c p \<sigma>) = (cl_pending \<sigma>)(c \<mapsto> p)" "cl_results (goes_on c p \<sigma>) = cl_results \<sigma>"
  by (auto simp: goes_on_def)

lemma ends_fields [simp]:
  "cl_runs (ends c \<sigma>) = cl_runs \<sigma>" "cl_tombs (ends c \<sigma>) = cl_tombs \<sigma>"
  "cl_bus (ends c \<sigma>) = cl_bus \<sigma>" "cl_local (ends c \<sigma>) = cl_local \<sigma>"
  "cl_pending (ends c \<sigma>) = (cl_pending \<sigma>)(c := None)" "cl_results (ends c \<sigma>) = cl_results \<sigma>"
  by (auto simp: ends_def)

lemma ends_with_fields [simp]:
  "cl_runs (ends_with c b \<sigma>) = cl_runs \<sigma>" "cl_tombs (ends_with c b \<sigma>) = cl_tombs \<sigma>"
  "cl_bus (ends_with c b \<sigma>) = cl_bus \<sigma>" "cl_local (ends_with c b \<sigma>) = cl_local \<sigma>"
  "cl_pending (ends_with c b \<sigma>) = (cl_pending \<sigma>)(c := None)"
  "cl_results (ends_with c b \<sigma>) = cl_results \<sigma> @ [(c, b)]"
  by (auto simp: ends_with_def)

lemma set_reg_fields [simp]:
  "cl_runs (set_reg inst run f \<sigma>) = cl_runs \<sigma>" "cl_tombs (set_reg inst run f \<sigma>) = cl_tombs \<sigma>"
  "cl_bus (set_reg inst run f \<sigma>) = cl_bus \<sigma>" "cl_pending (set_reg inst run f \<sigma>) = cl_pending \<sigma>"
  "cl_results (set_reg inst run f \<sigma>) = cl_results \<sigma>"
  by (auto simp: set_reg_def)

lemma set_reg_local [simp]:
  "cl_local (set_reg inst run f \<sigma>) inst1 run1 =
     (if inst1 = inst \<and> run1 = run then map_option f (cl_local \<sigma> inst run) else cl_local \<sigma> inst1 run1)"
  by (auto simp: set_reg_def split: option.splits)

lemma put_run_fields [simp]:
  "cl_runs (put_run run rec \<sigma>) = (cl_runs \<sigma>)(run \<mapsto> rec)" "cl_tombs (put_run run rec \<sigma>) = cl_tombs \<sigma>"
  "cl_bus (put_run run rec \<sigma>) = cl_bus \<sigma>" "cl_local (put_run run rec \<sigma>) = cl_local \<sigma>"
  "cl_pending (put_run run rec \<sigma>) = cl_pending \<sigma>" "cl_results (put_run run rec \<sigma>) = cl_results \<sigma>"
  by (auto simp: put_run_def)

lemma authorised_goes_on:
  "authorised owner req \<sigma> \<Longrightarrow> pending_authorised owner req p \<Longrightarrow> authorised owner req (goes_on c p \<sigma>)"
  by (auto simp: authorised_def)

lemma authorised_ends:
  "authorised owner req \<sigma> \<Longrightarrow> authorised owner req (ends c \<sigma>)"
  "authorised owner req \<sigma> \<Longrightarrow> authorised owner req (ends_with c b \<sigma>)"
  by (auto simp: authorised_def split: if_splits)

lemma authorised_set_reg:
  assumes "authorised owner req \<sigma>"
    and "\<And>reg. cl_local \<sigma> inst run = Some reg \<Longrightarrow> reg_authorised req run reg \<Longrightarrow> reg_authorised req run (f reg)"
  shows "authorised owner req (set_reg inst run f \<sigma>)"
  using assms by (auto simp: authorised_def)

lemma authorised_put_run:
  "authorised owner req \<sigma> \<Longrightarrow> record_authorised owner req run rec \<Longrightarrow> authorised owner req (put_run run rec \<sigma>)"
  by (auto simp: authorised_def)

lemma authorised_drop:
  assumes "authorised owner req \<sigma>"
  shows "authorised owner req (\<sigma>\<lparr>cl_runs := (cl_runs \<sigma>)(run := None)\<rparr>)"
    and "authorised owner req (\<sigma>\<lparr>cl_tombs := (cl_tombs \<sigma>)(run := None)\<rparr>)"
    and "authorised owner req (\<sigma>\<lparr>cl_local := (cl_local \<sigma>)(inst := (cl_local \<sigma> inst)(run := None))\<rparr>)"
    and "authorised owner req (\<sigma>\<lparr>cl_bus := take n (cl_bus \<sigma>) @ drop m (cl_bus \<sigma>)\<rparr>)"
  using assms by (auto simp: authorised_def split: if_splits dest: in_set_takeD in_set_dropD)

lemma authorisedD:
  assumes "authorised owner req \<sigma>"
  shows "cl_runs \<sigma> run = Some rec \<Longrightarrow> record_authorised owner req run rec"
    and "cl_tombs \<sigma> run = Some (owner run) \<Longrightarrow> req run"
    and "(inst, run) \<in> set (cl_bus \<sigma>) \<Longrightarrow> req run"
    and "cl_local \<sigma> inst run = Some reg \<Longrightarrow> reg_authorised req run reg"
    and "cl_pending \<sigma> c = Some p \<Longrightarrow> pending_authorised owner req p"
  using assms by (auto simp: authorised_def)

text \<open>The commands of a pending call, and the first command of each call.\<close>

lemma cancel_reg_authorised [simp]:
  "reg_authorised req run reg \<Longrightarrow> req run \<Longrightarrow> reg_authorised req run (cancel_reg reg)"
  by simp

lemma advance_authorised:
  assumes "authorised owner req \<sigma>" and "pending_authorised owner req p"
  shows "authorised owner req (advance c p \<sigma>)"
proof (cases p)
  case (Registering run user inst pre stage)
  have new: "pre \<Longrightarrow> req run" "user = owner run" "stage \<le> 3" "stage = 3 \<Longrightarrow> req run"
    using assms(2) Registering by auto
  have "authorised owner req (\<sigma>\<lparr>cl_local := (cl_local \<sigma>)(inst := (cl_local \<sigma> inst)(run \<mapsto>
          new_registration user pre))\<rparr>)"
    using assms(1) new(1) by (auto simp: authorised_def)
  with assms new Registering show ?thesis
    by (auto simp: Let_def intro!: authorised_goes_on authorised_put_run authorised_drop authorised_ends)
next
  case (Writing_tombstone run user)
  then have "authorised owner req (\<sigma>\<lparr>cl_tombs := (cl_tombs \<sigma>)(run \<mapsto> user)\<rparr>)"
    using assms by (auto simp: authorised_def)
  then show ?thesis using Writing_tombstone by (simp add: authorised_ends)
next
  case (Notifying run inst rec)
  then have req: "req run" using assms(2) by simp
  then have "authorised owner req (\<sigma>\<lparr>cl_bus := cl_bus \<sigma> @ [(rr_instance rec, run)]\<rparr>)"
    using assms(1) by (auto simp: authorised_def)
  then show ?thesis using Notifying req assms
    by (auto intro!: authorised_ends authorised_set_reg)
next
  case (Finalizing_call run inst n)
  show ?thesis
    using assms Finalizing_call authorisedD(1) [OF assms(1)]
    by (auto simp: record_authorised_def split: option.splits
        intro!: authorised_ends authorised_set_reg authorised_put_run)
next
  case (Polling run inst)
  show ?thesis
    using assms Polling authorisedD(1) [OF assms(1)]
    by (auto simp: record_authorised_def split: option.splits intro!: authorised_ends authorised_set_reg)
qed (use assms in \<open>auto intro!: authorised_ends authorised_goes_on authorised_put_run authorised_drop\<close>)

lemma start_cancel_authorised:
  assumes "authorised owner req \<sigma>" and "user = owner run \<Longrightarrow> req run"
  shows "authorised owner req (start_cancel c run user inst \<sigma>)"
  using assms authorisedD(1) [OF assms(1)]
  by (auto simp: start_cancel_def record_authorised_def split: option.splits
      intro!: authorised_ends authorised_goes_on authorised_set_reg)

lemma other_starts_authorised:
  assumes "authorised owner req \<sigma>"
  shows "authorised owner req (start_poll c run inst \<sigma>)"
    and "authorised owner req (start_finalize c run inst \<sigma>)"
    and "authorised owner req (start_mark_done c run inst \<sigma>)"
    and "authorised owner req (contend c \<sigma>)"
    and "authorised owner req (redis_fails c \<sigma>)"
    and "authorised owner req (deliver n \<sigma>)"
proof -
  show "authorised owner req (start_mark_done c run inst \<sigma>)"
    using assms authorisedD(1) [OF assms]
    by (auto simp: start_mark_done_def Let_def split: option.splits intro!: authorised_goes_on authorised_set_reg)
  show "authorised owner req (deliver n \<sigma>)"
  proof (cases "n < length (cl_bus \<sigma>)")
    case True
    obtain inst1 run1 where msg: "cl_bus \<sigma> ! n = (inst1, run1)" by fastforce
    then have "req run1" using authorisedD(3) [OF assms, of inst1 run1] True by (metis nth_mem)
    then show ?thesis using True msg assms
      by (auto simp: deliver_def intro!: authorised_set_reg authorised_drop)
  qed (simp add: deliver_def assms)
qed (use assms in \<open>auto simp: start_poll_def start_finalize_def contend_def redis_fails_def
      split: option.splits pending.splits intro!: authorised_ends authorised_goes_on authorised_set_reg\<close>)

lemma take_step_authorised:
  assumes "authorised owner req \<sigma>" and "registers_as owner s"
    and "\<And>run. asks_cancel owner run s \<Longrightarrow> req run"
  shows "authorised owner req (take_step s \<sigma>)"
proof (cases s)
  case (Register_call c run user inst)
  then show ?thesis using assms authorisedD(2) [OF assms(1)]
    by (auto intro!: authorised_goes_on)
next
  case (Next c)
  then show ?thesis using assms authorisedD(5) [OF assms(1)]
    by (auto split: option.splits intro!: advance_authorised)
next
  case (Lose n)
  then show ?thesis using assms by (auto simp: authorised_drop)
next
  case (Task_ends inst run)
  then show ?thesis using assms by (auto intro!: authorised_set_reg)
qed (use assms in \<open>auto simp: start_cancel_authorised other_starts_authorised authorised_drop
      intro!: authorised_goes_on\<close>)

lemma cancel_run_steps_authorised:
  assumes "authorised owner req \<sigma>" and "\<forall>s\<in>set ss. registers_as owner s"
    and "\<And>run. \<exists>s\<in>set ss. asks_cancel owner run s \<Longrightarrow> req run"
  shows "authorised owner req (cancel_run_steps ss \<sigma>)"
  using assms
proof (induction ss arbitrary: \<sigma>)
  case (Cons s ss)
  have "authorised owner req (take_step s \<sigma>)"
    using Cons.prems by (intro take_step_authorised) auto
  then show ?case using Cons.IH Cons.prems by (simp add: cancel_run_steps_def)
qed (simp add: cancel_run_steps_def)

lemma authorised_empty: "authorised owner req cl_empty"
  by (auto simp: authorised_def cl_empty_def)


subsection \<open>Finalizing\<close>

text \<open>Calls of a run that give its registration a new life: registering it, and a finalize that can
  still fall back to generating.\<close>

fun restarts :: "string \<Rightarrow> cancel_step \<Rightarrow> bool" where
  "restarts run (Register_call c run1 user inst) = (run1 = run)"
| "restarts run (Unregister_call c run1 inst) = (run1 = run)"
| "restarts run (Finalize_call c run1 inst) = (run1 = run)"
| "restarts run _ = False"

fun restarting :: "string \<Rightarrow> pending \<Rightarrow> bool" where
  "restarting run (Registering run1 user inst pre stage) = (run1 = run)"
| "restarting run (Finalizing_call run1 inst n) = (run1 = run)"
| "restarting run _ = False"

definition protected :: "string \<Rightarrow> string \<Rightarrow> bool \<Rightarrow> cluster \<Rightarrow> bool" where
  "protected inst run b \<sigma> \<longleftrightarrow>
     (\<exists>reg. cl_local \<sigma> inst run = Some reg \<and> lg_phase reg \<noteq> Generating \<and> lg_task_cancelled reg = b) \<and>
     (\<forall>c p. cl_pending \<sigma> c = Some p \<longrightarrow> \<not> restarting run p)"

lemma cancel_reg_fields [simp]:
  "lg_phase (cancel_reg reg) = lg_phase reg"
  "lg_phase reg \<noteq> Generating \<Longrightarrow> lg_task_cancelled (cancel_reg reg) = lg_task_cancelled reg"
  "lg_cancelled (cancel_reg reg)"
  by (auto simp: cancel_reg_def)

lemma protected_kept:
  assumes "protected inst run b \<sigma>"
  shows "\<not> restarting run p \<Longrightarrow> protected inst run b (goes_on c p \<sigma>)"
    and "protected inst run b (ends c \<sigma>)"
    and "protected inst run b (ends_with c r \<sigma>)"
    and "protected inst run b (put_run run1 rec \<sigma>)"
    and "protected inst run b (\<sigma>\<lparr>cl_runs := rs\<rparr>)"
    and "protected inst run b (\<sigma>\<lparr>cl_tombs := ts\<rparr>)"
    and "protected inst run b (\<sigma>\<lparr>cl_bus := ms\<rparr>)"
    and "run1 \<noteq> run \<Longrightarrow> protected inst run b (\<sigma>\<lparr>cl_local := (cl_local \<sigma>)(inst1 := (cl_local \<sigma> inst1)(run1 := x))\<rparr>)"
  using assms by (auto simp: protected_def split: if_splits)

lemma protected_set_reg:
  assumes "protected inst run b \<sigma>"
    and "\<And>reg. run1 = run \<Longrightarrow> lg_phase reg \<noteq> Generating \<Longrightarrow>
           lg_phase (f reg) \<noteq> Generating \<and> lg_task_cancelled (f reg) = lg_task_cancelled reg"
  shows "protected inst run b (set_reg inst1 run1 f \<sigma>)"
  using assms by (auto simp: protected_def)

lemma cancel_flagged [simp]: "cancel_reg (reg\<lparr>lg_cancelled := True\<rparr>) = reg\<lparr>lg_cancelled := True\<rparr>"
  by (simp add: cancel_reg_def)

lemmas protected_intros = protected_kept protected_set_reg

lemma advance_protected:
  assumes "protected inst run b \<sigma>" and "\<not> restarting run p"
  shows "protected inst run b (advance c p \<sigma>)"
  using assms by (cases p) (auto simp: Let_def split: option.splits intro!: protected_intros)

lemma starts_protected:
  assumes "protected inst run b \<sigma>"
  shows "protected inst run b (start_cancel c run1 user inst1 \<sigma>)"
    and "protected inst run b (start_poll c run1 inst1 \<sigma>)"
    and "run1 \<noteq> run \<Longrightarrow> protected inst run b (start_finalize c run1 inst1 \<sigma>)"
    and "protected inst run b (start_mark_done c run1 inst1 \<sigma>)"
    and "protected inst run b (redis_fails c \<sigma>)"
    and "protected inst run b (deliver n \<sigma>)"
  using assms
  by (auto simp: start_cancel_def start_poll_def start_finalize_def start_mark_done_def redis_fails_def
      deliver_def Let_def split: option.splits pending.splits prod.splits intro!: protected_intros)

lemma contend_protected:
  assumes "protected inst run b \<sigma>"
  shows "protected inst run b (contend c \<sigma>)"
proof -
  have "run1 \<noteq> run" if "cl_pending \<sigma> c = Some (Finalizing_call run1 inst1 n)" for run1 inst1 n
    using assms that unfolding protected_def by (metis restarting.simps(2))
  then show ?thesis using assms
    by (auto simp: contend_def split: option.splits pending.splits intro!: protected_intros)
qed

lemma take_step_protected:
  assumes "protected inst run b \<sigma>" and "\<not> restarts run s"
  shows "protected inst run b (take_step s \<sigma>)"
proof (cases s)
  case (Next c)
  then show ?thesis using assms
    by (auto simp: protected_def split: option.splits intro!: advance_protected [unfolded protected_def])
qed (use assms in \<open>auto simp: starts_protected contend_protected intro!: protected_intros\<close>)

text \<open>
  C11. Once finalizing has begun, completion wins: with begin_finalize returned and no other
  registration of the run under way, no request to cancel it, no message and no poll of any
  instance cancels its task, in any order of steps, until the run is registered again.
\<close>

theorem finalizing_is_not_interrupted:
  assumes "cl_local \<sigma> inst run = Some reg" and "lg_phase reg \<noteq> Generating"
    and "\<forall>c p. cl_pending \<sigma> c = Some p \<longrightarrow> \<not> restarting run p"
    and "\<forall>s\<in>set ss. \<not> restarts run s"
  shows "\<exists>reg1. cl_local (cancel_run_steps ss \<sigma>) inst run = Some reg1 \<and>
           lg_phase reg1 \<noteq> Generating \<and> lg_task_cancelled reg1 = lg_task_cancelled reg"
proof -
  have "protected inst run (lg_task_cancelled reg) (cancel_run_steps ss \<sigma>)"
    if "protected inst run (lg_task_cancelled reg) \<sigma>" for \<sigma>
    using assms(4) that
    by (induction ss arbitrary: \<sigma>) (auto simp: cancel_run_steps_def take_step_protected)
  moreover have "protected inst run (lg_task_cancelled reg) \<sigma>"
    using assms(1,2,3) by (auto simp: protected_def)
  ultimately show ?thesis unfolding protected_def by blast
qed

subsection \<open>A recorded cancel stops the commit\<close>

text \<open>The steps and pending calls that write a record which is not cancelled.\<close>

fun revives :: "string \<Rightarrow> cancel_step \<Rightarrow> bool" where
  "revives run (Register_call c run1 user inst) = (run1 = run)"
| "revives run (Mark_done_call c run1 inst) = (run1 = run)"
| "revives run _ = False"

fun reviving :: "string \<Rightarrow> pending \<Rightarrow> bool" where
  "reviving run (Registering run1 user inst pre stage) = (run1 = run)"
| "reviving run (Marking run1 rec) = (run1 = run)"
| "reviving run (Notifying run1 inst rec) = False"
| "reviving run _ = False"

definition stays_cancelled :: "string \<Rightarrow> cluster \<Rightarrow> bool" where
  "stays_cancelled run \<sigma> \<longleftrightarrow>
     (\<forall>rec. cl_runs \<sigma> run = Some rec \<longrightarrow> rr_cancelled rec) \<and>
     (\<forall>c p. cl_pending \<sigma> c = Some p \<longrightarrow> \<not> reviving run p)"

lemma stays_cancelled_kept:
  assumes "stays_cancelled run \<sigma>"
  shows "\<not> reviving run p \<Longrightarrow> stays_cancelled run (goes_on c p \<sigma>)"
    and "stays_cancelled run (ends c \<sigma>)"
    and "stays_cancelled run (ends_with c r \<sigma>)"
    and "run1 = run \<longrightarrow> rr_cancelled rec \<Longrightarrow> stays_cancelled run (put_run run1 rec \<sigma>)"
    and "stays_cancelled run (\<sigma>\<lparr>cl_runs := (cl_runs \<sigma>)(run1 := None)\<rparr>)"
    and "stays_cancelled run (\<sigma>\<lparr>cl_tombs := ts\<rparr>)"
    and "stays_cancelled run (\<sigma>\<lparr>cl_bus := ms\<rparr>)"
    and "stays_cancelled run (\<sigma>\<lparr>cl_local := ls\<rparr>)"
    and "stays_cancelled run (set_reg inst run1 f \<sigma>)"
  using assms by (auto simp: stays_cancelled_def split: if_splits)

lemma advance_stays_cancelled:
  assumes "stays_cancelled run \<sigma>" and "\<not> reviving run p"
  shows "stays_cancelled run (advance c p \<sigma>)"
proof (cases p)
  case (Finalizing_call run1 inst n)
  have "rr_cancelled rec" if "cl_runs \<sigma> run = Some rec" for rec
    using assms(1) that by (auto simp: stays_cancelled_def)
  then show ?thesis using assms Finalizing_call
    by (auto split: option.splits intro!: stays_cancelled_kept)
qed (use assms in \<open>auto simp: Let_def split: option.splits intro!: stays_cancelled_kept\<close>)

lemma take_step_stays_cancelled:
  assumes "stays_cancelled run \<sigma>" and "\<not> revives run s"
  shows "stays_cancelled run (take_step s \<sigma>)"
proof (cases s)
  case (Next c)
  then show ?thesis using assms
    by (auto simp: stays_cancelled_def split: option.splits
        intro!: advance_stays_cancelled [unfolded stays_cancelled_def])
qed (use assms in \<open>auto simp: start_cancel_def start_poll_def start_finalize_def start_mark_done_def
      contend_def redis_fails_def deliver_def Let_def split: option.splits pending.splits prod.splits
      intro!: stays_cancelled_kept\<close>)

text \<open>
  C12. A recorded cancel stops the commit: once the shared record of a run says cancelled, and no
  registration or completion of it is under way, every begin_finalize that reaches its transaction
  answers no, whatever instances, other calls, expiries and lost messages come in between.
\<close>

theorem cancelled_run_cannot_commit:
  assumes "cl_runs \<sigma> run = Some rec" and "rr_cancelled rec"
    and "\<forall>c p. cl_pending \<sigma> c = Some p \<longrightarrow> \<not> reviving run p"
    and "\<forall>s\<in>set ss. \<not> revives run s"
    and "cl_pending (cancel_run_steps ss \<sigma>) c = Some (Finalizing_call run inst n)"
  shows "cl_results (take_step (Next c) (cancel_run_steps ss \<sigma>)) =
           cl_results (cancel_run_steps ss \<sigma>) @ [(c, False)]"
proof -
  have "stays_cancelled run (cancel_run_steps ss \<sigma>)" if "stays_cancelled run \<sigma>" for \<sigma>
    using assms(4) that
    by (induction ss arbitrary: \<sigma>) (auto simp: cancel_run_steps_def take_step_stays_cancelled)
  moreover have "stays_cancelled run \<sigma>" using assms(1,2,3) by (auto simp: stays_cancelled_def)
  ultimately have "stays_cancelled run (cancel_run_steps ss \<sigma>)" .
  then show ?thesis using assms(5) by (auto simp: stays_cancelled_def split: option.splits)
qed

subsection \<open>Schedules\<close>

text \<open>Alice's run on instance i1, stopped from instance i2 while it generates: the message arrives
  and cancels the task.\<close>

definition stopped_run :: "cancel_step list" where
  "stopped_run =
     [Register_call 0 ''run'' ''alice'' ''i1'', Next 0, Next 0, Cancel_call 1 ''run'' ''alice'' ''i2'',
      Next 1, Next 1, Deliver 0]"

text \<open>
  Requests that are answered yes and have no effect: (1) another user who cancels a run that is
  not registered yet replaces the owner's request, and the run then starts uncancelled; (2) a cancel
  that falls between the two Redis commands of the registration is lost as well; (3) a cancel that
  has read the record before begin_finalize's transaction succeeds together with it.
\<close>

theorem acknowledged_cancels_are_lost:
  "let replaced = cancel_run_steps
         [Cancel_call 0 ''run'' ''alice'' ''i1'', Next 0, Cancel_call 1 ''run'' ''bob'' ''i1'', Next 1,
          Register_call 2 ''run'' ''alice'' ''i1'', Next 2, Next 2] cl_empty;
       overtaken = cancel_run_steps
         [Register_call 0 ''run'' ''alice'' ''i1'', Cancel_call 1 ''run'' ''alice'' ''i2'', Next 1,
          Next 0, Next 0] cl_empty;
       both = cancel_run_steps
         [Register_call 0 ''run'' ''alice'' ''i1'', Next 0, Next 0, Cancel_call 1 ''run'' ''alice'' ''i1'',
          Finalize_call 2 ''run'' ''i1'', Next 2, Next 1, Next 1] cl_empty
   in cl_results replaced = [(0, True), (1, True)] \<and>
      map_option lg_cancelled (cl_local replaced ''i1'' ''run'') = Some False \<and>
      map_option rr_cancelled (cl_runs replaced ''run'') = Some False \<and>
      cl_results overtaken = [(1, True)] \<and>
      map_option lg_cancelled (cl_local overtaken ''i1'' ''run'') = Some False \<and>
      map_option rr_cancelled (cl_runs overtaken ''run'') = Some False \<and>
      cl_results both = [(2, True), (1, True)] \<and>
      map_option lg_task_cancelled (cl_local both ''i1'' ''run'') = Some False"
  by code_simp


definition finalizing_run :: cluster where
  "finalizing_run = cancel_run_steps
     [Register_call 0 ''run'' ''alice'' ''i1'', Next 0, Next 0, Finalize_call 1 ''run'' ''i1'', Next 1] cl_empty"

lemma finalizing_run_pending: "cl_pending finalizing_run c = None"
  by (simp add: finalizing_run_def cancel_run_steps_def cl_empty_def start_finalize_def
      new_registration_def fresh_record_def)

lemma finalizing_is_not_interrupted_witness:
  "\<exists>reg1. cl_local (cancel_run_steps [Cancel_call 2 ''run'' ''alice'' ''i2'', Next 2, Next 2] finalizing_run)
            ''i1'' ''run'' = Some reg1 \<and> lg_phase reg1 \<noteq> Generating \<and> \<not> lg_task_cancelled reg1"
  using finalizing_is_not_interrupted [of finalizing_run "''i1''" "''run''"
      "\<lparr>lg_user = ''alice'', lg_task_done = False, lg_task_cancelled = False, lg_cancelled = False,
        lg_polls = 0, lg_phase = Finalizing\<rparr>"
      "[Cancel_call 2 ''run'' ''alice'' ''i2'', Next 2, Next 2]"]
  by (simp add: finalizing_run_pending)
    (simp add: finalizing_run_def cancel_run_steps_def cl_empty_def start_finalize_def
      new_registration_def fresh_record_def)

definition cancelled_run :: cluster where
  "cancelled_run = cancel_run_steps
     [Register_call 0 ''run'' ''alice'' ''i1'', Next 0, Next 0, Cancel_call 1 ''run'' ''alice'' ''i2'',
      Next 1, Next 1] cl_empty"

lemma cancelled_run_fields:
  "cl_pending cancelled_run c = None"
  "cl_runs cancelled_run ''run'' =
     Some \<lparr>rr_user = ''alice'', rr_instance = ''i1'', rr_cancelled = True, rr_phase = Some Generating\<rparr>"
  by (simp_all add: cancelled_run_def cancel_run_steps_def cl_empty_def start_cancel_def
      new_registration_def fresh_record_def)

lemma cancelled_run_cannot_commit_witness:
  "cl_results (take_step (Next 5) (cancel_run_steps [Lose 0, Finalize_call 5 ''run'' ''i1''] cancelled_run)) =
     cl_results (cancel_run_steps [Lose 0, Finalize_call 5 ''run'' ''i1''] cancelled_run) @ [(5, False)]"
proof (rule cancelled_run_cannot_commit)
  show "cl_runs cancelled_run ''run'' =
     Some \<lparr>rr_user = ''alice'', rr_instance = ''i1'', rr_cancelled = True, rr_phase = Some Generating\<rparr>"
    by (rule cancelled_run_fields)
  show "cl_pending (cancel_run_steps [Lose 0, Finalize_call 5 ''run'' ''i1''] cancelled_run) 5 =
      Some (Finalizing_call ''run'' ''i1'' 0)"
    by code_simp
qed (simp_all add: cancelled_run_fields)

end
