(* ===== verification/Cancel_Agreement.thy ===== *)
theory Cancel_Agreement
  imports Cancel_Service
begin

text \<open>
  The in-memory cancel service against the Redis one (app/services/cancel_service.py): within one
  instance, with calls that do not overlap and keys that live long enough, both give the same
  answers and keep the same registrations.
\<close>

datatype cancel_call =
    Register string string
  | Unregister string
  | Cancel string string
  | Is_cancelled string
  | Begin_finalize string
  | Mark_done string

definition mem_call :: "string \<Rightarrow> cancel_call \<Rightarrow> mem_service \<Rightarrow> mem_service \<times> bool option" where
  "mem_call inst call m =
     (case call of
        Register run user \<Rightarrow> (mc_register inst run user m, None)
      | Unregister run \<Rightarrow> (mc_unregister run m, None)
      | Cancel run user \<Rightarrow> map_prod id Some (mc_cancel_run run user m)
      | Is_cancelled run \<Rightarrow> map_prod id Some (mc_is_cancelled run m)
      | Begin_finalize run \<Rightarrow> map_prod id Some (mc_begin_finalize run m)
      | Mark_done run \<Rightarrow> (mc_mark_done run m, None))"

text \<open>A call of the Redis service on its own: its first command, then the ones it still has to run.\<close>

definition first_step :: "string \<Rightarrow> cancel_call \<Rightarrow> cancel_step" where
  "first_step inst call =
     (case call of
        Register run user \<Rightarrow> Register_call 0 run user inst
      | Unregister run \<Rightarrow> Unregister_call 0 run inst
      | Cancel run user \<Rightarrow> Cancel_call 0 run user inst
      | Is_cancelled run \<Rightarrow> Poll_call 0 run inst
      | Begin_finalize run \<Rightarrow> Finalize_call 0 run inst
      | Mark_done run \<Rightarrow> Mark_done_call 0 run inst)"

definition redis_call :: "string \<Rightarrow> cancel_call \<Rightarrow> cluster \<Rightarrow> cluster \<times> bool option" where
  "redis_call inst call \<sigma> =
     (let \<sigma>1 = cancel_run_steps (first_step inst call # replicate 4 (Next 0)) (\<sigma>\<lparr>cl_results := []\<rparr>)
      in (\<sigma>1, case cl_results \<sigma>1 of [] \<Rightarrow> None | r # rs \<Rightarrow> Some (snd r)))"

fun answers :: "('c \<Rightarrow> 's \<Rightarrow> 's \<times> bool option) \<Rightarrow> 'c list \<Rightarrow> 's \<Rightarrow> bool option list" where
  "answers f [] st = []"
| "answers f (c # cs) st = (case f c st of (st1, a) \<Rightarrow> a # answers f cs st1)"

text \<open>The owner registers, and a run is unregistered after it was registered (\<open>register_run\<close>).\<close>

definition call_ok :: "(string \<Rightarrow> string) \<Rightarrow> mem_service \<Rightarrow> cancel_call \<Rightarrow> bool" where
  "call_ok owner m call =
     (case call of Register run user \<Rightarrow> user = owner run
      | Unregister run \<Rightarrow> mc_runs m run \<noteq> None
      | _ \<Rightarrow> True)"

fun calls_ok :: "(string \<Rightarrow> string) \<Rightarrow> string \<Rightarrow> cancel_call list \<Rightarrow> mem_service \<Rightarrow> bool" where
  "calls_ok owner inst [] m = True"
| "calls_ok owner inst (c # cs) m = (call_ok owner m c \<and> calls_ok owner inst cs (fst (mem_call inst c m)))"

definition same_record :: "string \<Rightarrow> local_reg option \<Rightarrow> run_record option \<Rightarrow> run_record option \<Rightarrow> bool" where
  "same_record inst local a b =
     (case (a, b, local) of
        (None, None, None) \<Rightarrow> True
      | (Some a, Some b, Some reg) \<Rightarrow> rr_user a = rr_user b \<and> rr_instance b = inst \<and>
          rr_cancelled a = rr_cancelled b \<and> lg_cancelled reg = rr_cancelled a
      | _ \<Rightarrow> False)"

definition services_match :: "(string \<Rightarrow> string) \<Rightarrow> string \<Rightarrow> mem_service \<Rightarrow> cluster \<Rightarrow> bool" where
  "services_match owner inst m \<sigma> \<longleftrightarrow> cl_pending \<sigma> 0 = None \<and>
     (\<forall>run. mc_local m run = cl_local \<sigma> inst run \<and>
        same_record inst (mc_local m run) (mc_runs m run) (cl_runs \<sigma> run) \<and>
        (mc_tombs m run = Some (owner run) \<longleftrightarrow> cl_tombs \<sigma> run = Some (owner run)) \<and>
        (mc_runs m run \<noteq> None \<longrightarrow> cl_tombs \<sigma> run \<noteq> Some (owner run)))"

lemma services_matchD:
  assumes "services_match owner inst m \<sigma>"
  shows "cl_pending \<sigma> 0 = None" "cl_local \<sigma> inst run = mc_local m run"
    "same_record inst (mc_local m run) (mc_runs m run) (cl_runs \<sigma> run)"
    "(mc_tombs m run = Some (owner run)) = (cl_tombs \<sigma> run = Some (owner run))"
    "mc_runs m run \<noteq> None \<Longrightarrow> cl_tombs \<sigma> run \<noteq> Some (owner run)"
  using assms unfolding services_match_def by metis+

lemma services_matchI:
  assumes "cl_pending \<sigma>1 0 = None"
    and "\<And>run1. run1 \<noteq> run \<Longrightarrow> cl_local \<sigma>1 inst run1 = cl_local \<sigma> inst run1 \<and>
          cl_runs \<sigma>1 run1 = cl_runs \<sigma> run1 \<and> cl_tombs \<sigma>1 run1 = cl_tombs \<sigma> run1 \<and>
          mc_local m1 run1 = mc_local m run1 \<and> mc_runs m1 run1 = mc_runs m run1 \<and>
          mc_tombs m1 run1 = mc_tombs m run1"
    and "services_match owner inst m \<sigma>"
    and "cl_local \<sigma>1 inst run = mc_local m1 run"
    and "same_record inst (mc_local m1 run) (mc_runs m1 run) (cl_runs \<sigma>1 run)"
    and "(mc_tombs m1 run = Some (owner run)) = (cl_tombs \<sigma>1 run = Some (owner run))"
    and "mc_runs m1 run \<noteq> None \<Longrightarrow> cl_tombs \<sigma>1 run \<noteq> Some (owner run)"
  shows "services_match owner inst m1 \<sigma>1"
  unfolding services_match_def
proof (intro conjI allI)
  fix run1
  show "mc_local m1 run1 = cl_local \<sigma>1 inst run1"
    using assms(2) [of run1] assms(4) services_matchD(2) [OF assms(3), of run1] by (cases "run1 = run") auto
  show "same_record inst (mc_local m1 run1) (mc_runs m1 run1) (cl_runs \<sigma>1 run1)"
    using assms(2) [of run1] assms(5) services_matchD(3) [OF assms(3), of run1] by (cases "run1 = run") auto
  show "(mc_tombs m1 run1 = Some (owner run1)) = (cl_tombs \<sigma>1 run1 = Some (owner run1))"
    using assms(2) [of run1] assms(6) services_matchD(4) [OF assms(3), of run1] by (cases "run1 = run") auto
  show "mc_runs m1 run1 \<noteq> None \<longrightarrow> cl_tombs \<sigma>1 run1 \<noteq> Some (owner run1)"
    using assms(2) [of run1] assms(7) services_matchD(5) [OF assms(3), of run1] by (cases "run1 = run") auto
qed (rule assms(1))

lemma same_record_cases:
  assumes "same_record inst local a b"
  obtains "a = None" "b = None" "local = None"
  | ra rb reg where "a = Some ra" "b = Some rb" "local = Some reg" "rr_user ra = rr_user rb"
      "rr_instance rb = inst" "rr_cancelled ra = rr_cancelled rb" "lg_cancelled reg = rr_cancelled ra"
  using assms by (auto simp: same_record_def split: option.splits)

lemma same_record_simps [simp]:
  "same_record inst None None None"
  "same_record inst (Some reg) (Some a) (Some b) \<longleftrightarrow> rr_user a = rr_user b \<and> rr_instance b = inst \<and>
     rr_cancelled a = rr_cancelled b \<and> lg_cancelled reg = rr_cancelled a"
  by (auto simp: same_record_def)

lemmas redis_call_eval = redis_call_def first_step_def cancel_run_steps_def Let_def numeral_eq_Suc

text \<open>Both services keep matching states and give the same answer, call by call.\<close>

definition same_effect :: "(string \<Rightarrow> string) \<Rightarrow> string \<Rightarrow> cancel_call \<Rightarrow> mem_service \<Rightarrow> cluster \<Rightarrow> bool" where
  "same_effect owner inst call m \<sigma> \<longleftrightarrow>
     services_match owner inst (fst (mem_call inst call m)) (fst (redis_call inst call \<sigma>)) \<and>
     snd (redis_call inst call \<sigma>) = snd (mem_call inst call m)"

lemma register_same:
  assumes match: "services_match owner inst m \<sigma>" and user: "user = owner run"
  shows "same_effect owner inst (Register run user) m \<sigma>"
proof (cases "cl_tombs \<sigma> run = Some user")
  case True
  then have tomb: "mc_tombs m run = Some user" using services_matchD(4) [OF match] user by blast
  show ?thesis unfolding same_effect_def
    by (intro conjI services_matchI [OF _ _ match, of _ run])
      (use True tomb user services_matchD(1) [OF match] in
        \<open>auto simp: redis_call_eval mem_call_def mc_register_def fresh_record_def new_registration_def\<close>)
next
  case False
  then have tomb: "mc_tombs m run \<noteq> Some user" using services_matchD(4) [OF match] user by blast
  show ?thesis unfolding same_effect_def
    by (intro conjI services_matchI [OF _ _ match, of _ run])
      (use False tomb user services_matchD(1) [OF match] in
        \<open>auto simp: redis_call_eval mem_call_def mc_register_def fresh_record_def new_registration_def\<close>)
qed

lemma unregister_same:
  assumes match: "services_match owner inst m \<sigma>" and "mc_runs m run \<noteq> None"
  shows "same_effect owner inst (Unregister run) m \<sigma>"
  unfolding same_effect_def
  by (intro conjI services_matchI [OF _ _ match, of _ run])
    (use services_matchD(1) [OF match] services_matchD(5) [OF match assms(2)] in
      \<open>auto simp: redis_call_eval mem_call_def mc_unregister_def\<close>)

lemma services_match_cases:
  assumes match: "services_match owner inst m \<sigma>"
  obtains "mc_runs m run = None" "cl_runs \<sigma> run = None" "mc_local m run = None"
      "cl_local \<sigma> inst run = None" "cl_pending \<sigma> 0 = None"
  | ra rb reg where "mc_runs m run = Some ra" "cl_runs \<sigma> run = Some rb" "mc_local m run = Some reg"
      "cl_local \<sigma> inst run = Some reg" "rr_user ra = rr_user rb" "rr_instance rb = inst"
      "rr_cancelled ra = rr_cancelled rb" "lg_cancelled reg = rr_cancelled ra"
      "cl_tombs \<sigma> run \<noteq> Some (owner run)" "cl_pending \<sigma> 0 = None"
proof (cases rule: same_record_cases [OF services_matchD(3) [OF match, of run]])
  case 1
  then show ?thesis using services_matchD(1,2) [OF match] that(1) by simp
next
  case (2 ra rb reg)
  then show ?thesis
    using services_matchD(1,2) [OF match] services_matchD(5) [OF match, of run] that(2) by simp
qed

lemma cancel_same:
  assumes match: "services_match owner inst m \<sigma>"
  shows "same_effect owner inst (Cancel run user) m \<sigma>"
  unfolding same_effect_def
  by (intro conjI services_matchI [OF _ _ match, of _ run]; cases rule: services_match_cases [OF match, of run])
    (use services_matchD(4) [OF match] in
      \<open>auto simp: redis_call_eval mem_call_def mc_cancel_run_def start_cancel_def apply_local_cancel_def cancel_reg_def\<close>)

lemma is_cancelled_same:
  assumes match: "services_match owner inst m \<sigma>"
  shows "same_effect owner inst (Is_cancelled run) m \<sigma>"
  unfolding same_effect_def
  by (intro conjI services_matchI [OF _ _ match, of _ run]; cases rule: services_match_cases [OF match, of run])
    (use services_matchD(4) [OF match] in
      \<open>auto simp: redis_call_eval mem_call_def mc_is_cancelled_def start_poll_def\<close>)

lemma begin_finalize_same:
  assumes match: "services_match owner inst m \<sigma>"
  shows "same_effect owner inst (Begin_finalize run) m \<sigma>"
  unfolding same_effect_def
  by (intro conjI services_matchI [OF _ _ match, of _ run]; cases rule: services_match_cases [OF match, of run])
    (use services_matchD(4) [OF match] in
      \<open>auto simp: redis_call_eval mem_call_def mc_begin_finalize_def start_finalize_def\<close>)

lemma mark_done_same:
  assumes match: "services_match owner inst m \<sigma>"
  shows "same_effect owner inst (Mark_done run) m \<sigma>"
  unfolding same_effect_def
  by (intro conjI services_matchI [OF _ _ match, of _ run]; cases rule: services_match_cases [OF match, of run])
    (use services_matchD(4) [OF match] in
      \<open>auto simp: redis_call_eval mem_call_def mc_mark_done_def start_mark_done_def\<close>)

lemma call_same:
  assumes "services_match owner inst m \<sigma>" and "call_ok owner m call"
  shows "same_effect owner inst call m \<sigma>"
  using assms
  by (cases call) (auto simp: call_ok_def intro: register_same unregister_same cancel_same
      is_cancelled_same begin_finalize_same mark_done_same)



end
