(* ===== verification/Calendar.thy ===== *)
theory Calendar
  imports Prelude
begin

text \<open>
  Dates of the proleptic Gregorian calendar as Python's \<open>datetime.date\<close> has them: years 1 to
  9999, ordered by year, month and day, with the ordinal of \<open>toordinal\<close> and addition of whole days
  that fails outside that range. The business-time functions of the query compiler use nothing
  else of the class.
\<close>

datatype date = Date (d_year: int) (d_month: int) (d_day: int)

instantiation date :: linorder
begin

definition less_eq_date :: "date \<Rightarrow> date \<Rightarrow> bool" where
  "less_eq_date a b \<longleftrightarrow> d_year a < d_year b \<or> d_year a = d_year b \<and>
     (d_month a < d_month b \<or> d_month a = d_month b \<and> d_day a \<le> d_day b)"

definition less_date :: "date \<Rightarrow> date \<Rightarrow> bool" where
  "less_date a b \<longleftrightarrow> d_year a < d_year b \<or> d_year a = d_year b \<and>
     (d_month a < d_month b \<or> d_month a = d_month b \<and> d_day a < d_day b)"

instance
  by standard (auto simp: less_eq_date_def less_date_def intro: date.expand)

end

definition is_leap :: "int \<Rightarrow> bool" where
  "is_leap y \<longleftrightarrow> y mod 4 = 0 \<and> (y mod 100 \<noteq> 0 \<or> y mod 400 = 0)"

definition days_in_month :: "int \<Rightarrow> int \<Rightarrow> int" where
  "days_in_month y m =
     (if m = 2 then (if is_leap y then 29 else 28) else if m \<in> {4, 6, 9, 11} then 30 else 31)"

definition valid_date :: "date \<Rightarrow> bool" where
  "valid_date d \<longleftrightarrow> 1 \<le> d_year d \<and> d_year d \<le> 9999 \<and> 1 \<le> d_month d \<and> d_month d \<le> 12 \<and>
     1 \<le> d_day d \<and> d_day d \<le> days_in_month (d_year d) (d_month d)"

definition min_date :: date where "min_date = Date 1 1 1"

definition max_date :: date where "max_date = Date 9999 12 31"

definition days_before_year :: "int \<Rightarrow> int" where
  "days_before_year y = (y - 1) * 365 + (y - 1) div 4 - (y - 1) div 100 + (y - 1) div 400"

definition days_before_month :: "int \<Rightarrow> int \<Rightarrow> int" where
  "days_before_month y m =
     [0, 0, 31, 59, 90, 120, 151, 181, 212, 243, 273, 304, 334] ! nat m
       + (if 2 < m \<and> is_leap y then 1 else 0)"

definition ordinal :: "date \<Rightarrow> int" where
  "ordinal d = days_before_year (d_year d) + days_before_month (d_year d) (d_month d) + d_day d"

text \<open>Monday is 0.\<close>

definition weekday :: "date \<Rightarrow> int" where
  "weekday d = (ordinal d + 6) mod 7"

fun next_day :: "date \<Rightarrow> date" where
  "next_day (Date y m d) =
     (if d < days_in_month y m then Date y m (d + 1)
      else if m < 12 then Date y (m + 1) 1 else Date (y + 1) 1 1)"

fun prev_day :: "date \<Rightarrow> date" where
  "prev_day (Date y m d) =
     (if 1 < d then Date y m (d - 1)
      else if 1 < m then Date y (m - 1) (days_in_month y (m - 1)) else Date (y - 1) 12 31)"

text \<open>\<open>d + timedelta(days=n)\<close> and \<open>d - timedelta(days=n)\<close>; an OverflowError is \<open>None\<close>.\<close>

fun add_days :: "nat \<Rightarrow> date \<Rightarrow> date option" where
  "add_days 0 d = Some d"
| "add_days (Suc n) d = (if max_date \<le> d then None else add_days n (next_day d))"

fun sub_days :: "nat \<Rightarrow> date \<Rightarrow> date option" where
  "sub_days 0 d = Some d"
| "sub_days (Suc n) d = (if d \<le> min_date then None else sub_days n (prev_day d))"

text \<open>The constructor \<open>date(year, month, day)\<close>; a ValueError is \<open>None\<close>.\<close>

definition make_date :: "int \<Rightarrow> int \<Rightarrow> int \<Rightarrow> date option" where
  "make_date y m d = (if valid_date (Date y m d) then Some (Date y m d) else None)"

subsection \<open>Months and years\<close>

lemma month_cases:
  assumes "1 \<le> m" and "m \<le> (12 :: int)"
  obtains "m = 1" | "m = 2" | "m = 3" | "m = 4" | "m = 5" | "m = 6" | "m = 7" | "m = 8" | "m = 9"
    | "m = 10" | "m = 11" | "m = 12"
proof -
  have "m = 1 \<or> m = 2 \<or> m = 3 \<or> m = 4 \<or> m = 5 \<or> m = 6 \<or> m = 7 \<or> m = 8 \<or> m = 9 \<or> m = 10
      \<or> m = 11 \<or> m = 12"
    using assms by presburger
  then show ?thesis using that by blast
qed

lemma days_in_month_bounds: "28 \<le> days_in_month y m" "days_in_month y m \<le> 31"
  by (auto simp: days_in_month_def)

lemma days_before_month_Suc:
  assumes "1 \<le> m" and "m < 12"
  shows "days_before_month y (m + 1) = days_before_month y m + days_in_month y m"
proof -
  have "m \<le> 12" using assms by simp
  with assms(1) show ?thesis using assms(2)
    by (cases m rule: month_cases) (auto simp: days_before_month_def days_in_month_def)
qed

lemma days_before_month_mono:
  assumes "1 \<le> m" and "m < n" and "n \<le> 12"
  shows "days_before_month y m + days_in_month y m \<le> days_before_month y n"
proof -
  have n: "1 \<le> n" "m \<le> 12" using assms by auto
  show ?thesis using assms
    by (cases rule: month_cases [OF n(1) assms(3)]; cases rule: month_cases [OF assms(1) n(2)])
      (simp_all add: days_before_month_def days_in_month_def)
qed

lemma days_before_month_ends:
  "days_before_month y 1 = 0"
  "days_before_month y 12 + days_in_month y 12 = (if is_leap y then 366 else 365)"
  by (auto simp: days_before_month_def days_in_month_def)

lemma div_step:
  assumes "0 < (k :: int)"
  shows "y div k = (y - 1) div k + (if k dvd y then 1 else 0)"
proof (cases "k dvd y")
  case True
  then obtain q where "y = k * q" by auto
  then have "y - 1 = k * (q - 1) + (k - 1)" by (simp add: algebra_simps)
  then have "(y - 1) div k = q - 1" using assms by (intro int_div_pos_eq [of _ _ _ "k - 1"]) auto
  moreover have "y div k = q" using \<open>y = k * q\<close> assms by simp
  ultimately show ?thesis using True by simp
next
  case False
  then have "0 < y mod k" using assms by (simp add: dvd_eq_mod_eq_0 less_le)
  moreover have "y mod k < k" using assms by simp
  ultimately have "(y - 1) div k = y div k"
    by (intro int_div_pos_eq [of _ _ _ "y mod k - 1"]) auto
  with False show ?thesis by simp
qed

lemma is_leap_dvd: "is_leap y \<longleftrightarrow> 4 dvd y \<and> (\<not> 100 dvd y \<or> 400 dvd y)"
  by (simp only: is_leap_def dvd_eq_mod_eq_0)

lemma leap_count:
  "(c \<Longrightarrow> b) \<Longrightarrow> (b \<Longrightarrow> a) \<Longrightarrow> (if a \<and> (\<not> b \<or> c) then 1 else 0 :: int) =
     (if a then 1 else 0) - (if b then 1 else 0) + (if c then 1 else 0)"
  by (cases a; cases b; cases c) simp_all

lemma year_sum:
  "(a :: int) = a1 + i \<Longrightarrow> b = b1 + j \<Longrightarrow> c = c1 + k \<Longrightarrow> l = i - j + k \<Longrightarrow>
     y * 365 + a - b + c = (y - 1) * 365 + a1 - b1 + c1 + 365 + l"
  by simp

lemma days_before_year_Suc:
  "days_before_year (y + 1) = days_before_year y + (if is_leap y then 366 else 365)"
proof -
  have "400 dvd y \<Longrightarrow> 100 dvd y" and "100 dvd y \<Longrightarrow> 4 dvd y"
    by (rule dvd_trans [rotated], assumption, simp)+
  then have leap: "(if is_leap y then 1 else 0 :: int) =
      (if 4 dvd y then 1 else 0) - (if 100 dvd y then 1 else 0) + (if 400 dvd y then 1 else 0)"
    unfolding is_leap_dvd by (rule leap_count)
  have "days_before_year (y + 1) = y * 365 + y div 4 - y div 100 + y div 400"
    by (simp add: days_before_year_def)
  then have "days_before_year (y + 1) = days_before_year y + 365 + (if is_leap y then 1 else 0)"
    unfolding days_before_year_def
    by (simp only:, intro year_sum [OF div_step div_step div_step leap]) simp_all
  then show ?thesis by simp
qed

lemma days_before_year_mono:
  assumes "y \<le> z" shows "days_before_year y \<le> days_before_year z"
  using assms
proof (induction rule: int_ge_induct)
  case (step i)
  then show ?case using days_before_year_Suc [of i] by (auto split: if_splits)
qed simp

lemma ordinal_bounds:
  assumes "valid_date d"
  shows "days_before_year (d_year d) < ordinal d" and "ordinal d \<le> days_before_year (d_year d + 1)"
proof -
  let ?y = "d_year d" and ?m = "d_month d"
  have m: "1 \<le> ?m" "?m \<le> 12" and d: "1 \<le> d_day d" "d_day d \<le> days_in_month ?y ?m"
    using assms by (auto simp: valid_date_def)
  have "0 \<le> days_before_month ?y ?m"
    using m by (cases ?m rule: month_cases) (simp_all add: days_before_month_def)
  then show "days_before_year ?y < ordinal d" using d by (simp add: ordinal_def)
  have "days_before_month ?y ?m + days_in_month ?y ?m \<le> days_before_month ?y 12 + days_in_month ?y 12"
    using m days_before_month_mono [of ?m 12 ?y] days_in_month_bounds(1) [of ?y 12]
    by (cases "?m = 12") auto
  then show "ordinal d \<le> days_before_year (?y + 1)"
    using d by (simp add: ordinal_def days_before_year_Suc days_before_month_ends)
qed

text \<open>The order of dates is the order of their ordinals.\<close>

lemma ordinal_less:
  assumes "valid_date a" and "valid_date b" and "a < b"
  shows "ordinal a < ordinal b"
proof (cases "d_year a < d_year b")
  case True
  then have "days_before_year (d_year a + 1) \<le> days_before_year (d_year b)"
    by (intro days_before_year_mono) simp
  then show ?thesis using ordinal_bounds [OF assms(1)] ordinal_bounds [OF assms(2)] by linarith
next
  case False
  then have y: "d_year a = d_year b" using assms(3) by (auto simp: less_date_def)
  show ?thesis
  proof (cases "d_month a < d_month b")
    case True
    then have "days_before_month (d_year b) (d_month a) + days_in_month (d_year b) (d_month a)
        \<le> days_before_month (d_year b) (d_month b)"
      using assms y by (intro days_before_month_mono) (auto simp: valid_date_def)
    then show ?thesis using assms(1,2) y by (auto simp: ordinal_def valid_date_def)
  qed (use y assms(3) in \<open>auto simp: less_date_def ordinal_def\<close>)
qed

lemma ordinal_less_iff:
  "valid_date a \<Longrightarrow> valid_date b \<Longrightarrow> a < b \<longleftrightarrow> ordinal a < ordinal b"
  using ordinal_less by (metis less_asym not_less_iff_gr_or_eq)

lemma ordinal_le_iff:
  "valid_date a \<Longrightarrow> valid_date b \<Longrightarrow> a \<le> b \<longleftrightarrow> ordinal a \<le> ordinal b"
  using ordinal_less_iff by (metis leD leI)

lemma ordinal_inject:
  "valid_date a \<Longrightarrow> valid_date b \<Longrightarrow> ordinal a = ordinal b \<longleftrightarrow> a = b"
  using ordinal_less_iff by (metis less_irrefl neqE)

lemma valid_min [simp]: "valid_date min_date" and valid_max [simp]: "valid_date max_date"
  by (simp_all add: min_date_def max_date_def valid_date_def days_in_month_def)

lemma min_date_le: "valid_date d \<Longrightarrow> min_date \<le> d"
  by (auto simp: min_date_def less_eq_date_def valid_date_def)

lemma le_max_date: "valid_date d \<Longrightarrow> d \<le> max_date"
  using days_in_month_bounds(2) [of "d_year d" "d_month d"]
  by (auto simp: max_date_def less_eq_date_def valid_date_def)

lemma ordinal_min [simp]: "ordinal min_date = 1"
  by (simp add: min_date_def ordinal_def days_before_year_def days_before_month_def)

lemma ordinal_max [simp]: "ordinal max_date = 3652059"
  by (simp add: max_date_def ordinal_def days_before_year_def days_before_month_def is_leap_def)

lemma ordinal_range:
  assumes "valid_date d" shows "1 \<le> ordinal d" and "ordinal d \<le> 3652059"
  using min_date_le [OF assms] le_max_date [OF assms] assms
  by (simp_all add: ordinal_le_iff)

subsection \<open>Days before and after\<close>

lemma next_day_ok:
  assumes "valid_date d" and "d < max_date"
  shows "valid_date (next_day d)" and "ordinal (next_day d) = ordinal d + 1"
proof -
  obtain y m k where d: "d = Date y m k" by (cases d)
  have v: "1 \<le> y" "y \<le> 9999" "1 \<le> m" "m \<le> 12" "1 \<le> k" "k \<le> days_in_month y m"
    using assms(1) d by (auto simp: valid_date_def)
  have last: "m = 12 \<Longrightarrow> days_in_month y m \<le> k \<Longrightarrow> y < 9999"
    using assms(2) d v by (auto simp: less_date_def max_date_def days_in_month_def)
  show "valid_date (next_day d)"
    using v last days_in_month_bounds(1) [of y "m + 1"] days_in_month_bounds(1) [of "y + 1" 1] d
    by (auto simp: valid_date_def)
  show "ordinal (next_day d) = ordinal d + 1"
    using v d days_before_month_Suc [of m y] days_before_month_ends [of y]
      days_before_month_ends(1) [of "y + 1"] days_before_year_Suc [of y]
    by (auto simp: ordinal_def)
qed

lemma prev_day_ok:
  assumes "valid_date d" and "min_date < d"
  shows "valid_date (prev_day d)" and "ordinal (prev_day d) = ordinal d - 1"
proof -
  obtain y m k where d: "d = Date y m k" by (cases d)
  have v: "1 \<le> y" "y \<le> 9999" "1 \<le> m" "m \<le> 12" "1 \<le> k" "k \<le> days_in_month y m"
    using assms(1) d by (auto simp: valid_date_def)
  have first: "m = 1 \<Longrightarrow> k = 1 \<Longrightarrow> 1 < y"
    using assms(2) d v by (auto simp: less_date_def min_date_def)
  show "valid_date (prev_day d)"
    using v first days_in_month_bounds(1) [of y "m - 1"] d
    by (auto simp: valid_date_def days_in_month_def)
  have "days_before_month (y - 1) 12 + 31 = (if is_leap (y - 1) then 366 else 365)"
    using days_before_month_ends(2) [of "y - 1"] by (simp add: days_in_month_def)
  then show "ordinal (prev_day d) = ordinal d - 1"
    using v d days_before_month_Suc [of "m - 1" y] days_before_month_ends(1) [of y]
      days_before_year_Suc [of "y - 1"]
    by (auto simp: ordinal_def)
qed

lemma add_days_Some:
  assumes "valid_date d" and "add_days n d = Some e"
  shows "valid_date e \<and> ordinal e = ordinal d + int n"
  using assms
proof (induction n arbitrary: d)
  case (Suc n)
  have top: "d < max_date" and step: "add_days n (next_day d) = Some e"
    using Suc.prems by (auto split: if_splits)
  show ?case using Suc.IH [OF _ step] next_day_ok [OF Suc.prems(1) top] by simp
qed simp

lemma sub_days_Some:
  assumes "valid_date d" and "sub_days n d = Some e"
  shows "valid_date e \<and> ordinal e = ordinal d - int n"
  using assms
proof (induction n arbitrary: d)
  case (Suc n)
  have low: "min_date < d" and step: "sub_days n (prev_day d) = Some e"
    using Suc.prems by (auto split: if_splits)
  show ?case using Suc.IH [OF _ step] prev_day_ok [OF Suc.prems(1) low] by simp
qed simp

lemma add_days_total:
  assumes "valid_date d" and "ordinal d + int n \<le> 3652059"
  shows "\<exists>e. add_days n d = Some e"
  using assms
proof (induction n arbitrary: d)
  case (Suc n)
  have "d < max_date" using Suc.prems by (simp add: ordinal_less_iff)
  then show ?case using Suc.IH [of "next_day d"] next_day_ok [of d] Suc.prems by (auto simp: not_le)
qed simp

lemma sub_days_total:
  assumes "valid_date d" and "1 \<le> ordinal d - int n"
  shows "\<exists>e. sub_days n d = Some e"
  using assms
proof (induction n arbitrary: d)
  case (Suc n)
  have "min_date < d" using Suc.prems by (simp add: ordinal_less_iff)
  then show ?case using Suc.IH [of "prev_day d"] prev_day_ok [of d] Suc.prems by (auto simp: not_le)
qed simp

lemma add_days_iff:
  assumes "valid_date d"
  shows "add_days n d = Some e \<longleftrightarrow> valid_date e \<and> ordinal e = ordinal d + int n"
proof
  assume e: "valid_date e \<and> ordinal e = ordinal d + int n"
  then obtain f where "add_days n d = Some f"
    using add_days_total [OF assms, of n] ordinal_range(2) [of e] by auto
  then show "add_days n d = Some e"
    using add_days_Some [OF assms, of n f] e ordinal_inject [of e f] by auto
qed (rule add_days_Some [OF assms])

lemma sub_days_iff:
  assumes "valid_date d"
  shows "sub_days n d = Some e \<longleftrightarrow> valid_date e \<and> ordinal e = ordinal d - int n"
proof
  assume e: "valid_date e \<and> ordinal e = ordinal d - int n"
  then obtain f where "sub_days n d = Some f"
    using sub_days_total [OF assms, of n] ordinal_range(1) [of e] by auto
  then show "sub_days n d = Some e"
    using sub_days_Some [OF assms, of n f] e ordinal_inject [of e f] by auto
qed (rule sub_days_Some [OF assms])

end
