(* ===== verification/Business_Time.thy ===== *)
theory Business_Time
  imports Calendar
begin

text \<open>
  Business periods and their half-open date ranges (app/business_query/compile/business_time.py,
  BusinessPeriod of app/business_query/plan/query_plan.py): relative ranges, explicit dates, the
  period a comparison reads, and calendar buckets. \<open>business_today\<close>, the wall clock in the bundle's
  time zone, is the argument \<open>clock\<close>.
\<close>

datatype time_error = Refused string string | Value_error | Overflow_error

datatype relative_range =
    All_time | Today | This_week | Last_week | This_month | Last_month | This_quarter
  | Last_quarter | This_year | Last_year

datatype granularity = Day | Week | Month | Quarter | Year

record business_period =
  bp_dimension :: string
  bp_relative :: "relative_range option"
  bp_on :: "date option"
  bp_since :: "date option"
  bp_between :: "(date \<times> date) option"
  bp_granularity :: "granularity option"

datatype compare_shift = Previous_period | Same_period_last_year

datatype compare_to = Shift compare_shift | Against business_period

text \<open>\<open>BusinessPeriod._exactly_one_range\<close>.\<close>

definition set_count :: "business_period \<Rightarrow> nat" where
  "set_count p =
     length (filter id [bp_relative p \<noteq> None, bp_on p \<noteq> None, bp_since p \<noteq> None, bp_between p \<noteq> None])"

definition wf_period :: "business_period \<Rightarrow> bool" where
  "wf_period p \<longleftrightarrow> set_count p = 1 \<and> (case bp_between p of Some (a, b) \<Rightarrow> a \<le> b | None \<Rightarrow> True)"

text \<open>\<open>date + timedelta\<close>, and \<open>date(...)\<close>.\<close>

definition shift_days :: "int \<Rightarrow> date \<Rightarrow> time_error + date" where
  "shift_days n d =
     (case (if 0 \<le> n then add_days (nat n) d else sub_days (nat (- n)) d) of
        None \<Rightarrow> Inl Overflow_error | Some e \<Rightarrow> Inr e)"

definition new_date :: "int \<Rightarrow> int \<Rightarrow> int \<Rightarrow> time_error + date" where
  "new_date y m d = (case make_date y m d of None \<Rightarrow> Inl Value_error | Some e \<Rightarrow> Inr e)"

definition relative_half_open :: "relative_range \<Rightarrow> date \<Rightarrow> time_error + date \<times> date" where
  "relative_half_open rel today =
     (let y = d_year today; m = d_month today; quarter = (m - 1) div 3 in
      if rel = Today then rbind (shift_days 1 today) (\<lambda>e. Inr (today, e)) else
      rbind (shift_days (- weekday today) today) (\<lambda>week_start.
      if rel = This_week then rbind (shift_days 7 week_start) (\<lambda>e. Inr (week_start, e)) else
      if rel = Last_week then rbind (shift_days (- 7) week_start) (\<lambda>s. Inr (s, week_start)) else
      rbind (new_date y m 1) (\<lambda>month_start.
      rbind (if m = 12 then new_date (y + 1) 1 1 else new_date y (m + 1) 1) (\<lambda>next_month.
      if rel = This_month then Inr (month_start, next_month) else
      if rel = Last_month then
        rbind (if m = 1 then new_date (y - 1) 12 1 else new_date y (m - 1) 1)
          (\<lambda>s. Inr (s, month_start)) else
      rbind (new_date y (quarter * 3 + 1) 1) (\<lambda>q_start.
      rbind (if quarter = 3 then new_date (y + 1) 1 1 else new_date y ((quarter + 1) * 3 + 1) 1)
        (\<lambda>q_end.
      if rel = This_quarter then Inr (q_start, q_end) else
      if rel = Last_quarter then
        (if quarter = 0
         then rbind (new_date (y - 1) 10 1) (\<lambda>s. rbind (new_date y 1 1) (\<lambda>e. Inr (s, e)))
         else rbind (new_date y ((quarter - 1) * 3 + 1) 1) (\<lambda>s. Inr (s, q_start))) else
      if rel = This_year then
        rbind (new_date y 1 1) (\<lambda>s. rbind (new_date (y + 1) 1 1) (\<lambda>e. Inr (s, e))) else
      if rel = Last_year then
        rbind (new_date (y - 1) 1 1) (\<lambda>s. rbind (new_date y 1 1) (\<lambda>e. Inr (s, e)))
      else Inl (Refused ''unsupported_relative_period'' [])))))))"

definition period_bounds ::
    "business_period \<Rightarrow> time_error + date \<Rightarrow> date option \<Rightarrow> time_error + date \<times> date" where
  "period_bounds p clock business_date =
     (if bp_relative p = Some All_time then Inl (Refused ''unsupported_relative_period'' []) else
      rbind (case business_date of Some d \<Rightarrow> Inr d | None \<Rightarrow> clock) (\<lambda>today.
      case bp_relative p of Some rel \<Rightarrow> relative_half_open rel today | None \<Rightarrow>
      (case bp_on p of Some on \<Rightarrow> rbind (shift_days 1 on) (\<lambda>e. Inr (on, e)) | None \<Rightarrow>
      (case bp_since p of
         Some since \<Rightarrow>
           if today < since then Inl (Refused ''grain_unexpressible'' ''since_in_future'')
           else rbind (shift_days 1 today) (\<lambda>e. Inr (since, e))
       | None \<Rightarrow>
      (case bp_between p of
         Some (a, b) \<Rightarrow> rbind (shift_days 1 b) (\<lambda>e. Inr (a, e))
       | None \<Rightarrow> Inl (Refused ''assertion'' []))))))"

definition time_filter_bounds ::
    "business_period \<Rightarrow> time_error + date \<Rightarrow> date option \<Rightarrow> time_error + (date \<times> date) option" where
  "time_filter_bounds p clock business_date =
     (if bp_relative p = Some All_time then Inr None
      else rbind (period_bounds p clock business_date) (\<lambda>b. Inr (Some b)))"

fun bucket_range :: "granularity \<Rightarrow> relative_range" where
  "bucket_range Day = Today"
| "bucket_range Week = This_week"
| "bucket_range Month = This_month"
| "bucket_range Quarter = This_quarter"
| "bucket_range Year = This_year"

definition within_one_bucket :: "date \<times> date \<Rightarrow> granularity \<Rightarrow> time_error + bool" where
  "within_one_bucket bounds g =
     (case bounds of (start, end) \<Rightarrow>
        rbind (relative_half_open (bucket_range g) start) (\<lambda>(_, bucket_end). Inr (end \<le> bucket_end)))"

definition bucket_bounds :: "date \<Rightarrow> granularity \<Rightarrow> time_error + date \<times> date" where
  "bucket_bounds start g = relative_half_open (bucket_range g) start"

datatype step = Days int | Months int

fun calendar_step :: "relative_range \<Rightarrow> step option" where
  "calendar_step All_time = None"
| "calendar_step Today = Some (Days 1)"
| "calendar_step This_week = Some (Days 7)"
| "calendar_step Last_week = Some (Days 7)"
| "calendar_step This_month = Some (Months 1)"
| "calendar_step Last_month = Some (Months 1)"
| "calendar_step This_quarter = Some (Months 3)"
| "calendar_step Last_quarter = Some (Months 3)"
| "calendar_step This_year = Some (Months 12)"
| "calendar_step Last_year = Some (Months 12)"

definition shift_months :: "date \<Rightarrow> int \<Rightarrow> time_error + date" where
  "shift_months value months =
     (let index = d_year value * 12 + (d_month value - 1) + months;
          y = index div 12; m = index mod 12 + 1
      in if y < 1 then Inl (Refused ''grain_unexpressible'' ''comparison_out_of_range'')
         else new_date y m (min (d_day value) (days_in_month y m)))"

definition non_empty :: "date \<Rightarrow> date \<Rightarrow> time_error + date \<times> date" where
  "non_empty start end =
     (if end \<le> start then Inl (Refused ''grain_unexpressible'' ''comparison_empty_range'')
      else Inr (start, end))"

definition shift_period ::
    "business_period \<Rightarrow> date \<times> date \<Rightarrow> compare_shift \<Rightarrow> time_error + date \<times> date" where
  "shift_period p bounds shift =
     (case bounds of (start, end) \<Rightarrow>
      if shift = Same_period_last_year then
        rbind (shift_days (- 1) end) (\<lambda>last_selected.
        rbind (shift_months start (- 12)) (\<lambda>s.
        rbind (shift_months last_selected (- 12)) (\<lambda>l.
        rbind (shift_days 1 l) (\<lambda>e. non_empty s e))))
      else
        (case (case bp_relative p of None \<Rightarrow> None | Some rel \<Rightarrow> calendar_step rel) of
           None \<Rightarrow>
             (let span = ordinal end - ordinal start in
              if ordinal start - ordinal min_date < span
              then Inl (Refused ''grain_unexpressible'' ''comparison_out_of_range'')
              else rbind (shift_days (- span) start) (\<lambda>s. non_empty s start))
         | Some (Days n) \<Rightarrow>
             rbind (shift_days (- n) start) (\<lambda>s. rbind (shift_days (- n) end) (\<lambda>e. non_empty s e))
         | Some (Months n) \<Rightarrow>
             rbind (shift_months start (- n)) (\<lambda>s. rbind (shift_months end (- n)) (\<lambda>e. non_empty s e))))"

definition comparison_bounds ::
    "business_period \<Rightarrow> compare_to \<Rightarrow> time_error + date \<Rightarrow> date option
       \<Rightarrow> time_error + (date \<times> date) \<times> (date \<times> date)" where
  "comparison_bounds p cmp clock business_date =
     rbind (period_bounds p clock business_date) (\<lambda>current.
       case cmp of
         Against q \<Rightarrow> rbind (period_bounds q clock business_date) (\<lambda>other. Inr (current, other))
       | Shift s \<Rightarrow> rbind (shift_period p current s) (\<lambda>other. Inr (current, other)))"

subsection \<open>Buckets\<close>

text \<open>The number of the calendar bucket a day lies in: days, weeks from Monday, months, quarters
  and years are counted without gaps.\<close>

fun bucket :: "granularity \<Rightarrow> date \<Rightarrow> int" where
  "bucket Day d = ordinal d"
| "bucket Week d = (ordinal d + 6) div 7"
| "bucket Month d = d_year d * 12 + (d_month d - 1)"
| "bucket Quarter d = d_year d * 4 + (d_month d - 1) div 3"
| "bucket Year d = d_year d"

fun granularity_of :: "relative_range \<Rightarrow> granularity" where
  "granularity_of This_week = Week" | "granularity_of Last_week = Week"
| "granularity_of This_month = Month" | "granularity_of Last_month = Month"
| "granularity_of This_quarter = Quarter" | "granularity_of Last_quarter = Quarter"
| "granularity_of This_year = Year" | "granularity_of Last_year = Year"
| "granularity_of _ = Day"

definition buckets_back :: "relative_range \<Rightarrow> int" where
  "buckets_back rel = (if rel \<in> {Last_week, Last_month, Last_quarter, Last_year} then 1 else 0)"

text \<open>A range that holds exactly the days of one bucket.\<close>

definition is_bucket :: "granularity \<Rightarrow> int \<Rightarrow> date \<times> date \<Rightarrow> bool" where
  "is_bucket g n r \<longleftrightarrow> valid_date (fst r) \<and> valid_date (snd r) \<and>
     (\<forall>d. valid_date d \<longrightarrow> (fst r \<le> d \<and> d < snd r \<longleftrightarrow> bucket g d = n))"

lemma shift_days_Inr:
  assumes "valid_date d"
  shows "shift_days n d = Inr e \<longleftrightarrow> valid_date e \<and> ordinal e = ordinal d + n"
proof (cases "0 \<le> n")
  case True
  have "shift_days n d = Inr e \<longleftrightarrow> add_days (nat n) d = Some e"
    using True by (simp add: shift_days_def split: option.splits)
  then show ?thesis using add_days_iff [OF assms, of "nat n" e] True by simp
next
  case False
  have "shift_days n d = Inr e \<longleftrightarrow> sub_days (nat (- n)) d = Some e"
    using False by (simp add: shift_days_def split: option.splits)
  then show ?thesis using sub_days_iff [OF assms, of "nat (- n)" e] False by simp
qed

lemma shift_days_total:
  assumes "valid_date d" and "1 \<le> ordinal d + n" and "ordinal d + n \<le> 3652059"
  obtains e where "shift_days n d = Inr e" and "valid_date e" and "ordinal e = ordinal d + n"
proof -
  have "\<exists>e. shift_days n d = Inr e"
  proof (cases "0 \<le> n")
    case True
    then show ?thesis using add_days_total [OF assms(1), of "nat n"] assms(3)
      by (auto simp: shift_days_def)
  next
    case False
    then show ?thesis using sub_days_total [OF assms(1), of "nat (- n)"] assms(2)
      by (auto simp: shift_days_def)
  qed
  then show ?thesis using shift_days_Inr [OF assms(1)] that by blast
qed

lemma new_date_first:
  "1 \<le> y \<Longrightarrow> y \<le> 9999 \<Longrightarrow> 1 \<le> m \<Longrightarrow> m \<le> 12 \<Longrightarrow> new_date y m 1 = Inr (Date y m 1)"
  using days_in_month_bounds(1) [of y m] by (simp add: new_date_def make_date_def valid_date_def)

lemma valid_first:
  "1 \<le> y \<Longrightarrow> y \<le> 9999 \<Longrightarrow> 1 \<le> m \<Longrightarrow> m \<le> 12 \<Longrightarrow> valid_date (Date y m 1)"
  using days_in_month_bounds(1) [of y m] by (simp add: valid_date_def)

text \<open>A range from the first of a month to the first of a month, in months.\<close>

lemma first_of_month_le:
  assumes "valid_date d" and "1 \<le> m" and "m \<le> 12"
  shows "Date y m 1 \<le> d \<longleftrightarrow> y * 12 + (m - 1) \<le> bucket Month d"
    and "d < Date y m 1 \<longleftrightarrow> bucket Month d < y * 12 + (m - 1)"
proof -
  have d: "1 \<le> d_month d" "d_month d \<le> 12" "1 \<le> d_day d" using assms(1) by (auto simp: valid_date_def)
  show "Date y m 1 \<le> d \<longleftrightarrow> y * 12 + (m - 1) \<le> bucket Month d"
    unfolding less_eq_date_def date.sel bucket.simps using d assms(2,3) by (intro iffI) linarith+
  then show "d < Date y m 1 \<longleftrightarrow> bucket Month d < y * 12 + (m - 1)"
    by (metis not_less)
qed

lemma is_bucket_days:
  assumes "valid_date s" and "valid_date e"
    and "\<And>d. valid_date d \<Longrightarrow> ordinal s \<le> ordinal d \<and> ordinal d < ordinal e \<longleftrightarrow> bucket g d = k"
  shows "is_bucket g k (s, e)"
  using assms by (auto simp: is_bucket_def ordinal_le_iff ordinal_less_iff)

lemma inner_ordinal:
  assumes "valid_date d" and "2 \<le> d_year d" and "d_year d \<le> 9998"
  shows "365 < ordinal d" and "ordinal d \<le> 3651694"
proof -
  have "days_before_year 2 \<le> days_before_year (d_year d)"
    "days_before_year (d_year d + 1) \<le> days_before_year 9999"
    by (rule days_before_year_mono; use assms in simp)+
  moreover have "days_before_year 2 = 365" "days_before_year 9999 = 3651694" by (simp_all add: days_before_year_def)
  ultimately show "365 < ordinal d" "ordinal d \<le> 3651694"
    using ordinal_bounds [OF assms(1)] by linarith+
qed

text \<open>The months a relative range of months starts and ends with, counted from today's.\<close>

fun month_span :: "relative_range \<Rightarrow> date \<Rightarrow> int \<times> int" where
  "month_span This_month d = (bucket Month d, bucket Month d + 1)"
| "month_span Last_month d = (bucket Month d - 1, bucket Month d)"
| "month_span This_quarter d = (bucket Quarter d * 3, bucket Quarter d * 3 + 3)"
| "month_span Last_quarter d = (bucket Quarter d * 3 - 3, bucket Quarter d * 3)"
| "month_span This_year d = (d_year d * 12, d_year d * 12 + 12)"
| "month_span Last_year d = (d_year d * 12 - 12, d_year d * 12)"
| "month_span _ d = (0, 0)"

definition first_of :: "int \<Rightarrow> date" where
  "first_of i = Date (i div 12) (i mod 12 + 1) 1"

lemma first_of_valid: "12 \<le> i \<Longrightarrow> i < 120000 \<Longrightarrow> valid_date (first_of i)"
  unfolding first_of_def by (intro valid_first) (simp_all add: less_imp_le)

lemma first_of_bounds:
  assumes "valid_date d"
  shows "first_of i \<le> d \<longleftrightarrow> i \<le> bucket Month d" and "d < first_of i \<longleftrightarrow> bucket Month d < i"
  using first_of_month_le [OF assms, of "i mod 12 + 1" "i div 12"] by (simp_all add: first_of_def del: bucket.simps)

lemma first_of_eq:
  assumes "i = y * 12 + (m - 1)" and "1 \<le> m" and "m \<le> 12"
  shows "first_of i = Date y m 1"
proof -
  have "i div 12 = y" and "i mod 12 = m - 1"
    using assms by (auto intro!: int_div_pos_eq [of _ _ _ "m - 1"] int_mod_pos_eq [of _ _ y])
  then show ?thesis by (simp add: first_of_def)
qed

lemma new_date_first_of:
  assumes "1 \<le> y" "y \<le> 9999" "1 \<le> m" "m \<le> 12" and "i = y * 12 + (m - 1)"
  shows "new_date y m 1 = Inr (first_of i)"
  using new_date_first [OF assms(1-4)] first_of_eq [OF assms(5,3,4)] by simp

lemma month_buckets:
  assumes "valid_date d"
  shows "bucket Quarter d = bucket Month d div 3" and "bucket Year d = bucket Month d div 12"
  using assms by (auto simp: valid_date_def)

text \<open>The ranges of months, quarters and years.\<close>

lemma relative_months:
  assumes today: "valid_date today" and y: "2 \<le> d_year today" "d_year today \<le> 9998"
    and rel: "granularity_of rel \<in> {Month, Quarter, Year}"
  shows "relative_half_open rel today = Inr (map_prod first_of first_of (month_span rel today))"
proof -
  have m: "1 \<le> d_month today" "d_month today \<le> 12" using today by (auto simp: valid_date_def)
  define q where "q = (d_month today - 1) div 3"
  have q: "0 \<le> q" "q \<le> 3" using m by (auto simp: q_def)
  have wd: "0 \<le> weekday today" "weekday today < 7" by (simp_all add: weekday_def)
  obtain ws where ws: "shift_days (- weekday today) today = Inr ws"
    by (rule shift_days_total [OF today, of "- weekday today"])
      (use wd inner_ordinal [OF today y] in auto)
  have ms: "new_date (d_year today) (d_month today) 1 = Inr (first_of (bucket Month today))"
    using m y by (intro new_date_first_of) auto
  have nm: "(if d_month today = 12 then new_date (d_year today + 1) 1 1
      else new_date (d_year today) (d_month today + 1) 1) = Inr (first_of (bucket Month today + 1))"
    using m y new_date_first_of [of "d_year today + 1" 1 "bucket Month today + 1"]
      new_date_first_of [of "d_year today" "d_month today + 1" "bucket Month today + 1"]
    by (auto simp: add.commute)
  have lm: "(if d_month today = 1 then new_date (d_year today - 1) 12 1
      else new_date (d_year today) (d_month today - 1) 1) = Inr (first_of (bucket Month today - 1))"
    using m y new_date_first_of [of "d_year today - 1" 12 "bucket Month today - 1"]
      new_date_first_of [of "d_year today" "d_month today - 1" "bucket Month today - 1"] by auto
  have bq: "bucket Quarter today = d_year today * 4 + q" by (simp add: q_def)
  have qs: "new_date (d_year today) (q * 3 + 1) 1 = Inr (first_of (bucket Quarter today * 3))"
    using q y bq by (intro new_date_first_of) auto
  have qe: "(if q = 3 then new_date (d_year today + 1) 1 1
      else new_date (d_year today) ((q + 1) * 3 + 1) 1) = Inr (first_of (bucket Quarter today * 3 + 3))"
  proof (cases "q = 3")
    case True
    then show ?thesis using y bq by (simp del: bucket.simps) (intro new_date_first_of; simp)
  next
    case False
    then show ?thesis using q y bq by (simp del: bucket.simps) (intro new_date_first_of; simp)
  qed
  have lq: "q = 0 \<Longrightarrow> new_date (d_year today - 1) 10 1 = Inr (first_of (bucket Quarter today * 3 - 3))"
    "q = 0 \<Longrightarrow> new_date (d_year today) 1 1 = Inr (first_of (bucket Quarter today * 3))"
    "q \<noteq> 0 \<Longrightarrow> new_date (d_year today) ((q - 1) * 3 + 1) 1 = Inr (first_of (bucket Quarter today * 3 - 3))"
    using q y bq by (intro new_date_first_of; simp del: bucket.simps)+
  have ys: "new_date (d_year today) 1 1 = Inr (first_of (d_year today * 12))"
    "new_date (d_year today + 1) 1 1 = Inr (first_of (d_year today * 12 + 12))"
    "new_date (d_year today - 1) 1 1 = Inr (first_of (d_year today * 12 - 12))"
    using y by (intro new_date_first_of; simp)+
  show ?thesis
    unfolding relative_half_open_def Let_def q_def [symmetric] ws ms nm lm qs qe rbind.simps
    using rel lq ys by (cases rel) (simp_all del: bucket.simps)
qed

lemma week_bounds:
  assumes today: "valid_date today" and y: "2 \<le> d_year today" "d_year today \<le> 9998"
  obtains ws where "shift_days (- weekday today) today = Inr ws" and "valid_date ws"
    and "ordinal ws = 7 * bucket Week today - 6"
proof -
  have wd: "0 \<le> weekday today" "weekday today < 7" by (simp_all add: weekday_def)
  have "ordinal today - weekday today = 7 * bucket Week today - 6"
    using div_mult_mod_eq [of "ordinal today + 6" 7] unfolding weekday_def bucket.simps by linarith
  moreover obtain ws where "shift_days (- weekday today) today = Inr ws" "valid_date ws"
      "ordinal ws = ordinal today - weekday today"
    by (rule shift_days_total [OF today, of "- weekday today"])
      (use wd inner_ordinal [OF today y] in auto)
  ultimately show ?thesis using that by simp
qed

fun months_in :: "granularity \<Rightarrow> int" where
  "months_in Month = 1" | "months_in Quarter = 3" | "months_in Year = 12" | "months_in _ = 0"

lemma bucket_months_in:
  "valid_date d \<Longrightarrow> g \<in> {Month, Quarter, Year} \<Longrightarrow> bucket g d = bucket Month d div months_in g"
  using month_buckets by (cases g) auto

lemma div_eq_span:
  assumes "0 < (k :: int)"
  shows "k * n \<le> i \<and> i < k * n + k \<longleftrightarrow> i div k = n"
proof
  assume "k * n \<le> i \<and> i < k * n + k"
  then show "i div k = n" by (intro int_div_pos_eq [of _ _ _ "i - k * n"]) auto
next
  assume "i div k = n"
  then show "k * n \<le> i \<and> i < k * n + k"
    using pos_mod_sign [OF assms, of i] pos_mod_bound [OF assms, of i] mult_div_mod_eq [of k i] by auto
qed

lemma is_bucket_first_of:
  assumes g: "g \<in> {Month, Quarter, Year}"
    and "12 \<le> months_in g * n" and "months_in g * n + months_in g < 120000"
  shows "is_bucket g n (first_of (months_in g * n), first_of (months_in g * n + months_in g))"
proof -
  have k: "0 < months_in g" using g by (cases g) auto
  have "valid_date (first_of (months_in g * n))" "valid_date (first_of (months_in g * n + months_in g))"
    using assms(2,3) k by (intro first_of_valid; linarith)+
  moreover have "(first_of (months_in g * n) \<le> d \<and> d < first_of (months_in g * n + months_in g))
      = (bucket g d = n)" if "valid_date d" for d
    unfolding first_of_bounds [OF that] div_eq_span [OF k] bucket_months_in [OF that g] ..
  ultimately show ?thesis by (simp add: is_bucket_def)
qed

lemma month_span_bucket:
  assumes "granularity_of rel \<in> {Month, Quarter, Year}"
  shows "month_span rel d = (let g = granularity_of rel; n = bucket g d - buckets_back rel
           in (months_in g * n, months_in g * n + months_in g))"
  using assms by (cases rel) (auto simp: buckets_back_def Let_def)

lemma bucket_span_inner:
  assumes "valid_date d" and "d_year d \<le> 9998" and g: "g \<in> {Month, Quarter, Year}"
    and "0 \<le> k" and "k + 1 \<le> d_year d"
  shows "12 \<le> months_in g * (bucket g d - k)" and "months_in g * (bucket g d - k) + months_in g < 120000"
proof -
  have "1 \<le> d_month d" "d_month d \<le> 12" using assms(1) by (auto simp: valid_date_def)
  then have "0 \<le> (d_month d - 1) div 3" "(d_month d - 1) div 3 \<le> 3" by auto
  then show "12 \<le> months_in g * (bucket g d - k)" "months_in g * (bucket g d - k) + months_in g < 120000"
    using assms \<open>1 \<le> d_month d\<close> \<open>d_month d \<le> 12\<close> by (cases g; auto)+
qed

text \<open>Days and weeks, by ordinal.\<close>

fun days_in :: "granularity \<Rightarrow> int" where
  "days_in Day = 1" | "days_in Week = 7" | "days_in _ = 0"

fun first_ordinal :: "granularity \<Rightarrow> int \<Rightarrow> int" where
  "first_ordinal Week n = 7 * n - 6" | "first_ordinal _ n = n"

lemma is_bucket_ordinal:
  assumes "g \<in> {Day, Week}" and "valid_date s" and "valid_date e"
    and "ordinal s = first_ordinal g n" and "ordinal e = ordinal s + days_in g"
  shows "is_bucket g n (s, e)"
proof -
  have "(s \<le> d \<and> d < e) = (bucket g d = n)" if "valid_date d" for d
    using assms that by (cases g) (auto simp: ordinal_le_iff ordinal_less_iff)
  then show ?thesis using assms(2,3) by (simp add: is_bucket_def)
qed

lemma relative_days:
  assumes today: "valid_date today" and y: "2 \<le> d_year today" "d_year today \<le> 9998"
    and rel: "granularity_of rel \<in> {Day, Week}" "rel \<noteq> All_time"
  obtains s e where "relative_half_open rel today = Inr (s, e)" and "valid_date s" and "valid_date e"
    and "ordinal s = first_ordinal (granularity_of rel) (bucket (granularity_of rel) today - buckets_back rel)"
    and "ordinal e = ordinal s + days_in (granularity_of rel)"
proof -
  obtain ws where ws: "shift_days (- weekday today) today = Inr ws" "valid_date ws"
      "ordinal ws = 7 * bucket Week today - 6"
    by (rule week_bounds [OF today y])
  have near: "359 < ordinal ws" "ordinal ws \<le> 3651694" using ws(3) inner_ordinal [OF today y] by auto
  obtain a where a: "shift_days 1 today = Inr a" "valid_date a" "ordinal a = ordinal today + 1"
    by (rule shift_days_total [OF today, of 1]) (use inner_ordinal [OF today y] in auto)
  obtain b where b: "shift_days 7 ws = Inr b" "valid_date b" "ordinal b = ordinal ws + 7"
    by (rule shift_days_total [OF ws(2), of 7]) (use near in auto)
  obtain c where c: "shift_days (- 7) ws = Inr c" "valid_date c" "ordinal c = ordinal ws + - 7"
    by (rule shift_days_total [OF ws(2), of "- 7"]) (use near in auto)
  note eval = relative_half_open_def Let_def buckets_back_def
  consider "rel = Today" | "rel = This_week" | "rel = Last_week" using rel by (cases rel) auto
  then show ?thesis
  proof cases
    case 1
    then show ?thesis using that [of today a] a today by (simp add: eval)
  next
    case 2
    then show ?thesis using that [of ws b] ws b by (simp add: eval del: bucket.simps)
  next
    case 3
    then show ?thesis using that [of c ws] ws c by (simp add: eval del: bucket.simps)
  qed
qed

lemma month_less:
  assumes "valid_date a" and "valid_date b" and "bucket Month a < bucket Month b"
  shows "a < b"
  using assms by (auto simp: less_date_def valid_date_def)

lemma first_of_less:
  assumes "12 \<le> months_in g * n" and "months_in g * n + months_in g < 120000"
    and "g \<in> {Month, Quarter, Year}"
  shows "first_of (months_in g * n) < first_of (months_in g * n + months_in g)"
proof -
  have "0 < months_in g" using assms(3) by (cases g) auto
  then show ?thesis
    using assms(1,2) by (intro month_less first_of_valid) (simp_all add: first_of_def)
qed

lemma relative_bucket:
  assumes today: "valid_date today" and y: "2 \<le> d_year today" "d_year today \<le> 9998"
    and rel: "rel \<noteq> All_time"
  obtains s e where "relative_half_open rel today = Inr (s, e)"
    and "is_bucket (granularity_of rel) (bucket (granularity_of rel) today - buckets_back rel) (s, e)"
    and "s < e"
proof (cases "granularity_of rel \<in> {Month, Quarter, Year}")
  case True
  have "is_bucket (granularity_of rel) (bucket (granularity_of rel) today - buckets_back rel)
      (map_prod first_of first_of (month_span rel today))"
    unfolding month_span_bucket [OF True] Let_def map_prod_simp
    by (intro is_bucket_first_of bucket_span_inner today y(2) True)
      (use y(1) in \<open>simp_all add: buckets_back_def\<close>)
  moreover have "first_of (fst (month_span rel today)) < first_of (snd (month_span rel today))"
    unfolding month_span_bucket [OF True] Let_def fst_conv snd_conv
    by (intro first_of_less bucket_span_inner today y(2) True)
      (use y(1) True in \<open>auto simp: buckets_back_def\<close>)
  ultimately show ?thesis
    using that relative_months [OF today y True] by (metis map_prod_simp prod.collapse)
next
  case False
  then have g: "granularity_of rel \<in> {Day, Week}" by (cases "granularity_of rel") auto
  obtain s e where r: "relative_half_open rel today = Inr (s, e)" "valid_date s" "valid_date e"
    "ordinal s = first_ordinal (granularity_of rel) (bucket (granularity_of rel) today - buckets_back rel)"
    "ordinal e = ordinal s + days_in (granularity_of rel)"
    by (rule relative_days [OF today y g rel])
  moreover have "s < e" using r(2,3,5) g by (auto simp: ordinal_less_iff)
  ultimately show ?thesis using that is_bucket_ordinal [OF g] by blast
qed

subsection \<open>Moving by months\<close>

lemma date_of_month:
  assumes "valid_date d"
  shows "d_year d = bucket Month d div 12" and "d_month d = bucket Month d mod 12 + 1"
  using first_of_eq [of "bucket Month d" "d_year d" "d_month d"] assms
  by (auto simp: first_of_def valid_date_def)

lemma month_mono:
  assumes "valid_date a" and "valid_date b" and "a \<le> b"
  shows "bucket Month a \<le> bucket Month b"
  using month_less [OF assms(2,1)] assms(3) by (meson leD leI)

lemma shift_months_ok:
  assumes v: "valid_date v" and "12 \<le> bucket Month v + k" and "bucket Month v + k < 120000"
  obtains w where "shift_months v k = Inr w" and "valid_date w"
    and "bucket Month w = bucket Month v + k"
    and "d_day w = min (d_day v) (days_in_month (d_year w) (d_month w))"
proof -
  define i where "i = bucket Month v + k"
  define w where "w = Date (i div 12) (i mod 12 + 1)
    (min (d_day v) (days_in_month (i div 12) (i mod 12 + 1)))"
  have i: "12 \<le> i" "i < 120000" using assms(2,3) by (simp_all add: i_def)
  have "1 \<le> i div 12" "i div 12 \<le> 9999" "1 \<le> i mod 12 + 1" "i mod 12 + 1 \<le> 12"
    using i by linarith+
  moreover have "1 \<le> d_day v" using v by (simp add: valid_date_def)
  ultimately have w: "valid_date w"
    using days_in_month_bounds(1) [of "i div 12" "i mod 12 + 1"] by (simp add: valid_date_def w_def)
  have "d_year v * 12 + (d_month v - 1) + k = i" by (simp add: i_def)
  then have "shift_months v k = Inr w"
    using w \<open>1 \<le> i div 12\<close> by (simp add: shift_months_def new_date_def make_date_def w_def Let_def)
  moreover have "bucket Month w = i" by (simp add: w_def)
  ultimately show ?thesis using that w by (simp add: i_def w_def)
qed

lemma shift_months_first:
  assumes "12 \<le> i" "i < 120000" and "12 \<le> i + k" "i + k < 120000"
  shows "shift_months (first_of i) k = Inr (first_of (i + k))"
proof -
  have i: "bucket Month (first_of i) = i" by (simp add: first_of_def)
  obtain w where w: "shift_months (first_of i) k = Inr w" "valid_date w"
      "bucket Month w = i + k" "d_day w = min 1 (days_in_month (d_year w) (d_month w))"
    by (rule shift_months_ok [OF first_of_valid [OF assms(1,2)], of k])
      (use assms i in \<open>auto simp: first_of_def simp del: bucket.simps\<close>)
  have "d_day w = 1" using w(4) days_in_month_bounds(1) [of "d_year w" "d_month w"] by simp
  then have "w = first_of (i + k)"
    using date_of_month [OF w(2)] w(3) by (intro date.expand) (simp add: first_of_def del: bucket.simps)
  then show ?thesis using w(1) by simp
qed

lemma shift_months_mono:
  assumes "valid_date a" "valid_date b" "a \<le> b"
    and "shift_months a k = Inr v" "shift_months b k = Inr w"
    and "12 \<le> bucket Month a + k" "bucket Month b + k < 120000"
  shows "v \<le> w"
proof -
  have le: "bucket Month a \<le> bucket Month b" by (rule month_mono [OF assms(1-3)])
  obtain v1 where v: "shift_months a k = Inr v1" "valid_date v1" "bucket Month v1 = bucket Month a + k"
      "d_day v1 = min (d_day a) (days_in_month (d_year v1) (d_month v1))"
    by (rule shift_months_ok [OF assms(1), of k]) (use assms(6,7) le in auto)
  obtain w1 where w: "shift_months b k = Inr w1" "valid_date w1" "bucket Month w1 = bucket Month b + k"
      "d_day w1 = min (d_day b) (days_in_month (d_year w1) (d_month w1))"
    by (rule shift_months_ok [OF assms(2), of k]) (use assms(6,7) le in auto)
  have [simp]: "v1 = v" "w1 = w" using v(1) w(1) assms(4,5) by auto
  show ?thesis
  proof (cases "bucket Month a = bucket Month b")
    case True
    have same: "d_year a = d_year b" "d_month a = d_month b" "d_year v = d_year w" "d_month v = d_month w"
      using True date_of_month [OF assms(1)] date_of_month [OF assms(2)] date_of_month [OF v(2)]
        date_of_month [OF w(2)] v(3) w(3) by (simp_all del: bucket.simps)
    then have "d_day a \<le> d_day b" using assms(3) by (simp add: less_eq_date_def)
    then show ?thesis using same v(4) w(4) by (auto simp: less_eq_date_def)
  next
    case False
    then have "bucket Month v < bucket Month w" using le v(3) w(3) by simp
    then show ?thesis using month_less v(2) w(2) by fastforce
  qed
qed

subsection \<open>Properties\<close>

text \<open>
  C36. A relative range is the calendar bucket it names: for every business date of the years 2 to
  9998, \<open>today\<close>, \<open>this_week\<close>, ..., \<open>last_year\<close> return a half-open range that holds exactly the days
  of the day, week (from Monday), month, quarter or year of that date, or of the one before it.
\<close>

theorem relative_range_is_bucket:
  assumes "valid_date today" and "2 \<le> d_year today" and "d_year today \<le> 9998" and "rel \<noteq> All_time"
  shows "\<exists>s e. relative_half_open rel today = Inr (s, e) \<and> valid_date s \<and> valid_date e \<and>
           (\<forall>d. valid_date d \<longrightarrow> (s \<le> d \<and> d < e) =
             (bucket (granularity_of rel) d = bucket (granularity_of rel) today - buckets_back rel))"
  by (rule relative_bucket [OF assms]) (simp add: is_bucket_def)

lemma relative_range_is_bucket_witness:
  "\<exists>s e. relative_half_open Last_quarter (Date 2024 2 29) = Inr (s, e) \<and> valid_date s \<and> valid_date e \<and>
     (\<forall>d. valid_date d \<longrightarrow> (s \<le> d \<and> d < e) = (bucket Quarter d = bucket Quarter (Date 2024 2 29) - 1))"
  using relative_range_is_bucket [of "Date 2024 2 29" Last_quarter]
  by (simp add: valid_date_def days_in_month_def is_leap_def buckets_back_def)

text \<open>
  \<open>within_one_bucket\<close> decides what it says: for a nonempty range that starts in the years 2 to
  9998, it answers yes exactly when all days of the range lie in the calendar bucket of the first.
\<close>

theorem within_one_bucket_spec:
  assumes "valid_date s" and "valid_date e" and "s < e" and "2 \<le> d_year s" and "d_year s \<le> 9998"
  shows "within_one_bucket (s, e) g =
           Inr (\<forall>d. valid_date d \<longrightarrow> s \<le> d \<and> d < e \<longrightarrow> bucket g d = bucket g s)"
proof -
  have g: "granularity_of (bucket_range g) = g" "bucket_range g \<noteq> All_time" "buckets_back (bucket_range g) = 0"
    by (cases g; simp add: buckets_back_def)+
  obtain bs be where r: "relative_half_open (bucket_range g) s = Inr (bs, be)"
      "is_bucket g (bucket g s) (bs, be)"
    by (rule relative_bucket [OF assms(1,4,5) g(2), unfolded g diff_zero])
  then have be: "valid_date be" and iff: "valid_date d \<Longrightarrow> bs \<le> d \<and> d < be \<longleftrightarrow> bucket g d = bucket g s" for d
    by (auto simp: is_bucket_def)
  have s: "bs \<le> s" "s < be" using iff [OF assms(1)] by auto
  have "e \<le> be \<longleftrightarrow> (\<forall>d. valid_date d \<longrightarrow> s \<le> d \<and> d < e \<longrightarrow> bucket g d = bucket g s)"
  proof
    assume le: "e \<le> be"
    show "\<forall>d. valid_date d \<longrightarrow> s \<le> d \<and> d < e \<longrightarrow> bucket g d = bucket g s"
      using iff s(1) le by (meson less_le_trans order_trans)
  next
    assume all: "\<forall>d. valid_date d \<longrightarrow> s \<le> d \<and> d < e \<longrightarrow> bucket g d = bucket g s"
    show "e \<le> be"
    proof (rule ccontr)
      assume "\<not> e \<le> be"
      then have "bucket g be = bucket g s" using all be s(2) by auto
      then show False using iff [OF be] by auto
    qed
  qed
  then show ?thesis by (simp add: within_one_bucket_def r(1))
qed

lemma within_one_bucket_spec_witness:
  "\<not> (\<exists>d. valid_date d \<and> Date 2024 2 28 \<le> d \<and> d < Date 2024 3 1 \<and>
     bucket Month d \<noteq> bucket Month (Date 2024 2 28))"
proof -
  have "within_one_bucket (Date 2024 2 28, Date 2024 3 1) Month = Inr True" by code_simp
  then show ?thesis
    using within_one_bucket_spec [of "Date 2024 2 28" "Date 2024 3 1" Month]
    by (auto simp: valid_date_def days_in_month_def is_leap_def less_date_def)
qed

text \<open>
  The previous period of a relative range is the calendar bucket before it: of this month the
  last month, of last quarter the quarter before, whatever their lengths.
\<close>

theorem previous_period_is_previous_bucket:
  assumes today: "valid_date today" "3 \<le> d_year today" "d_year today \<le> 9998"
    and p: "bp_relative p = Some rel" "rel \<noteq> All_time"
  shows "\<exists>b s e. period_bounds p clock (Some today) = Inr b \<and>
           shift_period p b Previous_period = Inr (s, e) \<and> valid_date s \<and> valid_date e \<and>
           (\<forall>d. valid_date d \<longrightarrow> (s \<le> d \<and> d < e) =
             (bucket (granularity_of rel) d = bucket (granularity_of rel) today - buckets_back rel - 1))"
proof -
  let ?g = "granularity_of rel" and ?n = "bucket (granularity_of rel) today - buckets_back rel"
  have y: "2 \<le> d_year today" using today by simp
  obtain b where b: "relative_half_open rel today = Inr b" "is_bucket ?g ?n b"
    using relative_bucket [OF today(1) y today(3) p(2)] by metis
  have bounds: "period_bounds p clock (Some today) = Inr b"
    using b(1) p by (simp add: period_bounds_def)
  have "\<exists>s e. shift_period p b Previous_period = Inr (s, e) \<and> is_bucket ?g (?n - 1) (s, e)"
  proof (cases "?g \<in> {Month, Quarter, Year}")
    case True
    have k: "0 < months_in ?g" "calendar_step rel = Some (Months (months_in ?g))"
      using True by (cases rel; simp)+
    have eb: "b = (first_of (months_in ?g * ?n), first_of (months_in ?g * ?n + months_in ?g))"
      using relative_months [OF today(1) y today(3) True] b(1)
      by (simp add: month_span_bucket [OF True] Let_def del: bucket.simps)
    have in1: "12 \<le> months_in ?g * ?n" "months_in ?g * ?n + months_in ?g < 120000"
      by (rule bucket_span_inner [OF today(1,3) True]; use today(2) in \<open>simp add: buckets_back_def\<close>)+
    have in2: "12 \<le> months_in ?g * (?n - 1)" "months_in ?g * (?n - 1) + months_in ?g < 120000"
      using bucket_span_inner [OF today(1,3) True, of "buckets_back rel + 1"] today(2)
      by (simp_all add: buckets_back_def algebra_simps del: bucket.simps split: if_splits)
    have prev: "months_in ?g * (?n - 1) = months_in ?g * ?n - months_in ?g" by (simp add: algebra_simps)
    have "first_of (months_in ?g * ?n - months_in ?g) < first_of (months_in ?g * ?n)"
      using first_of_less [OF in2 True] by (simp add: prev del: bucket.simps)
    then have "shift_period p b Previous_period =
        Inr (first_of (months_in ?g * (?n - 1)), first_of (months_in ?g * (?n - 1) + months_in ?g))"
      using shift_months_first [of "months_in ?g * ?n" "- months_in ?g"]
        shift_months_first [of "months_in ?g * ?n + months_in ?g" "- months_in ?g"] in1 in2 p k
      unfolding prev by (simp add: shift_period_def eb non_empty_def not_le)
    then show ?thesis using is_bucket_first_of [OF True in2] by blast
  next
    case False
    then have g: "?g \<in> {Day, Week}" by (cases ?g) auto
    then have step: "calendar_step rel = Some (Days (days_in ?g))" "0 < days_in ?g" "days_in ?g \<le> 7"
      using p(2) by (cases rel; simp)+
    obtain s e where r: "relative_half_open rel today = Inr (s, e)" "valid_date s" "valid_date e"
        "ordinal s = first_ordinal ?g ?n" "ordinal e = ordinal s + days_in ?g"
      by (rule relative_days [OF today(1) y today(3) g p(2)])
    have "14 < ordinal s" "ordinal s \<le> 3651694"
      using r(4) g inner_ordinal [OF today(1) y today(3)] by (auto simp: buckets_back_def)
    note room = this step(2,3) r(5)
    obtain s1 where s1: "shift_days (- days_in ?g) s = Inr s1" "valid_date s1"
        "ordinal s1 = ordinal s + - days_in ?g"
      by (rule shift_days_total [OF r(2), of "- days_in ?g"]) (use room in linarith)+
    obtain e1 where e1: "shift_days (- days_in ?g) e = Inr e1" "valid_date e1"
        "ordinal e1 = ordinal e + - days_in ?g"
      by (rule shift_days_total [OF r(3), of "- days_in ?g"]) (use room in linarith)+
    have "is_bucket ?g (?n - 1) (s1, e1)"
      using g r(4,5) s1 e1 by (intro is_bucket_ordinal) auto
    moreover have "s1 < e1" using s1 e1 r(5) step by (simp add: ordinal_less_iff)
    ultimately show ?thesis
      using p b(1) r(1) s1(1) e1(1) step by (auto simp: shift_period_def non_empty_def not_le)
  qed
  then show ?thesis using bounds unfolding is_bucket_def by auto
qed

text \<open>A previous month, evaluated: February of a leap year from a day of March.\<close>

definition this_month_period :: business_period where
  "this_month_period = \<lparr>bp_dimension = ''invoice.issued_on'', bp_relative = Some This_month, bp_on = None,
     bp_since = None, bp_between = None, bp_granularity = None\<rparr>"

lemma previous_period_is_previous_bucket_witness:
  "\<exists>b s e. period_bounds this_month_period (Inl Value_error) (Some (Date 2024 3 31)) = Inr b \<and>
     shift_period this_month_period b Previous_period = Inr (s, e) \<and> valid_date s \<and> valid_date e \<and>
     (\<forall>d. valid_date d \<longrightarrow> (s \<le> d \<and> d < e) = (bucket Month d = bucket Month (Date 2024 3 31) - 1))"
  using previous_period_is_previous_bucket [of "Date 2024 3 31" this_month_period This_month "Inl Value_error"]
  by (simp add: valid_date_def days_in_month_def buckets_back_def this_month_period_def)

text \<open>
  The previous period of explicit dates has their length: a comparison with the previous period
  of a nonempty range [start, end) reads the range of the same number of days that ends where it
  starts, and is refused as out of range exactly when there are not that many days before it.
\<close>

theorem previous_explicit_period:
  assumes "valid_date start" and "valid_date end" and "start < end" and "bp_relative p = None"
  shows "if ordinal start - 1 < ordinal end - ordinal start
    then shift_period p (start, end) Previous_period =
      Inl (Refused ''grain_unexpressible'' ''comparison_out_of_range'')
    else \<exists>s. shift_period p (start, end) Previous_period = Inr (s, start) \<and> valid_date s \<and>
           ordinal start - ordinal s = ordinal end - ordinal start"
proof -
  have pos: "ordinal start < ordinal end" using assms by (simp add: ordinal_less_iff)
  have room: "ordinal start \<le> 3652059" by (rule ordinal_range [OF assms(1)])
  show ?thesis
  proof (cases "ordinal start - 1 < ordinal end - ordinal start")
    case False
    obtain s where s: "shift_days (- (ordinal end - ordinal start)) start = Inr s" "valid_date s"
        "ordinal s = ordinal start + - (ordinal end - ordinal start)"
      by (rule shift_days_total [OF assms(1), of "- (ordinal end - ordinal start)"])
        (use False pos room in linarith)+
    have "\<not> start \<le> s" using s pos assms(1) by (simp add: ordinal_le_iff)
    then show ?thesis using False s assms(4) by (simp add: shift_period_def Let_def non_empty_def)
  qed (simp add: shift_period_def assms(4))
qed

definition explicit_period :: "date \<Rightarrow> date \<Rightarrow> business_period" where
  "explicit_period a b = \<lparr>bp_dimension = ''invoice.issued_on'', bp_relative = None, bp_on = None,
     bp_since = None, bp_between = Some (a, b), bp_granularity = None\<rparr>"

lemma previous_explicit_period_witness:
  "\<exists>s. shift_period (explicit_period (Date 2024 3 1) (Date 2024 3 2)) (Date 2024 3 1, Date 2024 3 3)
         Previous_period = Inr (s, Date 2024 3 1) \<and> valid_date s"
proof -
  have "valid_date (Date 2024 3 1)" "valid_date (Date 2024 3 3)" "Date 2024 3 1 < Date 2024 3 3"
    "bp_relative (explicit_period (Date 2024 3 1) (Date 2024 3 2)) = None"
    "\<not> ordinal (Date 2024 3 1) - 1 < ordinal (Date 2024 3 3) - ordinal (Date 2024 3 1)"
    by code_simp+
  then show ?thesis
    using previous_explicit_period [of "Date 2024 3 1" "Date 2024 3 3"
        "explicit_period (Date 2024 3 1) (Date 2024 3 2)"] by auto
qed

lemma year_before: "(i - 12) div 12 = i div 12 - (1 :: int)"
  by linarith

text \<open>
  The same period a year earlier is never empty: for a nonempty range from year 2 on, its first
  and last day move to the same month of the year before, the day cut to the length of that month,
  and the range between them is returned, never refused.
\<close>

theorem same_period_last_year_spec:
  assumes start: "valid_date start" and "valid_date end" and "start < end" and "2 \<le> d_year start"
  shows "\<exists>last s l e. shift_days (- 1) end = Inr last \<and> shift_period p (start, end) Same_period_last_year = Inr (s, e) \<and>
    s < e \<and> valid_date s \<and> valid_date e \<and> ordinal e = ordinal l + 1 \<and>
    d_year s = d_year start - 1 \<and> d_month s = d_month start \<and>
    d_day s = min (d_day start) (days_in_month (d_year s) (d_month s)) \<and>
    d_year l = d_year last - 1 \<and> d_month l = d_month last \<and>
    d_day l = min (d_day last) (days_in_month (d_year l) (d_month l))"
proof -
  have pos: "ordinal start < ordinal end" using assms by (simp add: ordinal_less_iff)
  obtain last where last: "shift_days (- 1) end = Inr last" "valid_date last" "ordinal last = ordinal end + - 1"
    by (rule shift_days_total [OF assms(2), of "- 1"])
      (use pos ordinal_range [OF start] ordinal_range [OF assms(2)] in linarith)+
  have le: "start \<le> last" using start last pos by (simp add: ordinal_le_iff)
  have sm: "24 \<le> bucket Month start" using assms(4) start by (simp add: valid_date_def)
  have lm: "24 \<le> bucket Month last" "bucket Month last < 120000"
    using month_mono [OF start last(2) le] sm last(2) by (auto simp: valid_date_def)
  obtain s where s: "shift_months start (- 12) = Inr s" "valid_date s"
      "bucket Month s = bucket Month start + - 12"
      "d_day s = min (d_day start) (days_in_month (d_year s) (d_month s))"
    by (rule shift_months_ok [OF start, of "- 12"])
      (use sm lm month_mono [OF start last(2) le] in linarith)+
  obtain l where l: "shift_months last (- 12) = Inr l" "valid_date l"
      "bucket Month l = bucket Month last + - 12"
      "d_day l = min (d_day last) (days_in_month (d_year l) (d_month l))"
    by (rule shift_months_ok [OF last(2), of "- 12"]) (use lm in linarith)+
  have sl: "s \<le> l"
    by (rule shift_months_mono [OF start last(2) le s(1) l(1)]) (use sm lm in linarith)+
  have "d_year l \<le> 9998"
    using l(3) lm(2) date_of_month [OF l(2)] by (simp del: bucket.simps)
  then have "l < max_date" by (simp add: max_date_def less_date_def)
  then have "ordinal l + 1 \<le> 3652059" using l(2) by (simp add: ordinal_less_iff)
  then obtain e where e: "shift_days 1 l = Inr e" "valid_date e" "ordinal e = ordinal l + 1"
    using shift_days_total [OF l(2), of 1] ordinal_range [OF l(2)] by (metis add_increasing2 zero_le_one)
  have se: "s < e" using sl s(2) l(2) e by (simp add: ordinal_le_iff ordinal_less_iff)
  have same: "d_year s = d_year start - 1" "d_month s = d_month start"
      "d_year l = d_year last - 1" "d_month l = d_month last"
    using date_of_month [OF s(2)] date_of_month [OF start] date_of_month [OF l(2)]
      date_of_month [OF last(2)] s(3) l(3) year_before by (simp_all del: bucket.simps)
  have "shift_period p (start, end) Same_period_last_year = Inr (s, e)"
    using last(1) s(1) l(1) e(1) se by (simp add: shift_period_def non_empty_def not_le [symmetric])
  with last(1) s l e se same show ?thesis by blast
qed

lemma same_period_last_year_spec_witness:
  "\<exists>s e. shift_period (explicit_period (Date 2024 2 29) (Date 2024 2 29)) (Date 2024 2 29, Date 2024 3 1)
     Same_period_last_year = Inr (s, e) \<and> s < e"
  using same_period_last_year_spec [of "Date 2024 2 29" "Date 2024 3 1"
      "explicit_period (Date 2024 2 29) (Date 2024 2 29)"]
  by (auto simp: valid_date_def days_in_month_def is_leap_def less_date_def)

text \<open>The days a period selects, when the business date is \<open>today\<close>.\<close>

definition period_selects :: "business_period \<Rightarrow> date \<Rightarrow> date \<Rightarrow> bool" where
  "period_selects p today d =
     (case bp_relative p of
        Some rel \<Rightarrow> bucket (granularity_of rel) d = bucket (granularity_of rel) today - buckets_back rel
      | None \<Rightarrow>
     (case bp_on p of Some day \<Rightarrow> d = day | None \<Rightarrow>
     (case bp_since p of Some since \<Rightarrow> since \<le> d \<and> d \<le> today | None \<Rightarrow>
     (case bp_between p of Some (a, b) \<Rightarrow> a \<le> d \<and> d \<le> b | None \<Rightarrow> False))))"

definition period_dates :: "business_period \<Rightarrow> date list" where
  "period_dates p = (case bp_on p of Some d \<Rightarrow> [d] | None \<Rightarrow> [])
     @ (case bp_since p of Some d \<Rightarrow> [d] | None \<Rightarrow> [])
     @ (case bp_between p of Some (a, b) \<Rightarrow> [a, b] | None \<Rightarrow> [])"

lemma shift_one:
  assumes "valid_date d" and "shift_days 1 d = Inr e"
  shows "valid_date e" and "valid_date x \<Longrightarrow> x < e \<longleftrightarrow> x \<le> d"
  using assms shift_days_Inr [OF assms(1), of 1 e] by (auto simp: ordinal_less_iff ordinal_le_iff)

text \<open>
  Explicit dates are inclusive: the half-open range of a well-formed period holds exactly the
  days it selects: the bucket of a relative range, the one day of \<open>on\<close>, the days from \<open>since\<close> to
  today, the days of \<open>between\<close> with both ends. It is never empty.
\<close>

theorem period_bounds_select:
  assumes "wf_period p" and "list_all valid_date (today # period_dates p)"
    and "2 \<le> d_year today" and "d_year today \<le> 9998"
    and "period_bounds p clock (Some today) = Inr (s, e)" and "valid_date d"
  shows "(s \<le> d \<and> d < e) = period_selects p today d \<and> s < e"
proof (cases "bp_relative p")
  case (Some rel)
  have today: "valid_date today" using assms(2) by simp
  have "rel \<noteq> All_time" using assms(5) Some by (auto simp: period_bounds_def)
  then obtain s1 e1 where "relative_half_open rel today = Inr (s1, e1)"
    "is_bucket (granularity_of rel) (bucket (granularity_of rel) today - buckets_back rel) (s1, e1)" "s1 < e1"
    by (rule relative_bucket [OF today assms(3,4)])
  then show ?thesis using Some assms(5,6) \<open>rel \<noteq> All_time\<close>
    by (auto simp: period_bounds_def period_selects_def is_bucket_def)
next
  case None
  note eval = period_bounds_def period_selects_def period_dates_def wf_period_def None not_less
  show ?thesis
  proof (cases "bp_on p")
    case (Some day)
    then show ?thesis using assms(2,5,6) shift_one(2) [of day e] None by (auto simp: eval)
  next
    case on: None
    show ?thesis
    proof (cases "bp_since p")
      case (Some since)
      then show ?thesis using assms(2,5,6) shift_one(2) [of today e] on
        by (auto simp: eval split: if_splits)
    next
      case since: None
      show ?thesis
      proof (cases "bp_between p")
        case (Some ab)
        then show ?thesis using assms(1,2,5,6) shift_one(2) [of "snd ab" e] on since
          by (cases ab) (auto simp: eval)
      qed (use assms(5) on since in \<open>simp add: eval\<close>)
    qed
  qed
qed

lemma period_bounds_select_witness:
  "(Date 2024 2 1 \<le> Date 2024 2 29 \<and> Date 2024 2 29 < Date 2024 3 1) =
     period_selects (explicit_period (Date 2024 2 1) (Date 2024 2 29)) (Date 2024 3 31) (Date 2024 2 29)
   \<and> Date 2024 2 1 < Date 2024 3 1"
  by (rule period_bounds_select [where clock = "Inl Value_error"]) code_simp+

text \<open>
  At the ends of the calendar the guards are uneven: a comparison that would leave the calendar
  is refused for explicit dates, but the same bounds of the relative range \<open>today\<close> raise an
  OverflowError, and \<open>this_month\<close> in the last December raises a ValueError.
\<close>

theorem calendar_ends_unguarded:
  "shift_period (explicit_period (Date 1 1 1) (Date 1 1 1)) (Date 1 1 1, Date 1 1 2) Previous_period =
     Inl (Refused ''grain_unexpressible'' ''comparison_out_of_range'')
   \<and> shift_period (this_month_period\<lparr>bp_relative := Some Today\<rparr>) (Date 1 1 1, Date 1 1 2) Previous_period =
     Inl Overflow_error
   \<and> period_bounds this_month_period (Inl Value_error) (Some (Date 9999 12 15)) = Inl Value_error"
  by code_simp

end
