(* ===== verification/Join_Paths.thy ===== *)
theory Join_Paths
  imports Prelude "HOL-Library.List_Lexorder" "HOL-Library.Char_ord"
begin

text \<open>
  Join-graph search over the bundle's joins (app/business_query/compile/join_paths.py): the
  breadth-first search with its hop limit, the join tree of a plan's resources, the classification
  of multiplied resources, the anchor of a statement and the row counts of its answer. The search
  is proved to find a shortest path exactly when one of at most two joins exists.
\<close>

datatype relationship = One_to_one | One_to_many | Many_to_one

record join =
  jn_from :: string
  jn_to :: string
  jn_rel :: relationship
  jn_sql :: string
  jn_optional :: bool

definition MAX_JOIN_HOPS :: nat where "MAX_JOIN_HOPS = 2"

text \<open>\<open>join_adjacency\<close>, as the list it holds for a resource: a join of a resource with itself is in
  it twice.\<close>

definition join_adjacency :: "join list \<Rightarrow> string \<Rightarrow> join list" where
  "join_adjacency joins c =
     concat (map (\<lambda>j. (if jn_from j = c then [j] else []) @ (if jn_to j = c then [j] else [])) joins)"

definition neighbor :: "join \<Rightarrow> string \<Rightarrow> string" where
  "neighbor j c = (if jn_from j = c then jn_to j else jn_from j)"

record search =
  sr_parent :: "string \<rightharpoonup> (string \<times> join) option"
  sr_depth :: "string \<rightharpoonup> nat"
  sr_queue :: "string list"

text \<open>The joins of one resource taken from the queue, up to the goal.\<close>

fun scan_joins :: "string \<Rightarrow> string \<Rightarrow> join list \<Rightarrow> search \<Rightarrow> search \<times> bool" where
  "scan_joins c goal [] s = (s, False)"
| "scan_joins c goal (j # js) s =
     (let n = neighbor j c in
      if sr_parent s n \<noteq> None then scan_joins c goal js s
      else
        (let s1 = s\<lparr>sr_parent := (sr_parent s)(n \<mapsto> Some (c, j)),
                    sr_depth := (sr_depth s)(n \<mapsto> the (sr_depth s c) + 1)\<rparr>
         in if n = goal then (s1, True)
            else scan_joins c goal js (s1\<lparr>sr_queue := sr_queue s1 @ [n]\<rparr>)))"

text \<open>The joins from the goal back to the start; the depth of the goal bounds their number.\<close>

fun walk_back :: "nat \<Rightarrow> search \<Rightarrow> string \<Rightarrow> string \<Rightarrow> join list" where
  "walk_back 0 s start node = []"
| "walk_back (Suc k) s start node =
     (if node = start then []
      else case sr_parent s node of
             Some (Some (p, j)) \<Rightarrow> j # walk_back k s start p
           | _ \<Rightarrow> [])"

text \<open>The resources not seen yet, which bound the rounds of the search.\<close>

definition endpoints :: "join list \<Rightarrow> string list" where
  "endpoints joins = remdups (map jn_from joins @ map jn_to joins)"

definition unseen :: "join list \<Rightarrow> search \<Rightarrow> nat" where
  "unseen joins s = length (filter (\<lambda>n. sr_parent s n = None) (endpoints joins))"

lemma adjacency_set: "set (join_adjacency joins c) = {j \<in> set joins. jn_from j = c \<or> jn_to j = c}"
  by (auto simp: join_adjacency_def)

lemma filter_unseen:
  assumes "n \<in> set xs" and "m n = None"
  shows "length (filter (\<lambda>x. (m(n \<mapsto> v)) x = None) xs) < length (filter (\<lambda>x. m x = None) xs)"
proof -
  have "filter (\<lambda>x. (m(n \<mapsto> v)) x = None) xs = filter (\<lambda>x. x \<noteq> n) (filter (\<lambda>x. m x = None) xs)"
    by (induction xs) auto
  moreover have "n \<in> set (filter (\<lambda>x. m x = None) xs)" using assms by simp
  ultimately show ?thesis by (metis (mono_tags, lifting) length_filter_less)
qed

lemma scan_measure:
  assumes "set js \<subseteq> set joins" and "scan_joins c goal js s = (s1, False)"
  shows "unseen joins s1 + length (sr_queue s1) \<le> unseen joins s + length (sr_queue s)"
  using assms
proof (induction c goal js s rule: scan_joins.induct)
  case (2 c goal j js s)
  have js: "set js \<subseteq> set joins" using "2.prems"(1) by simp
  show ?case
  proof (cases "sr_parent s (neighbor j c) = None")
    case True
    have "neighbor j c \<in> set (endpoints joins)"
      using "2.prems"(1) by (auto simp: neighbor_def endpoints_def)
    from filter_unseen [OF this, of "sr_parent s" "Some (c, j)"] True
    show ?thesis
      using "2.IH"(2) [OF refl _ refl _ js] "2.prems"(2) by (fastforce simp: unseen_def Let_def split: if_splits)
  next
    case False
    then show ?thesis using "2.IH"(1) [OF refl _ js] "2.prems"(2) by (simp add: Let_def)
  qed
qed simp

function bfs :: "join list \<Rightarrow> string \<Rightarrow> string \<Rightarrow> search \<Rightarrow> join list option" where
  "bfs joins start goal s =
     (case sr_queue s of
        [] \<Rightarrow> None
      | c # rest \<Rightarrow>
          if MAX_JOIN_HOPS \<le> the (sr_depth s c) then bfs joins start goal (s\<lparr>sr_queue := rest\<rparr>)
          else
            (let r = scan_joins c goal (join_adjacency joins c) (s\<lparr>sr_queue := rest\<rparr>) in
             if snd r
             then Some (rev (walk_back (the (sr_depth (fst r) goal)) (fst r) start goal))
             else bfs joins start goal (fst r)))"
  by pat_completeness auto

termination
proof (relation "measure (\<lambda>(joins, start, goal, s). unseen joins s + length (sr_queue s))")
  fix joins start goal s c rest r
  assume queue: "sr_queue s = c # rest"
    and r: "r = scan_joins c goal (join_adjacency joins c) (s\<lparr>sr_queue := rest\<rparr>)" and "\<not> snd r"
  then have "unseen joins (fst r) + length (sr_queue (fst r))
      \<le> unseen joins (s\<lparr>sr_queue := rest\<rparr>) + length (sr_queue (s\<lparr>sr_queue := rest\<rparr>))"
    by (intro scan_measure [where js = "join_adjacency joins c" and c = c and goal = goal])
      (auto simp: adjacency_set prod_eq_iff)
  then show "((joins, start, goal, fst r), joins, start, goal, s)
      \<in> measure (\<lambda>(joins, start, goal, s). unseen joins s + length (sr_queue s))"
    using queue by (simp add: unseen_def)
qed (auto simp: unseen_def)

declare bfs.simps [simp del]

definition shortest_join_path :: "join list \<Rightarrow> string \<Rightarrow> string \<Rightarrow> join list option" where
  "shortest_join_path joins start goal =
     (if start = goal then Some []
      else bfs joins start goal
             \<lparr>sr_parent = [start \<mapsto> None], sr_depth = [start \<mapsto> 0], sr_queue = [start]\<rparr>)"

subsection \<open>Paths\<close>

text \<open>A chain of joins that leads from one resource to another, each used in either direction.\<close>

fun join_path :: "join list \<Rightarrow> string \<Rightarrow> join list \<Rightarrow> string \<Rightarrow> bool" where
  "join_path joins a [] b = (a = b)"
| "join_path joins a (j # js) b =
     (j \<in> set (join_adjacency joins a) \<and> join_path joins (neighbor j a) js b)"

lemma join_path_snoc:
  "join_path joins a (p @ [j]) b \<longleftrightarrow>
     (\<exists>c. join_path joins a p c \<and> j \<in> set (join_adjacency joins c) \<and> b = neighbor j c)"
  by (induction p arbitrary: a) auto

definition scanned :: "join list \<Rightarrow> search \<Rightarrow> string \<Rightarrow> bool" where
  "scanned joins s n \<longleftrightarrow> (\<forall>j \<in> set (join_adjacency joins n).
     \<exists>m. sr_depth s (neighbor j n) = Some m \<and> m \<le> the (sr_depth s n) + 1)"

text \<open>The parents form a tree whose depths are those recorded.\<close>

definition tree_ok :: "join list \<Rightarrow> string \<Rightarrow> search \<Rightarrow> bool" where
  "tree_ok joins start s \<longleftrightarrow>
     (\<forall>n. sr_parent s n = None \<longleftrightarrow> sr_depth s n = None) \<and>
     sr_parent s start = Some None \<and> sr_depth s start = Some 0 \<and>
     (\<forall>n. sr_parent s n = Some None \<longrightarrow> n = start) \<and>
     (\<forall>n p j. sr_parent s n = Some (Some (p, j)) \<longrightarrow> j \<in> set (join_adjacency joins p) \<and> n = neighbor j p \<and>
        (\<exists>k. sr_depth s p = Some k \<and> sr_depth s n = Some (Suc k)))"

lemma tree_okD:
  assumes "tree_ok joins start s"
  shows "sr_parent s n = None \<longleftrightarrow> sr_depth s n = None"
    and "sr_parent s start = Some None" and "sr_depth s start = Some 0"
    and "sr_parent s n = Some None \<Longrightarrow> n = start"
    and "sr_parent s n = Some (Some (p, j)) \<Longrightarrow> j \<in> set (join_adjacency joins p)"
    and "sr_parent s n = Some (Some (p, j)) \<Longrightarrow> n = neighbor j p"
    and "sr_parent s n = Some (Some (p, j)) \<Longrightarrow> \<exists>k. sr_depth s p = Some k \<and> sr_depth s n = Some (Suc k)"
  using assms unfolding tree_ok_def by metis+

text \<open>The queue is sorted by depth and nothing found is more than one step deeper than its head \<open>k\<close>.\<close>

definition queue_ok :: "nat \<Rightarrow> search \<Rightarrow> bool" where
  "queue_ok k s \<longleftrightarrow>
     (\<forall>n m. sr_depth s n = Some m \<longrightarrow> m \<le> k + 1) \<and>
     (\<forall>n \<in> set (sr_queue s). \<exists>m. sr_depth s n = Some m \<and> k \<le> m) \<and>
     sorted (map (\<lambda>n. the (sr_depth s n)) (sr_queue s))"

lemma covered:
  assumes "sr_depth s start = Some 0"
    and "\<And>n m. sr_depth s n = Some m \<Longrightarrow> m < k \<Longrightarrow> scanned joins s n"
    and "join_path joins start p n" and "length p \<le> k"
  shows "\<exists>m \<le> length p. sr_depth s n = Some m"
  using assms(3,4)
proof (induction p arbitrary: n rule: rev_induct)
  case (snoc j p)
  then obtain c where c: "join_path joins start p c" "j \<in> set (join_adjacency joins c)" "n = neighbor j c"
    by (auto simp: join_path_snoc)
  then obtain m where m: "m \<le> length p" "sr_depth s c = Some m" using snoc by force
  then have "scanned joins s c" using assms(2) snoc.prems(2) by force
  then obtain i where "sr_depth s n = Some i" "i \<le> m + 1" using c m by (auto simp: scanned_def)
  then show ?case using m by auto
qed (use assms(1) in auto)

lemma walk_back_path:
  assumes tree: "tree_ok joins start s" and "sr_depth s n = Some m"
  shows "join_path joins start (rev (walk_back m s start n)) n \<and> length (walk_back m s start n) = m"
  using assms(2)
proof (induction m arbitrary: n)
  case 0
  have "n = start"
  proof (cases "sr_parent s n")
    case (Some x)
    then show ?thesis using tree_okD(4,7) [OF tree, of n] 0 by (cases x) fastforce+
  qed (use tree_okD(1) [OF tree, of n] 0 in simp)
  then show ?case by simp
next
  case (Suc m)
  have n: "n \<noteq> start" using tree_okD(3) [OF tree] Suc.prems by auto
  then obtain p j where p: "sr_parent s n = Some (Some (p, j))"
    using tree_okD(1,4) [OF tree, of n] Suc.prems by (metis not_Some_eq option.distinct(1) surj_pair)
  then have "sr_depth s p = Some m" using tree_okD(7) [OF tree p] Suc.prems by auto
  then show ?case using Suc.IH [of p] p n tree_okD(5,6) [OF tree p] by (auto simp: join_path_snoc)
qed

lemma depth_shortest:
  assumes "tree_ok joins start s" and "\<And>n m. sr_depth s n = Some m \<Longrightarrow> m < k \<Longrightarrow> scanned joins s n"
    and "sr_depth s goal = None" and "join_path joins start p goal"
  shows "k < length p"
  using covered [of s start k joins p goal] assms by (fastforce simp: tree_ok_def)

text \<open>The state while the joins of \<open>c\<close>, of depth \<open>k\<close>, are scanned.\<close>

definition scanning :: "join list \<Rightarrow> string \<Rightarrow> string \<Rightarrow> string \<Rightarrow> nat \<Rightarrow> search \<Rightarrow> bool" where
  "scanning joins start goal c k s \<longleftrightarrow> tree_ok joins start s \<and> queue_ok k s \<and>
     sr_depth s goal = None \<and> sr_depth s c = Some k \<and> k < MAX_JOIN_HOPS \<and>
     (\<forall>n m. sr_depth s n = Some m \<and> n \<notin> set (sr_queue s) \<and> n \<noteq> c \<and> m < MAX_JOIN_HOPS \<longrightarrow> scanned joins s n)"

definition push :: "string \<Rightarrow> join \<Rightarrow> string \<Rightarrow> nat \<Rightarrow> search \<Rightarrow> search" where
  "push c j n k s = s\<lparr>sr_parent := (sr_parent s)(n \<mapsto> Some (c, j)), sr_depth := (sr_depth s)(n \<mapsto> k + 1)\<rparr>"

lemma push_fields [simp]:
  "sr_parent (push c j n k s) = (sr_parent s)(n \<mapsto> Some (c, j))"
  "sr_depth (push c j n k s) = (sr_depth s)(n \<mapsto> k + 1)"
  "sr_queue (push c j n k s) = sr_queue s"
  by (simp_all add: push_def)

lemma push_tree:
  assumes tree: "tree_ok joins start s" and c: "sr_depth s c = Some k"
    and x: "sr_depth s (neighbor j c) = None" and j: "j \<in> set (join_adjacency joins c)"
  shows "tree_ok joins start (push c j (neighbor j c) k s)"
proof -
  let ?x = "neighbor j c" and ?s = "push c j (neighbor j c) k s"
  have start: "start \<noteq> ?x" and cx: "c \<noteq> ?x" using tree_okD(3) [OF tree] x c by auto
  have edge: "i \<in> set (join_adjacency joins p) \<and> n = neighbor i p \<and>
      (\<exists>k. sr_depth ?s p = Some k \<and> sr_depth ?s n = Some (Suc k))"
    if e: "sr_parent ?s n = Some (Some (p, i))" for n p i
  proof (cases "n = ?x")
    case True
    then show ?thesis using e j c cx by simp
  next
    case False
    then have e1: "sr_parent s n = Some (Some (p, i))" using e by simp
    then have "p \<noteq> ?x" using tree_okD(7) [OF tree e1] x by auto
    then show ?thesis using tree_okD(5,6,7) [OF tree e1] False by simp
  qed
  have dom: "\<forall>n. sr_parent ?s n = None \<longleftrightarrow> sr_depth ?s n = None"
    using tree_okD(1) [OF tree] by simp
  have root: "\<forall>n. sr_parent ?s n = Some None \<longrightarrow> n = start"
    using tree_okD(4) [OF tree] by simp
  have "sr_parent ?s start = Some None" "sr_depth ?s start = Some 0"
    using start tree_okD(2,3) [OF tree] by simp_all
  with dom root edge show ?thesis unfolding tree_ok_def by blast
qed

lemma scanned_push:
  assumes "scanned joins s n" and "sr_depth s n \<noteq> None" and "sr_depth s x = None"
  shows "scanned joins (push c j x k s) n"
  using assms unfolding scanned_def by fastforce

lemma scanned_queue [simp]: "scanned joins (s\<lparr>sr_queue := q\<rparr>) n = scanned joins s n"
  by (simp add: scanned_def)

lemma tree_ok_queue [simp]: "tree_ok joins start (s\<lparr>sr_queue := q\<rparr>) = tree_ok joins start s"
  unfolding tree_ok_def by simp

lemma push_scanning:
  assumes s: "scanning joins start goal c k s" and x: "sr_depth s (neighbor j c) = None"
    and j: "j \<in> set (join_adjacency joins c)" and "neighbor j c \<noteq> goal"
    and s1: "s1 = (push c j (neighbor j c) k s)\<lparr>sr_queue := sr_queue s @ [neighbor j c]\<rparr>"
  shows "scanning joins start goal c k s1"
proof -
  let ?x = "neighbor j c"
  have c: "sr_depth s c = Some k" and q: "queue_ok k s" and tree: "tree_ok joins start s"
    using s by (auto simp: scanning_def)
  have "tree_ok joins start s1" using push_tree [OF tree c x j] unfolding s1 by simp
  moreover have "queue_ok k s1"
  proof -
    have "map (\<lambda>n. the (sr_depth s1 n)) (sr_queue s) = map (\<lambda>n. the (sr_depth s n)) (sr_queue s)"
      using q x by (auto simp: s1 queue_ok_def)
    then have "sorted (map (\<lambda>n. the (sr_depth s1 n)) (sr_queue s))"
      using q unfolding queue_ok_def by metis
    then have "sorted (map (\<lambda>n. the (sr_depth s1 n)) (sr_queue s1))"
      using q by (auto simp: s1 queue_ok_def sorted_append)
    then show ?thesis using q x by (simp add: s1 queue_ok_def)
  qed
  moreover have "scanned joins s1 n"
    if "sr_depth s1 n = Some m" "n \<notin> set (sr_queue s1)" "n \<noteq> c" "m < MAX_JOIN_HOPS" for n m
  proof -
    have "n \<noteq> ?x" "n \<notin> set (sr_queue s)" using that(2) by (auto simp: s1)
    then have "sr_depth s n = Some m" using that(1) by (simp add: s1)
    then have "scanned joins s n" using s that(3,4) \<open>n \<notin> set (sr_queue s)\<close> by (auto simp: scanning_def)
    then show ?thesis using x \<open>sr_depth s n = Some m\<close> by (simp add: s1 scanned_push)
  qed
  ultimately show ?thesis using s assms(4) c x by (auto simp: scanning_def s1)
qed

lemma scanning_covered:
  assumes s: "scanning joins start goal c k s" and "sr_depth s n = Some m" and "m < k"
  shows "scanned joins s n"
proof -
  have "n \<noteq> c" and "m < MAX_JOIN_HOPS" using s assms(2,3) by (auto simp: scanning_def)
  moreover have "n \<notin> set (sr_queue s)"
  proof
    assume "n \<in> set (sr_queue s)"
    then obtain i where "sr_depth s n = Some i" "k \<le> i" using s by (auto simp: scanning_def queue_ok_def)
    then show False using assms(2,3) by simp
  qed
  ultimately show ?thesis using s assms(2) by (auto simp: scanning_def)
qed

text \<open>Scanning either meets the goal or records all neighbours.\<close>

lemma scan_joins_spec:
  assumes "scanning joins start goal c k s" and "set js \<subseteq> set (join_adjacency joins c)"
    and "scan_joins c goal js s = (s1, found)"
  shows "if found
    then \<exists>s0 j. scanning joins start goal c k s0 \<and> j \<in> set (join_adjacency joins c) \<and> neighbor j c = goal \<and>
           s1 = push c j goal k s0
    else scanning joins start goal c k s1 \<and> (\<forall>j \<in> set js. sr_depth s1 (neighbor j c) \<noteq> None) \<and>
           (\<forall>n. sr_depth s n \<noteq> None \<longrightarrow> sr_depth s1 n = sr_depth s n)"
  using assms
proof (induction js arbitrary: s)
  case (Cons j js)
  have k: "sr_depth s c = Some k" using Cons.prems(1) by (simp add: scanning_def)
  have same: "sr_parent s n = None \<longleftrightarrow> sr_depth s n = None" for n
    using Cons.prems(1) tree_okD(1) by (fastforce simp: scanning_def)
  have j: "j \<in> set (join_adjacency joins c)" and js: "set js \<subseteq> set (join_adjacency joins c)"
    using Cons.prems(2) by auto
  show ?case
  proof (cases "sr_depth s (neighbor j c) = None")
    case False
    then have "scan_joins c goal js s = (s1, found)" using Cons.prems(3) same by (simp add: Let_def)
    from Cons.IH [OF Cons.prems(1) js this] False show ?thesis by (auto split: if_splits)
  next
    case new: True
    show ?thesis
    proof (cases "neighbor j c = goal")
      case True
      then show ?thesis using Cons.prems(1,3) new same k j by (auto simp: Let_def push_def)
    next
      case False
      define s2 where "s2 = (push c j (neighbor j c) k s)\<lparr>sr_queue := sr_queue s @ [neighbor j c]\<rparr>"
      have step: "scan_joins c goal js s2 = (s1, found)"
        using Cons.prems(3) new same k False by (simp add: Let_def push_def s2_def)
      have "scanning joins start goal c k s2"
        by (rule push_scanning [OF Cons.prems(1) new j False s2_def])
      from Cons.IH [OF this js step] new show ?thesis by (auto simp: s2_def split: if_splits)
    qed
  qed
qed simp

definition searching :: "join list \<Rightarrow> string \<Rightarrow> string \<Rightarrow> search \<Rightarrow> bool" where
  "searching joins start goal s \<longleftrightarrow> tree_ok joins start s \<and> sr_depth s goal = None \<and>
     (sr_queue s \<noteq> [] \<longrightarrow> queue_ok (the (sr_depth s (hd (sr_queue s)))) s) \<and>
     (\<forall>n m. sr_depth s n = Some m \<and> n \<notin> set (sr_queue s) \<and> m < MAX_JOIN_HOPS \<longrightarrow> scanned joins s n)"

lemma queue_ok_later:
  assumes "queue_ok k s" and "sr_queue s \<noteq> []"
  shows "queue_ok (the (sr_depth s (hd (sr_queue s)))) s"
proof -
  obtain x xs where q: "sr_queue s = x # xs" using assms(2) by (cases "sr_queue s") auto
  then obtain m where m: "sr_depth s x = Some m" "k \<le> m" using assms(1) by (auto simp: queue_ok_def)
  have "m \<le> i" if "n \<in> set xs" "sr_depth s n = Some i" for n i
    using assms(1) q m that by (force simp: queue_ok_def)
  then show ?thesis using assms(1) q m by (fastforce simp: queue_ok_def)
qed

lemma queue_ok_tail:
  "queue_ok k s \<Longrightarrow> sr_queue s = c # rest \<Longrightarrow> queue_ok k (s\<lparr>sr_queue := rest\<rparr>)"
  by (simp add: queue_ok_def)

lemma bfs_correct:
  assumes "searching joins start goal s"
  shows "case bfs joins start goal s of
      None \<Rightarrow> \<forall>p. join_path joins start p goal \<longrightarrow> MAX_JOIN_HOPS < length p
    | Some p \<Rightarrow> join_path joins start p goal \<and> length p \<le> MAX_JOIN_HOPS \<and>
        (\<forall>q. join_path joins start q goal \<longrightarrow> length p \<le> length q)"
  using assms
proof (induction joins start goal s rule: bfs.induct)
  case (1 joins start goal s)
  note s = "1.prems"
  have tree: "tree_ok joins start s" and goal: "sr_depth s goal = None" using s by (auto simp: searching_def)
  show ?case
  proof (cases "sr_queue s")
    case Nil
    then have "bfs joins start goal s = None" by (simp add: bfs.simps)
    moreover have "MAX_JOIN_HOPS < length p" if "join_path joins start p goal" for p
      by (rule depth_shortest [OF tree _ goal that]) (use s Nil in \<open>auto simp: searching_def\<close>)
    ultimately show ?thesis by simp
  next
    case (Cons c rest)
    define k where "k = the (sr_depth s c)"
    have q: "queue_ok k s" using s Cons by (simp add: searching_def k_def)
    then have c: "sr_depth s c = Some k" using Cons by (auto simp: queue_ok_def k_def)
    have q1: "queue_ok k (s\<lparr>sr_queue := rest\<rparr>)" by (rule queue_ok_tail [OF q Cons])
    show ?thesis
    proof (cases "MAX_JOIN_HOPS \<le> k")
      case True
      have "searching joins start goal (s\<lparr>sr_queue := rest\<rparr>)"
        unfolding searching_def
      proof (intro conjI impI allI)
        show "queue_ok (the (sr_depth (s\<lparr>sr_queue := rest\<rparr>) (hd (sr_queue (s\<lparr>sr_queue := rest\<rparr>)))))
            (s\<lparr>sr_queue := rest\<rparr>)" if "sr_queue (s\<lparr>sr_queue := rest\<rparr>) \<noteq> []"
          by (rule queue_ok_later [OF q1 that])
        fix n m assume n: "sr_depth (s\<lparr>sr_queue := rest\<rparr>) n = Some m \<and>
          n \<notin> set (sr_queue (s\<lparr>sr_queue := rest\<rparr>)) \<and> m < MAX_JOIN_HOPS"
        then have "n \<noteq> c" using c True by auto
        then show "scanned joins (s\<lparr>sr_queue := rest\<rparr>) n" using n s Cons by (simp add: searching_def)
      qed (use tree goal in simp_all)
      from "1.IH"(1) [OF Cons _ this] True Cons show ?thesis
        by (subst bfs.simps) (simp add: k_def [symmetric])
    next
      case False
      define r where "r = scan_joins c goal (join_adjacency joins c) (s\<lparr>sr_queue := rest\<rparr>)"
      obtain s1 found where r1: "r = (s1, found)" by (cases r)
      have scan: "scanning joins start goal c k (s\<lparr>sr_queue := rest\<rparr>)"
        using s tree goal c q1 Cons False by (auto simp: scanning_def searching_def)
      note spec = scan_joins_spec [OF scan subset_refl, of s1 found]
      show ?thesis
      proof (cases found)
        case True
        then obtain s0 j where s0: "scanning joins start goal c k s0"
            "j \<in> set (join_adjacency joins c)" "neighbor j c = goal" "s1 = push c j goal k s0"
          using spec r_def r1 by auto
        have t1: "tree_ok joins start s1"
          using s0 push_tree [of joins start s0 c k j] by (simp add: scanning_def)
        have d1: "sr_depth s1 goal = Some (k + 1)" using s0(4) by simp
        have "k < length q" if "join_path joins start q goal" for q
          by (rule depth_shortest [OF _ scanning_covered [OF s0(1)] _ that])
            (use s0(1) in \<open>simp_all add: scanning_def\<close>)
        moreover have "bfs joins start goal s = Some (rev (walk_back (k + 1) s1 start goal))"
          using False True Cons d1
          by (subst bfs.simps)
            (simp add: k_def [symmetric] Let_def r_def [symmetric] r1 del: walk_back.simps)
        ultimately show ?thesis using walk_back_path [OF t1 d1] False by (auto simp: Suc_le_eq)
      next
        case more: False
        then have s1: "scanning joins start goal c k s1"
            "\<And>j. j \<in> set (join_adjacency joins c) \<Longrightarrow> sr_depth s1 (neighbor j c) \<noteq> None"
          using spec r_def r1 by auto
        then have "scanned joins s1 c"
          by (fastforce simp: scanned_def scanning_def queue_ok_def)
        then have "searching joins start goal s1"
          using s1(1) queue_ok_later by (auto simp: scanning_def searching_def)
        then have "searching joins start goal (fst r)" by (simp add: r1)
        moreover have "bfs joins start goal s = bfs joins start goal (fst r)"
          using False more Cons
          by (subst bfs.simps) (simp add: k_def [symmetric] Let_def r_def [symmetric] r1)
        ultimately show ?thesis
          using "1.IH"(2) [OF Cons _ r_def] False more by (simp add: k_def [symmetric] r1)
      qed
    qed
  qed
qed

lemma shortest_join_path_spec:
  "case shortest_join_path joins start goal of
      None \<Rightarrow> \<forall>p. join_path joins start p goal \<longrightarrow> 2 < length p
    | Some p \<Rightarrow> join_path joins start p goal \<and> length p \<le> 2 \<and>
        (\<forall>q. join_path joins start q goal \<longrightarrow> length p \<le> length q)"
proof (cases "start = goal")
  case False
  then have "searching joins start goal
      \<lparr>sr_parent = [start \<mapsto> None], sr_depth = [start \<mapsto> 0], sr_queue = [start]\<rparr>"
    by (auto simp: searching_def tree_ok_def queue_ok_def)
  from bfs_correct [OF this] False show ?thesis
    unfolding shortest_join_path_def MAX_JOIN_HOPS_def by simp
qed (simp add: shortest_join_path_def)

lemma shortest_path_Some:
  "shortest_join_path joins a b = Some p \<Longrightarrow> join_path joins a p b \<and> length p \<le> 2"
  using shortest_join_path_spec [of joins a b] by simp

lemma shortest_path_None:
  "shortest_join_path joins a b = None \<Longrightarrow> join_path joins a p b \<Longrightarrow> 2 < length p"
  using shortest_join_path_spec [of joins a b] by simp

text \<open>
  C32. The join path of two resources is a shortest one: when the search returns a path, it is a
  chain of the bundle's joins from the one to the other, at most two joins long and no longer than
  any other; when it returns none, no chain of at most two joins connects them.
\<close>

theorem shortest_join_path_correct:
  "case shortest_join_path joins start goal of
      None \<Rightarrow> \<forall>p. join_path joins start p goal \<longrightarrow> 2 < length p
    | Some p \<Rightarrow> join_path joins start p goal \<and> length p \<le> 2 \<and>
        (\<forall>q. join_path joins start q goal \<longrightarrow> length p \<le> length q)"
  by (rule shortest_join_path_spec)

definition triangle :: "join list" where
  "triangle =
     [\<lparr>jn_from = ''invoices'', jn_to = ''customers'', jn_rel = Many_to_one,
       jn_sql = ''invoices.customer_id = customers.id'', jn_optional = False\<rparr>,
      \<lparr>jn_from = ''customers'', jn_to = ''payments'', jn_rel = Many_to_one,
       jn_sql = ''customers.last_payment_id = payments.id'', jn_optional = False\<rparr>,
      \<lparr>jn_from = ''invoices'', jn_to = ''payments'', jn_rel = One_to_many,
       jn_sql = ''invoices.id = payments.invoice_id'', jn_optional = False\<rparr>]"

lemma shortest_join_path_correct_witness:
  "\<exists>p. shortest_join_path [hd triangle, triangle ! 1] ''invoices'' ''payments'' = Some p \<and> length p \<le> 2
     \<and> join_path [hd triangle, triangle ! 1] ''invoices'' p ''payments''"
proof -
  let ?joins = "[hd triangle, triangle ! 1]"
  have "join_path ?joins ''invoices'' ?joins ''payments''"
    by (simp add: triangle_def join_adjacency_def neighbor_def)
  then show ?thesis
    using shortest_join_path_correct [of ?joins "''invoices''" "''payments''"]
    by (cases "shortest_join_path ?joins ''invoices'' ''payments''") (auto simp del: join_path.simps)
qed

subsection \<open>The join tree of a plan's resources\<close>

definition join_key :: "join \<Rightarrow> string \<times> string \<times> string" where
  "join_key j = (jn_from j, jn_to j, jn_sql j)"

fun pairs :: "'a list \<Rightarrow> ('a \<times> 'a) list" where
  "pairs [] = []"
| "pairs (x # xs) = map (Pair x) xs @ pairs xs"

fun add_edges :: "join list \<Rightarrow> (string \<times> string \<times> string) set \<times> join list
    \<Rightarrow> (string \<times> string \<times> string) set \<times> join list" where
  "add_edges [] st = st"
| "add_edges (e # es) (seen, edges) =
     (if join_key e \<in> seen then add_edges es (seen, edges)
      else add_edges es (insert (join_key e) seen, edges @ [e]))"

fun join_pairs :: "join list \<Rightarrow> (string \<times> string) list \<Rightarrow> (string \<times> string \<times> string) set \<times> join list
    \<Rightarrow> string + join list" where
  "join_pairs joins [] st = Inr (snd st)"
| "join_pairs joins ((a, b) # ps) st =
     (case shortest_join_path joins a b of
        None \<Rightarrow> Inl ''no_join_path''
      | Some path \<Rightarrow> join_pairs joins ps (add_edges path st))"

definition resolve_join_tree :: "join list \<Rightarrow> string list \<Rightarrow> string + join list" where
  "resolve_join_tree joins resources =
     (if length resources \<le> 1 then Inr [] else join_pairs joins (pairs (sort resources)) ({}, []))"

lemma add_edges_spec:
  assumes "add_edges es (seen, edges) = (seen1, edges1)" and "seen = join_key ` set edges"
    and "distinct (map join_key edges)"
  shows "seen1 = join_key ` set edges1 \<and> distinct (map join_key edges1) \<and>
     set edges \<subseteq> set edges1 \<and> set edges1 \<subseteq> set edges \<union> set es \<and> join_key ` set es \<subseteq> seen1"
  using assms
proof (induction es arbitrary: seen edges)
  case (Cons e es)
  show ?case
  proof (cases "join_key e \<in> seen")
    case True
    then show ?thesis using Cons.IH [of seen edges] Cons.prems by auto
  next
    case False
    then show ?thesis using Cons.IH [of "insert (join_key e) seen" "edges @ [e]"] Cons.prems by auto
  qed
qed simp

lemma join_path_joins: "join_path joins a p b \<Longrightarrow> set p \<subseteq> set joins"
  by (induction p arbitrary: a) (auto simp: adjacency_set)

lemma join_path_within: "join_path joins a p b \<Longrightarrow> set p \<subseteq> set es \<Longrightarrow> join_path es a p b"
  by (induction p arbitrary: a) (auto simp: adjacency_set)

lemma join_pairs_spec:
  assumes "distinct (map join_key joins)" and "seen = join_key ` set edges"
    and "distinct (map join_key edges)" and "set edges \<subseteq> set joins"
  shows "case join_pairs joins ps (seen, edges) of
      Inl e \<Rightarrow> e = ''no_join_path'' \<and> (\<exists>(a, b) \<in> set ps. shortest_join_path joins a b = None)
    | Inr es \<Rightarrow> set edges \<subseteq> set es \<and> distinct (map join_key es) \<and> set es \<subseteq> set joins \<and>
        (\<forall>a b. (a, b) \<in> set ps \<longrightarrow> (\<exists>p. shortest_join_path joins a b = Some p \<and> set p \<subseteq> set es))"
  using assms(2-4)
proof (induction ps arbitrary: seen edges)
  case (Cons ab ps)
  obtain a b where ab: "ab = (a, b)" by (cases ab)
  show ?case
  proof (cases "shortest_join_path joins a b")
    case (Some path)
    obtain seen1 edges1 where add: "add_edges path (seen, edges) = (seen1, edges1)" by fastforce
    note spec = add_edges_spec [OF add Cons.prems(1,2)]
    have "join_path joins a path b" using shortest_path_Some [OF Some] by simp
    then have path: "set path \<subseteq> set joins" by (rule join_path_joins)
    then have edges1: "set edges1 \<subseteq> set joins" using spec Cons.prems(3) by auto
    have "set path \<subseteq> set edges1"
    proof
      fix e assume "e \<in> set path"
      have "join_key e \<in> join_key ` set edges1" using spec \<open>e \<in> set path\<close> by auto
      then obtain e1 where e1: "e1 \<in> set edges1" "join_key e1 = join_key e" by (metis imageE)
      have "inj_on join_key (set joins)" using assms(1) by (simp add: distinct_map)
      moreover have "e1 \<in> set joins" "e \<in> set joins" using e1 edges1 path \<open>e \<in> set path\<close> by auto
      ultimately have "e1 = e" using e1(2) by (meson inj_onD)
      then show "e \<in> set edges1" using e1(1) by simp
    qed
    then show ?thesis
      using Cons.IH [of seen1 edges1] spec edges1 ab Some add by (auto split: sum.splits)
  qed (use ab in auto)
qed simp

lemma pairs_set:
  "a \<in> set xs \<Longrightarrow> b \<in> set xs \<Longrightarrow> a \<noteq> b \<Longrightarrow> (a, b) \<in> set (pairs xs) \<or> (b, a) \<in> set (pairs xs)"
  by (induction xs) auto

lemma pairs_subset: "(a, b) \<in> set (pairs xs) \<Longrightarrow> a \<in> set xs \<and> b \<in> set xs"
  by (induction xs) auto

text \<open>
  C33. The join tree connects the plan: for distinct joins, \<open>resolve_join_tree\<close> returns joins of the
  bundle, none twice, among which every two resources of the plan are connected by at most two
  joins (in one direction or the other); it refuses exactly when some two resources are not
  connected by at most two joins of the bundle.
\<close>

theorem join_tree_connects:
  assumes "distinct (map join_key joins)"
  shows "case resolve_join_tree joins resources of
      Inl e \<Rightarrow> e = ''no_join_path'' \<and>
        (\<exists>a \<in> set resources. \<exists>b \<in> set resources. \<nexists>p. join_path joins a p b \<and> length p \<le> 2)
    | Inr es \<Rightarrow> distinct (map join_key es) \<and> set es \<subseteq> set joins \<and>
        (\<forall>a \<in> set resources. \<forall>b \<in> set resources.
           \<exists>p. (join_path es a p b \<or> join_path es b p a) \<and> length p \<le> 2)"
proof (cases "length resources \<le> 1")
  case True
  have "a = b" if "a \<in> set resources" "b \<in> set resources" for a b
    using True that by (cases resources) auto
  then have "\<exists>p. join_path [] a p b \<and> length p \<le> 2" if "a \<in> set resources" "b \<in> set resources" for a b
    using that by (intro exI [of _ "[]"]) simp
  then show ?thesis using True by (auto simp: resolve_join_tree_def)
next
  case False
  note spec = join_pairs_spec [OF assms, of "{}" "[]" "pairs (sort resources)"]
  show ?thesis
  proof (cases "join_pairs joins (pairs (sort resources)) ({}, [])")
    case (Inl e)
    then obtain a b where ab: "(a, b) \<in> set (pairs (sort resources))" "shortest_join_path joins a b = None"
      using spec by auto
    then have "a \<in> set resources" "b \<in> set resources" using pairs_subset by fastforce+
    moreover have "\<nexists>p. join_path joins a p b \<and> length p \<le> 2"
      using shortest_path_None [OF ab(2)] by (metis not_le)
    ultimately show ?thesis using False Inl spec by (auto simp: resolve_join_tree_def)
  next
    case (Inr es)
    have path: "\<exists>p. join_path es a p b \<and> length p \<le> 2" if ab: "(a, b) \<in> set (pairs (sort resources))" for a b
    proof -
      have "\<exists>p. shortest_join_path joins a b = Some p \<and> set p \<subseteq> set es" using spec Inr ab by simp
      then obtain p where p: "shortest_join_path joins a b = Some p" "set p \<subseteq> set es" by blast
      then show ?thesis using shortest_path_Some [OF p(1)] join_path_within by blast
    qed
    have "\<exists>p. (join_path es a p b \<or> join_path es b p a) \<and> length p \<le> 2"
      if "a \<in> set resources" "b \<in> set resources" for a b
    proof (cases "a = b")
      case True
      then show ?thesis by (intro exI [of _ "[]"]) simp
    next
      case False
      then have "(a, b) \<in> set (pairs (sort resources)) \<or> (b, a) \<in> set (pairs (sort resources))"
        using that by (intro pairs_set) auto
      then show ?thesis using path by blast
    qed
    then show ?thesis using False Inr spec by (auto simp: resolve_join_tree_def)
  qed
qed

subsection \<open>Multiplied resources and the anchor\<close>

definition edges_of :: "join list \<Rightarrow> string \<Rightarrow> join list" where
  "edges_of tree c = filter (\<lambda>j. c = jn_from j \<or> c = jn_to j) tree"

definition on_one_side :: "join \<Rightarrow> string \<Rightarrow> bool" where
  "on_one_side j c \<longleftrightarrow> jn_from j = c \<and> jn_rel j = One_to_many \<or> jn_to j = c \<and> jn_rel j = Many_to_one"

text \<open>\<open>walk\<close> of \<open>is_multiplied\<close>: the edges of \<open>c\<close> that are left, and the visited resources, \<open>c\<close>
  among them.\<close>

function walk :: "join list \<Rightarrow> string \<Rightarrow> join list \<Rightarrow> string list \<Rightarrow> bool \<times> string list" where
  "walk tree c [] v = (False, v)"
| "walk tree c (j # js) v =
     (let other = neighbor j c in
      if on_one_side j c \<and> other \<notin> set v then (True, v)
      else if other \<in> set v then walk tree c js v
      else (let r = walk tree other (edges_of tree other) (other # v) in
            if fst r then (True, snd r) else walk tree c js (snd r)))"
  by pat_completeness auto

lemma walk_visited: "walk_dom (tree, c, js, v) \<Longrightarrow> set v \<subseteq> set (snd (walk tree c js v))"
  by (induction tree c js v rule: walk.pinduct) (fastforce simp: walk.psimps Let_def)+

lemma edges_of_outside: "c \<notin> set (endpoints tree) \<Longrightarrow> edges_of tree c = []"
  by (auto simp: edges_of_def endpoints_def filter_empty_conv)

termination walk
proof (relation "inv_image (finite_psubset <*lex*> less_than)
    (\<lambda>(tree, c, js, v). (set (endpoints tree) - set v, length js))")
  fix tree c j js v other
  assume "other = neighbor j c" "\<not> (on_one_side j c \<and> other \<notin> set v)" "other \<notin> set v"
  then show "((tree, other, edges_of tree other, other # v), tree, c, j # js, v)
      \<in> inv_image (finite_psubset <*lex*> less_than) (\<lambda>(tree, c, js, v). (set (endpoints tree) - set v, length js))"
    by (cases "other \<in> set (endpoints tree)") (auto simp: finite_psubset_def edges_of_outside)
next
  fix tree c j js v other r
  assume other: "other = neighbor j c" "other \<notin> set v"
    and r: "r = walk tree other (edges_of tree other) (other # v)"
    and dom: "walk_dom (tree, other, edges_of tree other, other # v)"
  have "set v \<subseteq> set (snd r)" using walk_visited [OF dom] r by simp
  then show "((tree, c, js, snd r), tree, c, j # js, v)
      \<in> inv_image (finite_psubset <*lex*> less_than) (\<lambda>(tree, c, js, v). (set (endpoints tree) - set v, length js))"
    by (auto simp: finite_psubset_def)
qed auto

lemma walk_keeps: "set v \<subseteq> set (snd (walk tree c js v))"
  by (induction tree c js v rule: walk.induct) (fastforce simp: Let_def)+

definition is_multiplied :: "string \<Rightarrow> join list \<Rightarrow> bool" where
  "is_multiplied resource tree = fst (walk tree resource (edges_of tree resource) [resource])"

definition is_parent_of :: "string \<Rightarrow> string \<Rightarrow> join list \<Rightarrow> bool" where
  "is_parent_of parent child tree = list_ex (\<lambda>j.
     jn_from j = parent \<and> jn_to j = child \<and> jn_rel j = One_to_many
     \<or> jn_to j = parent \<and> jn_from j = child \<and> jn_rel j = Many_to_one) tree"

definition anchor_resource :: "string list \<Rightarrow> join list \<Rightarrow> string option \<Rightarrow> string + string" where
  "anchor_resource resources tree declared =
     (if tree = [] then (case resources of [] \<Rightarrow> Inl ''IndexError'' | r # _ \<Rightarrow> Inr r)
      else
        (let leaves = filter (\<lambda>name. \<not> is_multiplied name tree) resources in
         case leaves of
           [leaf] \<Rightarrow>
             (case declared of
                None \<Rightarrow> Inr leaf
              | Some d \<Rightarrow>
                  if d = leaf then Inr d
                  else if is_multiplied d tree \<and> is_parent_of d leaf tree then Inr d
                  else Inl ''anchor_not_root'')
         | _ \<Rightarrow> Inl ''fanout_unsafe''))"

lemma join_tree_connects_witness:
  "case resolve_join_tree triangle [''invoices'', ''customers''] of
      Inl e \<Rightarrow> False
    | Inr es \<Rightarrow> distinct (map join_key es) \<and> set es \<subseteq> set triangle"
proof -
  let ?j = "hd triangle" and ?R = "[''invoices'', ''customers'']"
  have "join_path triangle a (if a = b then [] else [?j]) b" if "a \<in> set ?R" "b \<in> set ?R" for a b
    using that by (auto simp: triangle_def join_adjacency_def neighbor_def)
  then have "\<exists>p. join_path triangle a p b \<and> length p \<le> 2" if "a \<in> set ?R" "b \<in> set ?R" for a b
    using that by (intro exI [of _ "if a = b then [] else [?j]"]) auto
  moreover have "distinct (map join_key triangle)" by (simp add: triangle_def join_key_def)
  ultimately show ?thesis
    using join_tree_connects [of triangle ?R] by (auto simp del: join_path.simps split: sum.splits)
qed

lemma walk_sound:
  assumes "fst (walk tree c js v)" and "set js \<subseteq> set (edges_of tree c)" and "c \<in> set v"
  shows "\<exists>p d j. join_path tree c p d \<and> j \<in> set tree \<and> on_one_side j d \<and> neighbor j d \<noteq> d"
  using assms
proof (induction tree c js v rule: walk.induct)
  case (2 tree c j js v)
  define other where "other = neighbor j c"
  have j: "j \<in> set tree" "j \<in> set (join_adjacency tree c)" and js: "set js \<subseteq> set (edges_of tree c)"
    using "2.prems"(2) by (auto simp: edges_of_def adjacency_set)
  show ?case
  proof (cases "on_one_side j c \<and> other \<notin> set v")
    case True
    then show ?thesis using j(1) "2.prems"(3) by (intro exI [of _ "[] :: join list"] exI [of _ c] exI [of _ j]) (auto simp: other_def)
  next
    case new: False
    show ?thesis
    proof (cases "other \<in> set v")
      case True
      then show ?thesis using "2.IH"(1) [OF other_def new True _ js "2.prems"(3)] "2.prems"(1) new
        by (simp add: other_def Let_def)
    next
      case False
      define r where "r = walk tree other (edges_of tree other) (other # v)"
      show ?thesis
      proof (cases "fst r")
        case True
        then obtain p d i where "join_path tree other p d" "i \<in> set tree" "on_one_side i d" "neighbor i d \<noteq> d"
          using "2.IH"(2) [OF other_def new False] by (auto simp: r_def)
        then show ?thesis using j(2) by (intro exI [of _ "j # p"]) (auto simp: other_def)
      next
        case over: False
        have "c \<in> set (snd r)"
          using walk_keeps [of "other # v" tree other "edges_of tree other"] "2.prems"(3)
          by (auto simp: r_def)
        moreover have "fst (walk tree c js (snd r))"
          using "2.prems"(1) new False over by (simp add: other_def [symmetric] r_def [symmetric] Let_def)
        ultimately show ?thesis
          using "2.IH"(3) [OF other_def new False r_def over _ js] by blast
      qed
    qed
  qed
qed simp

text \<open>
  A resource is called multiplied for a reason: some chain of joins leads from it to a resource
  with a join whose other side has many rows for one of its own.
\<close>

theorem multiplied_has_fanout:
  assumes "is_multiplied resource tree"
  shows "\<exists>p c j. join_path tree resource p c \<and> j \<in> set tree \<and> on_one_side j c \<and> neighbor j c \<noteq> c"
  using walk_sound assms unfolding is_multiplied_def by simp

lemma multiplied_has_fanout_witness:
  "\<exists>p c j. join_path [hd triangle] ''customers'' p c \<and> j \<in> set [hd triangle] \<and> on_one_side j c \<and> neighbor j c \<noteq> c"
  by (rule multiplied_has_fanout)
    (simp add: is_multiplied_def triangle_def edges_of_def on_one_side_def neighbor_def)

lemma triangle_tree:
  "resolve_join_tree triangle [''payments'', ''invoices'', ''customers''] = Inr [hd triangle, triangle ! 1, triangle ! 2]"
proof -
  have direct: "shortest_join_path triangle ''customers'' ''invoices'' = Some [hd triangle]"
    "shortest_join_path triangle ''customers'' ''payments'' = Some [triangle ! 1]"
    "shortest_join_path triangle ''invoices'' ''payments'' = Some [triangle ! 2]"
    unfolding shortest_join_path_def
    by (simp, subst bfs.simps, simp add: triangle_def MAX_JOIN_HOPS_def join_adjacency_def neighbor_def Let_def)+
  have "sort [''payments'', ''invoices'', ''customers''] = [''customers'', ''invoices'', ''payments'']"
    by code_simp
  then show ?thesis
    by (simp add: resolve_join_tree_def direct) (simp add: triangle_def join_key_def)
qed

text \<open>
  The classification misses fan-out in a cycle: of three resources joined pairwise, the join
  tree holds all three joins, and \<open>invoices\<close>, which has many payments, is classified as not
  multiplied because the walk has met the payments by way of the customers before.
\<close>

theorem fanout_missed_in_cycle:
  "\<exists>tree. resolve_join_tree triangle [''payments'', ''invoices'', ''customers''] = Inr tree \<and>
     is_parent_of ''invoices'' ''payments'' tree \<and> \<not> is_multiplied ''invoices'' tree"
  unfolding triangle_tree
  by (simp add: triangle_def is_parent_of_def is_multiplied_def edges_of_def on_one_side_def neighbor_def Let_def)

subsection \<open>Counting anchors\<close>

record record_ref =
  rf_resource :: string
  rf_row :: nat
  rf_id :: int

record row_identity_counts =
  ric_anchors :: nat
  ric_childless :: nat

text \<open>The dict comprehension keeps the last record of a row.\<close>

definition anchor_by_row :: "record_ref list \<Rightarrow> string \<Rightarrow> nat \<rightharpoonup> int" where
  "anchor_by_row refs anchor = map_of (rev (map (\<lambda>r. (rf_row r, rf_id r)) (filter (\<lambda>r. rf_resource r = anchor) refs)))"

definition row_identity_for :: "record_ref list \<Rightarrow> string \<Rightarrow> string option \<Rightarrow> row_identity_counts" where
  "row_identity_for refs anchor expanded =
     (let rows = map rf_row (filter (\<lambda>r. rf_resource r = anchor) refs);
          anchors = set (List.map_filter (anchor_by_row refs anchor) rows) in
      \<lparr>ric_anchors = card anchors,
       ric_childless = (case expanded of
           None \<Rightarrow> 0
         | Some e \<Rightarrow>
             card (anchors - set (List.map_filter (anchor_by_row refs anchor)
               (map rf_row (filter (\<lambda>r. rf_resource r = e) refs)))))\<rparr>)"

lemma anchor_rows:
  "set (List.map_filter (anchor_by_row refs anchor) (map rf_row (filter (\<lambda>r. rf_resource r = anchor) refs)))
     = ran (anchor_by_row refs anchor)"
proof -
  have "row \<in> rf_row ` {r \<in> set refs. rf_resource r = anchor}"
    if "anchor_by_row refs anchor row = Some x" for row x
    using that by (auto simp: anchor_by_row_def dest!: map_of_SomeD)
  then show ?thesis by (force simp: ran_def map_filter_def)
qed

text \<open>
  The counts of an answer with an expanded child: the anchors are the distinct anchor records
  of the rows, and the childless ones are those none of whose rows has a child record.
\<close>

theorem row_identity_for_counts:
  "let c = row_identity_for refs anchor (Some child); by_row = anchor_by_row refs anchor in
     ric_anchors c = card (ran by_row) \<and>
     ric_childless c = card {a. (\<exists>row. by_row row = Some a) \<and>
       (\<nexists>row r. by_row row = Some a \<and> r \<in> set refs \<and> rf_resource r = child \<and> rf_row r = row)}"
proof -
  have "ran (anchor_by_row refs anchor) - set (List.map_filter (anchor_by_row refs anchor)
        (map rf_row (filter (\<lambda>r. rf_resource r = child) refs)))
    = {a. (\<exists>row. anchor_by_row refs anchor row = Some a) \<and>
       (\<nexists>row r. anchor_by_row refs anchor row = Some a \<and> r \<in> set refs \<and> rf_resource r = child \<and> rf_row r = row)}"
    by (force simp: ran_def map_filter_def)
  then show ?thesis by (simp add: row_identity_for_def Let_def anchor_rows)
qed

end
