(* ===== verification/Runtime_Guards.thy ===== *)
theory Runtime_Guards
  imports Prelude
begin

text \<open>
  The guards a run passes through: the byte-bounded frame queue
  (app/services/byte_bounded_ask_queue.py), the circuit breaker (app/core/breakers.py), the bounded
  executor (app/core/bounded_executor.py), the single terminal frame of a stream
  (app/services/run_lifecycle.py) and the one-time use of a token id (app/auth/jti_replay.py).
  Every operation runs under a lock or without an await, so a history is a list of calls.
\<close>

subsection \<open>The frame queue\<close>

text \<open>A frame with its wire size (\<open>frame_wire_bytes\<close>) and whether it is a \<open>StreamErrorEvent\<close>.\<close>

record frame =
  fr_id :: nat
  fr_bytes :: nat
  fr_error :: bool

datatype queue_item = Queued frame nat | Closed_mark

record ask_queue =
  aq_max_bytes :: nat
  aq_max_frame :: nat
  aq_bytes :: nat
  aq_items :: nat
  aq_closed :: bool
  aq_queue :: "queue_item list"

definition new_queue :: "nat \<Rightarrow> nat \<Rightarrow> ask_queue" where
  "new_queue max_bytes max_frame =
     \<lparr>aq_max_bytes = max_bytes, aq_max_frame = max_frame, aq_bytes = 0, aq_items = 0,
      aq_closed = False, aq_queue = []\<rparr>"

datatype queue_reply =
    Accepted | Closed_queue | Frame_too_large | Buffer_full | Frame frame | End_of_frames | Waits | Done_closing

definition put_nowait :: "frame \<Rightarrow> ask_queue \<Rightarrow> ask_queue \<times> queue_reply" where
  "put_nowait f q =
     (if aq_closed q then (q, Closed_queue)
      else if fr_error f then (q\<lparr>aq_queue := aq_queue q @ [Queued f 0]\<rparr>, Accepted)
      else if aq_max_frame q < fr_bytes f then (q, Frame_too_large)
      else if aq_max_bytes q < aq_bytes q + fr_bytes f then (q, Buffer_full)
      else (q\<lparr>aq_bytes := aq_bytes q + fr_bytes f, aq_items := aq_items q + 1,
              aq_queue := aq_queue q @ [Queued f (fr_bytes f)]\<rparr>, Accepted))"

definition get_frame :: "ask_queue \<Rightarrow> ask_queue \<times> queue_reply" where
  "get_frame q =
     (case aq_queue q of
        [] \<Rightarrow> (q, Waits)
      | Closed_mark # rest \<Rightarrow> (q\<lparr>aq_queue := rest @ [Closed_mark]\<rparr>, End_of_frames)
      | Queued f n # rest \<Rightarrow>
          (q\<lparr>aq_queue := rest, aq_bytes := aq_bytes q - n, aq_items := aq_items q - 1\<rparr>, Frame f))"

definition close_queue :: "ask_queue \<Rightarrow> ask_queue \<times> queue_reply" where
  "close_queue q =
     (if aq_closed q then (q, Done_closing)
      else (q\<lparr>aq_closed := True, aq_queue := aq_queue q @ [Closed_mark]\<rparr>, Done_closing))"

datatype queue_call = Put frame | Get | Close

fun do_queue_call :: "queue_call \<Rightarrow> ask_queue \<Rightarrow> ask_queue \<times> queue_reply" where
  "do_queue_call (Put f) q = put_nowait f q"
| "do_queue_call Get q = get_frame q"
| "do_queue_call Close q = close_queue q"

fun queue_run :: "queue_call list \<Rightarrow> ask_queue \<Rightarrow> ask_queue \<times> (queue_call \<times> queue_reply) list" where
  "queue_run [] q = (q, [])"
| "queue_run (c # cs) q =
     (case do_queue_call c q of (q1, r) \<Rightarrow> case queue_run cs q1 of (q2, hist) \<Rightarrow> (q2, (c, r) # hist))"

definition buffered :: "ask_queue \<Rightarrow> frame list" where
  "buffered q = List.map_filter (\<lambda>i. case i of Queued f n \<Rightarrow> Some f | Closed_mark \<Rightarrow> None) (aq_queue q)"

definition data_bytes :: "frame list \<Rightarrow> nat" where
  "data_bytes fs = sum_list (map (\<lambda>f. if fr_error f then 0 else fr_bytes f) fs)"

text \<open>The frames a history accepted and delivered, in order.\<close>

definition accepted :: "(queue_call \<times> queue_reply) list \<Rightarrow> frame list" where
  "accepted hist = List.map_filter (\<lambda>(c, r). case c of Put f \<Rightarrow> if r = Accepted then Some f else None | _ \<Rightarrow> None) hist"

definition delivered :: "(queue_call \<times> queue_reply) list \<Rightarrow> frame list" where
  "delivered hist = List.map_filter (\<lambda>(c, r). case r of Frame f \<Rightarrow> Some f | _ \<Rightarrow> None) hist"

text \<open>The queue holds the frames \<open>fs\<close> with their accounted sizes, and the closing mark behind them.\<close>

definition queue_holds :: "ask_queue \<Rightarrow> frame list \<Rightarrow> bool" where
  "queue_holds q fs \<longleftrightarrow>
     aq_queue q = map (\<lambda>f. Queued f (if fr_error f then 0 else fr_bytes f)) fs
       @ (if aq_closed q then [Closed_mark] else []) \<and>
     aq_bytes q = data_bytes fs \<and> data_bytes fs \<le> aq_max_bytes q \<and>
     list_all (\<lambda>f. fr_error f \<or> fr_bytes f \<le> aq_max_frame q) fs"

lemma data_bytes_simps [simp]:
  "data_bytes [] = 0"
  "data_bytes (f # fs) = (if fr_error f then 0 else fr_bytes f) + data_bytes fs"
  "data_bytes (fs @ gs) = data_bytes fs + data_bytes gs"
  by (simp_all add: data_bytes_def)

lemma buffered_holds: "queue_holds q fs \<Longrightarrow> buffered q = fs"
proof -
  have "List.map_filter (\<lambda>i. case i of Queued f n \<Rightarrow> Some f | Closed_mark \<Rightarrow> None) (map (\<lambda>f. Queued f (g f)) fs @ xs)
     = fs @ List.map_filter (\<lambda>i. case i of Queued f n \<Rightarrow> Some f | Closed_mark \<Rightarrow> None) xs" for g xs
    by (induction fs) (auto simp: map_filter_simps)
  then show "queue_holds q fs \<Longrightarrow> buffered q = fs"
    by (simp add: queue_holds_def buffered_def map_filter_simps)
qed

lemma put_holds:
  assumes "queue_holds q fs" and "put_nowait f q = (q1, r)"
  shows "queue_holds q1 (if r = Accepted then fs @ [f] else fs)"
  using assms by (auto simp: put_nowait_def queue_holds_def split: if_splits)

lemma get_holds:
  assumes "queue_holds q fs" and "get_frame q = (q1, r)"
  shows "queue_holds q1 (tl fs) \<and> (if fs = [] then r \<in> {Waits, End_of_frames} else r = Frame (hd fs))"
  using assms by (cases fs) (auto simp: get_frame_def queue_holds_def split: if_splits)

lemma close_holds:
  assumes "queue_holds q fs" and "close_queue q = (q1, r)"
  shows "queue_holds q1 fs \<and> r = Done_closing"
  using assms by (auto simp: close_queue_def queue_holds_def split: if_splits)

lemma queue_call_settings:
  assumes "do_queue_call c q = (q1, r)" shows "aq_max_bytes q1 = aq_max_bytes q"
  using assms
  by (cases c) (auto simp: put_nowait_def get_frame_def close_queue_def split: if_splits list.splits queue_item.splits)

definition accepts :: "queue_call \<Rightarrow> queue_reply \<Rightarrow> frame list" where
  "accepts c r = (case c of Put f \<Rightarrow> if r = Accepted then [f] else [] | _ \<Rightarrow> [])"

definition delivers :: "queue_reply \<Rightarrow> frame list" where
  "delivers r = (case r of Frame f \<Rightarrow> [f] | _ \<Rightarrow> [])"

lemma history_Cons [simp]:
  "accepted ((c, r) # hist) = accepts c r @ accepted hist" "accepted [] = []"
  "delivered ((c, r) # hist) = delivers r @ delivered hist" "delivered [] = []"
  by (auto simp: accepted_def delivered_def accepts_def delivers_def map_filter_simps
      split: queue_call.splits queue_reply.splits)

lemma put_reply: "put_nowait f q = (q1, r) \<Longrightarrow> delivers r = []"
  by (auto simp: put_nowait_def delivers_def split: if_splits)

lemma queue_call_holds:
  assumes "queue_holds q fs" and "do_queue_call c q = (q1, r)"
  shows "\<exists>gs. queue_holds q1 gs \<and> fs @ accepts c r = delivers r @ gs"
proof (cases c)
  case (Put f)
  then show ?thesis using put_holds [OF assms(1), of f q1 r] put_reply [of f q q1 r] assms(2)
    by (auto simp: accepts_def split: if_splits)
next
  case Get
  then show ?thesis using get_holds [OF assms(1), of q1 r] assms(2)
    by (cases fs) (auto simp: accepts_def delivers_def)
next
  case Close
  then show ?thesis using close_holds [OF assms(1), of q1 r] assms(2)
    by (auto simp: accepts_def delivers_def)
qed

lemma queue_run_holds:
  assumes "queue_holds q fs" and "queue_run cs q = (q1, hist)"
  shows "\<exists>gs. queue_holds q1 gs \<and> aq_max_bytes q1 = aq_max_bytes q \<and> fs @ accepted hist = delivered hist @ gs"
  using assms
proof (induction cs arbitrary: q fs hist)
  case (Cons c cs)
  obtain q0 r where c: "do_queue_call c q = (q0, r)" by fastforce
  obtain hist0 where run: "queue_run cs q0 = (q1, hist0)" "hist = (c, r) # hist0"
    using Cons.prems(2) c by (auto split: prod.splits)
  obtain ks where ks: "queue_holds q0 ks" "fs @ accepts c r = delivers r @ ks"
    using queue_call_holds [OF Cons.prems(1) c] by blast
  obtain gs where gs: "queue_holds q1 gs" "aq_max_bytes q1 = aq_max_bytes q0"
      "ks @ accepted hist0 = delivered hist0 @ gs"
    using Cons.IH [OF ks(1) run(1)] by blast
  have "fs @ accepted hist = delivered hist @ gs"
    using ks(2) gs(3) run(2) by (metis append.assoc history_Cons(1,3))
  then show ?case using gs(1,2) queue_call_settings [OF c] by auto
qed auto

text \<open>
  C37. The frame queue never holds more bytes than its limit and delivers in order: after any calls,
  the count of buffered bytes is the size of the buffered data frames and at most the limit, and
  the frames delivered so far followed by those still buffered are exactly the frames accepted, an
  error frame being accepted whenever the queue is open.
\<close>

theorem queue_bounded_fifo:
  "case queue_run cs (new_queue max_bytes max_frame) of (q, hist) \<Rightarrow>
     aq_bytes q = data_bytes (buffered q) \<and> aq_bytes q \<le> max_bytes \<and>
     accepted hist = delivered hist @ buffered q \<and>
     snd (put_nowait \<lparr>fr_id = i, fr_bytes = n, fr_error = True\<rparr> q) = (if aq_closed q then Closed_queue else Accepted)"
proof -
  obtain q hist where run: "queue_run cs (new_queue max_bytes max_frame) = (q, hist)" by fastforce
  have "queue_holds (new_queue max_bytes max_frame) []" by (simp add: queue_holds_def new_queue_def)
  then obtain gs where gs: "queue_holds q gs" "aq_max_bytes q = max_bytes" "accepted hist = delivered hist @ gs"
    using queue_run_holds run by (fastforce simp: new_queue_def)
  then show ?thesis
    using run buffered_holds [OF gs(1)] by (simp add: put_nowait_def) (simp add: queue_holds_def)
qed

text \<open>
  The queue's item count is not its length: an error frame is never counted when it is put, and
  taking it counts one frame less, so that a buffered data frame is reported as none.
\<close>

theorem error_frame_undercounts:
  "let data = \<lparr>fr_id = 1, fr_bytes = 10, fr_error = False\<rparr>; err = \<lparr>fr_id = 2, fr_bytes = 10, fr_error = True\<rparr>;
       q = fst (queue_run [Put err, Put data, Get] (new_queue 100 50))
   in aq_items q = 0 \<and> buffered q = [data]"
  by code_simp

subsection \<open>The circuit breaker\<close>

datatype breaker_state = Breaker_closed | Breaker_open | Breaker_half_open

text \<open>Times and the timeout in microseconds, the resolution of \<open>datetime\<close>.\<close>

record breaker =
  br_max_failures :: nat
  br_timeout :: int
  br_state :: breaker_state
  br_failures :: nat
  br_last :: "int option"

definition new_breaker :: "nat \<Rightarrow> int \<Rightarrow> breaker" where
  "new_breaker max_failures timeout =
     \<lparr>br_max_failures = max_failures, br_timeout = timeout, br_state = Breaker_closed, br_failures = 0,
      br_last = None\<rparr>"

definition record_success :: "breaker \<Rightarrow> breaker" where
  "record_success b = b\<lparr>br_failures := 0, br_state := Breaker_closed\<rparr>"

definition record_failure :: "int \<Rightarrow> breaker \<Rightarrow> breaker" where
  "record_failure now b =
     (let b1 = b\<lparr>br_failures := br_failures b + 1, br_last := Some now\<rparr> in
      if br_max_failures b1 \<le> br_failures b1 then b1\<lparr>br_state := Breaker_open\<rparr> else b1)"

definition can_execute :: "int \<Rightarrow> breaker \<Rightarrow> breaker \<times> bool" where
  "can_execute now b =
     (if br_state b = Breaker_closed then (b, True)
      else case br_last b of
             None \<Rightarrow> (b, True)
           | Some t \<Rightarrow>
               if br_timeout b \<le> now - t then (b\<lparr>br_state := Breaker_half_open\<rparr>, True) else (b, False))"

datatype breaker_call = Success | Failure int | Can_execute int

fun do_breaker_call :: "breaker_call \<Rightarrow> breaker \<Rightarrow> breaker" where
  "do_breaker_call Success b = record_success b"
| "do_breaker_call (Failure now) b = record_failure now b"
| "do_breaker_call (Can_execute now) b = fst (can_execute now b)"

text \<open>The times of the failures since the last success.\<close>

fun failure_times :: "int list \<Rightarrow> breaker_call list \<Rightarrow> int list" where
  "failure_times ts [] = ts"
| "failure_times ts (Success # cs) = failure_times [] cs"
| "failure_times ts (Failure now # cs) = failure_times (ts @ [now]) cs"
| "failure_times ts (Can_execute now # cs) = failure_times ts cs"

definition breaker_matches :: "breaker \<Rightarrow> int list \<Rightarrow> bool" where
  "breaker_matches b ts \<longleftrightarrow> br_failures b = length ts \<and> 1 \<le> br_max_failures b \<and>
     (br_state b = Breaker_closed \<longleftrightarrow> length ts < br_max_failures b) \<and>
     (ts \<noteq> [] \<longrightarrow> br_last b = Some (last ts))"

lemma breaker_call_matches:
  assumes "breaker_matches b ts"
  shows "breaker_matches (do_breaker_call c b) (failure_times ts [c])"
  using assms
  by (cases c) (auto simp: breaker_matches_def record_success_def record_failure_def can_execute_def Let_def
      split: option.splits)

lemma breaker_call_settings:
  "br_max_failures (do_breaker_call c b) = br_max_failures b" "br_timeout (do_breaker_call c b) = br_timeout b"
  by (cases c; auto simp: record_success_def record_failure_def can_execute_def Let_def split: option.splits)+

lemma failure_times_Cons: "failure_times ts (c # cs) = failure_times (failure_times ts [c]) cs"
  by (cases c) auto

text \<open>
  C38. The breaker admits a call exactly when fewer than \<open>max_failures\<close> failures were recorded since
  the last success, or the timeout has passed since the last of them, whatever calls and questions
  came in between.
\<close>

theorem breaker_admits:
  assumes "1 \<le> max_failures"
  shows "snd (can_execute now (fold do_breaker_call cs (new_breaker max_failures timeout))) =
    (let ts = failure_times [] cs in length ts < max_failures \<or> timeout \<le> now - last ts)"
proof -
  have "breaker_matches (fold do_breaker_call cs b) (failure_times ts cs) \<and>
      br_max_failures (fold do_breaker_call cs b) = br_max_failures b \<and>
      br_timeout (fold do_breaker_call cs b) = br_timeout b"
    if "breaker_matches b ts" for b ts
    using that
  proof (induction cs arbitrary: b ts)
    case (Cons c cs)
    show ?case using Cons.IH [OF breaker_call_matches [OF Cons.prems, of c]]
      by (simp add: breaker_call_settings failure_times_Cons [of ts c cs])
  qed simp
  moreover have "breaker_matches (new_breaker max_failures timeout) []"
    using assms by (simp add: breaker_matches_def new_breaker_def)
  ultimately have b: "breaker_matches (fold do_breaker_call cs (new_breaker max_failures timeout)) (failure_times [] cs)"
      "br_max_failures (fold do_breaker_call cs (new_breaker max_failures timeout)) = max_failures"
      "br_timeout (fold do_breaker_call cs (new_breaker max_failures timeout)) = timeout"
    by (auto simp: new_breaker_def)
  then show ?thesis
    using assms by (auto simp: can_execute_def breaker_matches_def Let_def split: option.splits)
qed

lemma breaker_admits_witness:
  "snd (can_execute 70 (fold do_breaker_call [Failure 1, Success, Failure 5, Can_execute 6, Failure 7, Failure 9]
     (new_breaker 3 60))) = True"
  using breaker_admits [of 3 70 "[Failure 1, Success, Failure 5, Can_execute 6, Failure 7, Failure 9]" 60] by simp

subsection \<open>The bounded executor\<close>

text \<open>Permits are a semaphore of workers plus queue places; a task holds one from its submission to
  its done callback. Whether the pool takes a task (it raises when it is shut down) is an argument.\<close>

record executor =
  ex_workers :: nat
  ex_max_queue :: nat
  ex_permits :: nat
  ex_shutdown :: bool
  ex_running :: "nat list"

datatype submit_reply = Submitted | Shut_down | Capacity_exhausted | Pool_error

definition new_executor :: "int \<Rightarrow> int \<Rightarrow> executor option" where
  "new_executor workers max_queue =
     (if workers < 1 then None else if max_queue < 0 then None
      else Some \<lparr>ex_workers = nat workers, ex_max_queue = nat max_queue,
                 ex_permits = nat (workers + max_queue), ex_shutdown = False, ex_running = []\<rparr>)"

definition capacity :: "executor \<Rightarrow> nat" where
  "capacity e = ex_workers e + ex_max_queue e"

definition submit :: "nat \<Rightarrow> bool \<Rightarrow> executor \<Rightarrow> executor \<times> submit_reply" where
  "submit task pool_takes e =
     (if ex_shutdown e then (e, Shut_down)
      else if ex_permits e = 0 then (e, Capacity_exhausted)
      else
        (let e1 = e\<lparr>ex_permits := ex_permits e - 1\<rparr> in
         if pool_takes then (e1\<lparr>ex_running := ex_running e1 @ [task]\<rparr>, Submitted)
         else (e1\<lparr>ex_permits := ex_permits e1 + 1\<rparr>, Pool_error)))"

text \<open>The done callback of a task, run once when it ends or is cancelled.\<close>

definition task_done :: "nat \<Rightarrow> executor \<Rightarrow> executor" where
  "task_done task e =
     (if task \<in> set (ex_running e)
      then e\<lparr>ex_running := remove1 task (ex_running e), ex_permits := ex_permits e + 1\<rparr> else e)"

definition shut_down :: "executor \<Rightarrow> executor" where
  "shut_down e = e\<lparr>ex_shutdown := True\<rparr>"

inductive executor_reachable :: "executor \<Rightarrow> executor \<Rightarrow> bool" for e0 where
  start: "executor_reachable e0 e0"
| submit: "executor_reachable e0 e \<Longrightarrow> executor_reachable e0 (fst (submit task takes e))"
| done_task: "executor_reachable e0 e \<Longrightarrow> executor_reachable e0 (task_done task e)"
| shut: "executor_reachable e0 e \<Longrightarrow> executor_reachable e0 (shut_down e)"

lemma executor_inv:
  assumes "executor_reachable e0 e" and "ex_permits e0 + length (ex_running e0) = capacity e0"
  shows "ex_permits e + length (ex_running e) = capacity e \<and> capacity e = capacity e0"
  using assms
proof (induction rule: executor_reachable.induct)
  case (done_task e task)
  then show ?case
    by (cases "length (ex_running e)") (auto simp: task_done_def capacity_def length_remove1)
qed (auto simp: submit_def shut_down_def capacity_def Let_def)

text \<open>
  Admission to the executor is exact: in every state it can reach, the tasks submitted and not
  yet done number at most workers plus queue places, and a submission that the pool would take is
  rejected for capacity exactly when that many are under way and the executor is not shut down; a
  rejected or failed submission leaves the permits as they were.
\<close>

theorem executor_admission_exact:
  assumes "new_executor workers max_queue = Some e0" and "executor_reachable e0 e"
  shows "length (ex_running e) \<le> nat (workers + max_queue) \<and>
    (snd (submit task takes e) = Capacity_exhausted \<longleftrightarrow>
       \<not> ex_shutdown e \<and> length (ex_running e) = nat (workers + max_queue)) \<and>
    (snd (submit task takes e) \<noteq> Submitted \<longrightarrow> fst (submit task takes e) = e)"
proof -
  have e0: "ex_permits e0 + length (ex_running e0) = capacity e0" "capacity e0 = nat (workers + max_queue)"
    using assms(1) by (auto simp: new_executor_def capacity_def nat_add_distrib split: if_splits)
  note inv = executor_inv [OF assms(2) e0(1)]
  then show ?thesis using e0(2) by (auto simp: submit_def Let_def)
qed

definition small_executor :: executor where
  "small_executor = \<lparr>ex_workers = 1, ex_max_queue = 0, ex_permits = 1, ex_shutdown = False, ex_running = []\<rparr>"

lemma executor_admission_exact_witness:
  "snd (submit 2 True (fst (submit 1 True small_executor))) = Capacity_exhausted"
proof -
  have "new_executor 1 0 = Some small_executor" by (simp add: new_executor_def small_executor_def)
  moreover have "executor_reachable small_executor (fst (submit 1 True small_executor))"
    by (intro executor_reachable.intros)
  ultimately show ?thesis
    using executor_admission_exact [of 1 0 small_executor "fst (submit 1 True small_executor)" 2 True]
    by (simp add: small_executor_def submit_def Let_def)
qed

subsection \<open>The terminal frame of a stream\<close>

datatype terminal_state = Open_stream | Finalizing_stream | Done_stream | Error_stream

datatype stream_frame = Terminal_done | Terminal_error | End_mark

record stream_terminal =
  st_terminal :: terminal_state
  st_frames :: "stream_frame list"

datatype stream_call = Claim_done | Release_done | Emit_done | Emit_error | Close_stream

fun stream_step :: "stream_call \<Rightarrow> stream_terminal \<Rightarrow> stream_terminal \<times> bool" where
  "stream_step Claim_done s =
     (if st_terminal s \<noteq> Open_stream then (s, False) else (s\<lparr>st_terminal := Finalizing_stream\<rparr>, True))"
| "stream_step Release_done s =
     (if st_terminal s = Finalizing_stream then s\<lparr>st_terminal := Open_stream\<rparr> else s, True)"
| "stream_step Emit_done s =
     (if st_terminal s = Finalizing_stream \<or> st_terminal s = Open_stream
      then (s\<lparr>st_terminal := Done_stream, st_frames := st_frames s @ [Terminal_done]\<rparr>, True) else (s, False))"
| "stream_step Emit_error s =
     (if st_terminal s \<noteq> Open_stream then (s, False)
      else (s\<lparr>st_terminal := Error_stream, st_frames := st_frames s @ [Terminal_error]\<rparr>, True))"
| "stream_step Close_stream s = (s\<lparr>st_frames := st_frames s @ [End_mark]\<rparr>, True)"

fun stream_run :: "stream_call list \<Rightarrow> stream_terminal \<Rightarrow> stream_terminal \<times> (stream_call \<times> bool) list" where
  "stream_run [] s = (s, [])"
| "stream_run (c # cs) s =
     (case stream_step c s of (s1, b) \<Rightarrow> case stream_run cs s1 of (s2, hist) \<Rightarrow> (s2, (c, b) # hist))"

definition terminals :: "stream_terminal \<Rightarrow> stream_frame list" where
  "terminals s = filter (\<lambda>f. f \<noteq> End_mark) (st_frames s)"

definition emitted :: "(stream_call \<times> bool) list \<Rightarrow> nat" where
  "emitted hist = length (filter (\<lambda>(c, b). c \<in> {Emit_done, Emit_error} \<and> b) hist)"

lemma stream_run_once:
  assumes "stream_run cs s = (s1, hist)"
    and "st_terminal s \<in> {Open_stream, Finalizing_stream} \<longleftrightarrow> terminals s = []" and "length (terminals s) \<le> 1"
  shows "length (terminals s1) \<le> 1 \<and> length (terminals s1) = length (terminals s) + emitted hist"
  using assms
proof (induction cs arbitrary: s hist)
  case (Cons c cs)
  obtain s0 b where c: "stream_step c s = (s0, b)" by fastforce
  obtain hist0 where run: "stream_run cs s0 = (s1, hist0)" "hist = (c, b) # hist0"
    using Cons.prems(1) c by (auto split: prod.splits)
  have s0: "st_terminal s0 \<in> {Open_stream, Finalizing_stream} \<longleftrightarrow> terminals s0 = []"
      "length (terminals s0) \<le> 1" "length (terminals s0) = length (terminals s) + emitted [(c, b)]"
    using c Cons.prems(2,3) by (cases c; auto simp: terminals_def emitted_def split: if_splits)+
  show ?case using Cons.IH [OF run(1) s0(1,2)] s0(3) run(2) by (auto simp: emitted_def split: if_splits)
qed (auto simp: emitted_def)

text \<open>
  C39. A stream ends once: whatever order claims, releases, emissions and closings come in, at most
  one terminal frame is put into its queue, and exactly one emission is answered yes for it.
\<close>

theorem one_terminal_frame:
  "case stream_run cs \<lparr>st_terminal = Open_stream, st_frames = []\<rparr> of (s, hist) \<Rightarrow>
     length (terminals s) \<le> 1 \<and> emitted hist = length (terminals s)"
proof -
  obtain s hist where run: "stream_run cs \<lparr>st_terminal = Open_stream, st_frames = []\<rparr> = (s, hist)"
    by fastforce
  show ?thesis using stream_run_once [OF run] run by (auto simp: terminals_def)
qed

subsection \<open>Tokens used once\<close>

text \<open>The in-memory set, and the Redis key with its expiry; a store that fails says no.\<close>

definition consume_memory :: "string \<Rightarrow> string set \<Rightarrow> string set \<times> bool" where
  "consume_memory jti seen = (if jti \<in> seen then (seen, False) else (insert jti seen, True))"

datatype jti_event = Consume string | Consume_unreachable string | Jti_expires string

fun consume_redis :: "jti_event \<Rightarrow> string set \<Rightarrow> string set \<times> bool" where
  "consume_redis (Consume jti) store = (if jti \<in> store then (store, False) else (insert jti store, True))"
| "consume_redis (Consume_unreachable jti) store = (store, False)"
| "consume_redis (Jti_expires jti) store = (store - {jti}, False)"

fun jti_run :: "jti_event list \<Rightarrow> string set \<Rightarrow> bool list" where
  "jti_run [] store = []"
| "jti_run (e # es) store = (case consume_redis e store of (store1, b) \<Rightarrow> b # jti_run es store1)"

lemma jti_refused:
  assumes "jti \<in> store" and "Jti_expires jti \<notin> set es" and "i < length es" and "es ! i = Consume jti"
  shows "\<not> jti_run es store ! i"
  using assms
proof (induction es arbitrary: store i)
  case (Cons e es)
  have "jti \<in> fst (consume_redis e store)"
    using Cons.prems(1,2) by (cases e) auto
  then show ?case
    using Cons by (cases i) (auto split: prod.splits)
qed simp

text \<open>
  A token is accepted once: after a consume of a token id was answered yes, every later consume
  of it is answered no until its key expires, whatever other tokens are consumed, expire or fail.
\<close>

theorem jti_accepted_once:
  assumes "i < j" and "j < length es" and "es ! i = Consume jti" and "es ! j = Consume jti"
    and "jti_run es store ! i" and "Jti_expires jti \<notin> set (take (j - i) (drop i es))"
  shows "\<not> jti_run es store ! j"
  using assms
proof (induction es arbitrary: store i j)
  case (Cons e es)
  show ?case
  proof (cases i)
    case 0
    then obtain k where j: "j = Suc k" using Cons.prems(1) by (cases j) auto
    have e: "e = Consume jti" using Cons.prems(3) 0 by simp
    have free: "Jti_expires jti \<notin> set (take k es)" using Cons.prems(6) 0 j by simp
    have k: "k < length es" "es ! k = Consume jti" using Cons.prems(2,4) j by auto
    have "jti \<in> fst (consume_redis e store)" using e by simp
    moreover have "jti_run es s ! k = jti_run (take (Suc k) es) s ! k" for s
      using k(1)
    proof (induction es arbitrary: k s)
      case (Cons a es)
      then show ?case by (cases k) (auto split: prod.splits)
    qed simp
    moreover have "Jti_expires jti \<notin> set (take (Suc k) es)" using free k by (simp add: take_Suc_conv_app_nth)
    ultimately have "\<not> jti_run es (fst (consume_redis e store)) ! k"
      using jti_refused [of jti _ "take (Suc k) es" k] k by simp
    then show ?thesis using j by (simp add: case_prod_beta)
  next
    case (Suc h)
    then obtain k where j: "j = Suc k" using Cons.prems(1) by (cases j) auto
    show ?thesis using Cons.IH [of h k "fst (consume_redis e store)"] Cons.prems Suc j
      by (auto split: prod.splits)
  qed
qed simp

lemma jti_accepted_once_witness:
  "\<not> jti_run [Consume ''a'', Jti_expires ''b'', Consume ''b'', Consume ''a''] {} ! 3"
  by (rule jti_accepted_once [where i = 0 and jti = "''a''"]) simp_all

end
