(* ===== verification/Filter_Tree.thy ===== *)
theory Filter_Tree
  imports Prelude
begin

text \<open>
  The filter trees of a business query plan (app/business_query/plan/filter_tree.py): leaves,
  groups, their traversals, what a tree guarantees of every row it lets through, and the meaning a
  compiled group has (app/business_query/compile/filter_compiler.py).
\<close>

subsection \<open>The tree\<close>

datatype filter_operator =
    Op_eq | Op_neq | Op_gt | Op_gte | Op_lt | Op_lte | Op_in | Op_not_in | Op_is_null | Op_not_null
  | Op_contains | Op_in_set | Op_not_in_set

text \<open>A value of a filter; a float by the text Python prints for it.\<close>

datatype scalar = S_str string | S_int int | S_float string | S_bool bool

fun py_str :: "scalar \<Rightarrow> string" where
  "py_str (S_str s) = s"
| "py_str (S_int n) = show_int n"
| "py_str (S_float s) = s"
| "py_str (S_bool b) = (if b then ''True'' else ''False'')"

record plan_filter =
  pf_member :: string
  pf_operator :: filter_operator
  pf_values :: "scalar list"

record attribute_predicate =
  at_family :: string
  at_attribute :: "string option"
  at_revision :: "string option"
  at_definition_revision :: "string option"
  at_value_kind :: string
  at_operator :: filter_operator
  at_values :: "scalar list"
  at_quantifier :: string

datatype filter_leaf = Plan_filter plan_filter | Attribute attribute_predicate

datatype filter_node = Leaf filter_leaf | Group "filter_node list" "filter_node list"

text \<open>The validators \<open>_operator_value_arity\<close>.\<close>

definition filter_arity_ok :: "plan_filter \<Rightarrow> bool" where
  "filter_arity_ok f \<longleftrightarrow>
     (if pf_operator f \<in> {Op_is_null, Op_not_null} then pf_values f = []
      else if pf_operator f \<in> {Op_in_set, Op_not_in_set}
      then (case pf_values f of [S_str s] \<Rightarrow> True | _ \<Rightarrow> False)
      else pf_values f \<noteq> [])"

definition attribute_arity_ok :: "attribute_predicate \<Rightarrow> bool" where
  "attribute_arity_ok a \<longleftrightarrow>
     (if at_operator a \<in> {Op_is_null, Op_not_null} then at_values a = [] else at_values a \<noteq> [])"

fun leaf_member :: "filter_leaf \<Rightarrow> string" where
  "leaf_member (Plan_filter f) = pf_member f"
| "leaf_member (Attribute a) = at_family a"

fun leaf_operator :: "filter_leaf \<Rightarrow> filter_operator" where
  "leaf_operator (Plan_filter f) = pf_operator f"
| "leaf_operator (Attribute a) = at_operator a"

fun leaf_values :: "filter_leaf \<Rightarrow> scalar list" where
  "leaf_values (Plan_filter f) = pf_values f"
| "leaf_values (Attribute a) = at_values a"

subsection \<open>Traversals\<close>

fun iter_filter_leaves :: "filter_node \<Rightarrow> filter_leaf list" where
  "iter_filter_leaves (Leaf l) = [l]"
| "iter_filter_leaves (Group a o') =
     concat (map iter_filter_leaves a) @ concat (map iter_filter_leaves o')"

definition kept :: "'a option list \<Rightarrow> 'a list" where
  "kept xs = concat (map (\<lambda>x. case x of None \<Rightarrow> [] | Some y \<Rightarrow> [y]) xs)"

fun map_filter_tree :: "(filter_leaf \<Rightarrow> filter_leaf option) \<Rightarrow> filter_node \<Rightarrow> filter_node option" where
  "map_filter_tree transform (Leaf l) = map_option Leaf (transform l)"
| "map_filter_tree transform (Group a o') =
     (let new_all = kept (map (map_filter_tree transform) a);
          new_any = kept (map (map_filter_tree transform) o')
      in if new_all = [] \<and> new_any = [] then None else Some (Group new_all new_any))"

fun collect_filter_members :: "filter_node \<Rightarrow> string set" where
  "collect_filter_members (Leaf l) = {leaf_member l}"
| "collect_filter_members (Group a o') =
     (\<Union>n\<in>set a. collect_filter_members n) \<union> (\<Union>n\<in>set o'. collect_filter_members n)"

subsection \<open>Guarantees\<close>

fun guaranteed_filter_members :: "filter_node \<Rightarrow> string set" where
  "guaranteed_filter_members (Leaf l) = {leaf_member l}"
| "guaranteed_filter_members (Group a o') =
     (\<Union>n\<in>set a. guaranteed_filter_members n) \<union>
     (if o' = [] then {} else \<Inter>n\<in>set o'. guaranteed_filter_members n)"

definition leaf_equality :: "string \<Rightarrow> filter_leaf \<Rightarrow> string option" where
  "leaf_equality member l =
     (if leaf_member l = member \<and> leaf_operator l = Op_eq \<and> length (leaf_values l) = 1
      then Some (py_str (hd (leaf_values l))) else None)"

fun guaranteed_single_equality :: "string \<Rightarrow> filter_node \<Rightarrow> string option" where
  "guaranteed_single_equality member (Leaf l) = leaf_equality member l"
| "guaranteed_single_equality member (Group a o') =
     (let all_values = fromkeys (kept (map (guaranteed_single_equality member) a)) in
      if 1 < length all_values then None
      else if all_values \<noteq> [] then Some (hd all_values)
      else if o' = [] then None
      else
        (let branch_values = map (guaranteed_single_equality member) o' in
         if None \<in> set branch_values then None
         else if length (fromkeys branch_values) = 1 then hd branch_values else None))"

subsection \<open>The meaning of a compiled group\<close>

text \<open>The rows a compiled group lets through, from the leaves that are true of a row. SQL's unknown
  counts as not true: groups combine leaves with \<open>and\<close> and \<open>or\<close> only, and a row passes when the
  whole is true.\<close>

fun holds :: "(filter_leaf \<Rightarrow> bool) \<Rightarrow> filter_node \<Rightarrow> bool" where
  "holds \<nu> (Leaf l) = \<nu> l"
| "holds \<nu> (Group a o') =
     (if a \<noteq> [] \<and> o' \<noteq> [] then (\<forall>n\<in>set a. holds \<nu> n) \<and> (\<exists>n\<in>set o'. holds \<nu> n)
      else if a \<noteq> [] then \<forall>n\<in>set a. holds \<nu> n
      else if o' \<noteq> [] then \<exists>n\<in>set o'. holds \<nu> n
      else True)"

lemma holds_Group: "holds \<nu> (Group a o') \<longleftrightarrow> (\<forall>n\<in>set a. holds \<nu> n) \<and> (o' = [] \<or> (\<exists>n\<in>set o'. holds \<nu> n))"
  by auto

declare holds.simps(2) [simp del]

lemma set_kept [simp]: "x \<in> set (kept xs) \<longleftrightarrow> Some x \<in> set xs"
  by (induction xs) (auto simp: kept_def split: option.splits)

lemma kept_Nil_iff: "kept xs = [] \<longleftrightarrow> (\<forall>x\<in>set xs. x = None)"
  by (induction xs) (auto simp: kept_def split: option.splits)

lemma collect_filter_members_leaves: "collect_filter_members n = leaf_member ` set (iter_filter_leaves n)"
  by (induction n) auto

subsection \<open>What they promise\<close>

text \<open>The tree under which exactly the leaves of other members hold.\<close>

lemma guaranteed_exact_node:
  "m \<in> guaranteed_filter_members n \<longleftrightarrow>
     (\<forall>\<nu>. holds \<nu> n \<longrightarrow> (\<exists>l\<in>set (iter_filter_leaves n). leaf_member l = m \<and> \<nu> l))"
proof
  show "m \<in> guaranteed_filter_members n \<Longrightarrow>
      \<forall>\<nu>. holds \<nu> n \<longrightarrow> (\<exists>l\<in>set (iter_filter_leaves n). leaf_member l = m \<and> \<nu> l)"
  proof (induction n)
    case (Leaf l)
    then show ?case by simp
  next
    case (Group a o')
    show ?case
    proof (intro allI impI)
      fix \<nu> assume h: "holds \<nu> (Group a o')"
      from Group.prems have "(\<exists>n\<in>set a. m \<in> guaranteed_filter_members n) \<or>
          (o' \<noteq> [] \<and> (\<forall>n\<in>set o'. m \<in> guaranteed_filter_members n))"
        by (auto split: if_splits)
      then obtain n where "n \<in> set a \<union> set o'" "holds \<nu> n" "m \<in> guaranteed_filter_members n"
        using h by (auto simp: holds_Group)
      then show "\<exists>l\<in>set (iter_filter_leaves (Group a o')). leaf_member l = m \<and> \<nu> l"
        using Group.IH by fastforce
    qed
  qed
next
  have "m \<notin> guaranteed_filter_members n \<Longrightarrow> holds (\<lambda>l. leaf_member l \<noteq> m) n"
    by (induction n) (auto simp: holds_Group split: if_splits)
  then show "\<forall>\<nu>. holds \<nu> n \<longrightarrow> (\<exists>l\<in>set (iter_filter_leaves n). leaf_member l = m \<and> \<nu> l) \<Longrightarrow>
      m \<in> guaranteed_filter_members n"
    by blast
qed

text \<open>
  C28. The guaranteed members of a filter group are exact: a member is guaranteed if and only if no
  truth values of the leaves let a row through while every leaf of that member is false.
\<close>

theorem guaranteed_members_exact:
  "m \<in> guaranteed_filter_members (Group a o') \<longleftrightarrow>
     \<not> (\<exists>\<nu>. holds \<nu> (Group a o') \<and>
       \<not> (\<exists>l\<in>set (iter_filter_leaves (Group a o')). leaf_member l = m \<and> \<nu> l))"
  using guaranteed_exact_node [of m "Group a o'"] by blast

lemma hd_fromkeys: "fromkeys xs \<noteq> [] \<Longrightarrow> hd (fromkeys xs) \<in> set xs"
  using hd_in_set [of "fromkeys xs"] by simp

lemma single_fromkeys: "length (fromkeys xs) = 1 \<Longrightarrow> x \<in> set xs \<Longrightarrow> hd xs = x"
proof -
  assume "length (fromkeys xs) = 1" "x \<in> set xs"
  then obtain y where "fromkeys xs = [y]" by (auto simp: length_Suc_conv)
  then have "set xs = {y}" using set_fromkeys [of xs] by simp
  with \<open>x \<in> set xs\<close> show ?thesis by (cases xs) auto
qed

text \<open>
  A guaranteed single equality is one: whenever a row passes the tree, a leaf that says the
  member equals that one value, as text, is true of it.
\<close>

theorem guaranteed_equality_holds:
  assumes "guaranteed_single_equality m g = Some v" and "holds \<nu> g"
  shows "\<exists>l\<in>set (iter_filter_leaves g). leaf_member l = m \<and> leaf_operator l = Op_eq \<and>
           \<nu> l \<and> (\<exists>w. leaf_values l = [w] \<and> py_str w = v)"
  using assms
proof (induction g)
  case (Leaf l)
  then show ?case by (auto simp: leaf_equality_def length_Suc_conv split: if_splits)
next
  case (Group a o')
  have "\<exists>n\<in>set a \<union> set o'. guaranteed_single_equality m n = Some v \<and> holds \<nu> n"
  proof (cases "fromkeys (kept (map (guaranteed_single_equality m) a)) = []")
    case False
    then have "v = hd (fromkeys (kept (map (guaranteed_single_equality m) a)))"
      using Group.prems(1) by (auto simp: Let_def split: if_splits)
    with hd_fromkeys [OF False] have "\<exists>n\<in>set a. guaranteed_single_equality m n = Some v" by force
    then show ?thesis using Group.prems(2) by (auto simp: holds_Group)
  next
    case True
    then have b: "o' \<noteq> []" "length (fromkeys (map (guaranteed_single_equality m) o')) = 1"
        "hd (map (guaranteed_single_equality m) o') = Some v"
      using Group.prems(1) by (auto simp: Let_def split: if_splits)
    obtain n where "n \<in> set o'" "holds \<nu> n" using b(1) Group.prems(2) by (auto simp: holds_Group)
    moreover have "guaranteed_single_equality m n = Some v"
      using single_fromkeys [OF b(2), of "guaranteed_single_equality m n"] b(3) \<open>n \<in> set o'\<close> by auto
    ultimately show ?thesis by blast
  qed
  then obtain n where n: "n \<in> set a \<union> set o'" "guaranteed_single_equality m n = Some v" "holds \<nu> n"
    by blast
  from n(1) have "set (iter_filter_leaves n) \<subseteq> set (iter_filter_leaves (Group a o'))" by auto
  moreover have "\<exists>l\<in>set (iter_filter_leaves n). leaf_member l = m \<and> leaf_operator l = Op_eq \<and>
      \<nu> l \<and> (\<exists>w. leaf_values l = [w] \<and> py_str w = v)"
    using n(1) Group.IH(1) [OF _ n(2,3)] Group.IH(2) [OF _ n(2,3)] by blast
  ultimately show ?case by blast
qed

definition paid_filter :: filter_node where
  "paid_filter =
     Group [] [Leaf (Plan_filter \<lparr>pf_member = ''invoice.status'', pf_operator = Op_eq, pf_values = [S_str ''paid'']\<rparr>),
       Group [Leaf (Plan_filter \<lparr>pf_member = ''invoice.total'', pf_operator = Op_gt, pf_values = [S_int 5]\<rparr>),
         Leaf (Plan_filter \<lparr>pf_member = ''invoice.status'', pf_operator = Op_eq, pf_values = [S_str ''paid'']\<rparr>)] []]"

lemma guaranteed_equality_holds_witness:
  "\<exists>l\<in>set (iter_filter_leaves paid_filter). leaf_member l = ''invoice.status'' \<and> leaf_operator l = Op_eq \<and>
     leaf_member l = ''invoice.status'' \<and> (\<exists>w. leaf_values l = [w] \<and> py_str w = ''paid'')"
  by (rule guaranteed_equality_holds [where \<nu> = "\<lambda>l. leaf_member l = ''invoice.status''"]) code_simp+

text \<open>No group of the tree is empty, as the validator of a group leaves it.\<close>

fun filled :: "filter_node \<Rightarrow> bool" where
  "filled (Leaf l) = True"
| "filled (Group a o') = ((a \<noteq> [] \<or> o' \<noteq> []) \<and> (\<forall>n\<in>set a. filled n) \<and> (\<forall>n\<in>set o'. filled n))"

lemma kept_Some [simp]: "kept (map (\<lambda>x. Some (f x)) xs) = map f xs"
  by (induction xs) (auto simp: kept_def)

lemma kept_append: "kept (xs @ ys) = kept xs @ kept ys" by (simp add: kept_def)

lemma kept_concat: "kept (concat xss) = concat (map kept xss)"
  by (induction xss) (auto simp: kept_append kept_def)

lemma concat_kept:
  "concat (map f (kept xs)) = concat (map (\<lambda>x. case x of None \<Rightarrow> [] | Some y \<Rightarrow> f y) xs)"
  by (induction xs) (auto simp: kept_def split: option.splits)

definition tree_leaves :: "filter_node option \<Rightarrow> filter_leaf list" where
  "tree_leaves t = (case t of None \<Rightarrow> [] | Some n \<Rightarrow> iter_filter_leaves n)"

lemma map_tree_leaves:
  "tree_leaves (map_filter_tree f n) = kept (map f (iter_filter_leaves n))"
proof (induction n)
  case (Leaf l)
  then show ?case by (cases "f l") (simp_all add: tree_leaves_def kept_def)
next
  case (Group a o')
  have "concat (map iter_filter_leaves (kept (map (map_filter_tree f) xs))) =
      kept (map f (concat (map iter_filter_leaves xs)))"
    if "\<And>n. n \<in> set xs \<Longrightarrow> tree_leaves (map_filter_tree f n) = kept (map f (iter_filter_leaves n))" for xs
    using that by (simp add: concat_kept kept_concat map_concat comp_def tree_leaves_def cong: map_cong)
  from this [of a, OF Group.IH(1)] this [of o', OF Group.IH(2)]
  have "concat (map iter_filter_leaves (kept (map (map_filter_tree f) a))) =
      kept (map f (concat (map iter_filter_leaves a)))"
    "concat (map iter_filter_leaves (kept (map (map_filter_tree f) o'))) =
      kept (map f (concat (map iter_filter_leaves o')))" by simp_all
  then show ?case
    by (cases "kept (map (map_filter_tree f) a) = [] \<and> kept (map (map_filter_tree f) o') = []")
      (auto simp: tree_leaves_def kept_append Let_def)
qed

lemma map_tree_filled: "map_filter_tree f n = Some t \<Longrightarrow> filled t"
proof (induction n arbitrary: t)
  case (Leaf l)
  then show ?case by auto
next
  case (Group a o')
  then show ?case by (fastforce simp: Let_def split: if_splits)
qed

lemma filled_has_leaf: "filled n \<Longrightarrow> iter_filter_leaves n \<noteq> []"
  by (induction n) auto

lemma map_tree_holds:
  "filled n \<Longrightarrow> \<exists>t. map_filter_tree (\<lambda>l. Some (f l)) n = Some t \<and> (\<forall>\<nu>. holds \<nu> t = holds (\<lambda>l. \<nu> (f l)) n)"
proof (induction n)
  case (Leaf l)
  then show ?case by simp
next
  case (Group a o')
  define g where "g n = the (map_filter_tree (\<lambda>l. Some (f l)) n)" for n
  have g: "map_filter_tree (\<lambda>l. Some (f l)) n = Some (g n)" "holds \<nu> (g n) = holds (\<lambda>l. \<nu> (f l)) n"
    if "n \<in> set a \<union> set o'" for n \<nu>
    using Group.IH [of n] Group.prems that by (auto simp: g_def)
  then have "map (map_filter_tree (\<lambda>l. Some (f l))) a = map (\<lambda>n. Some (g n)) a"
    "map (map_filter_tree (\<lambda>l. Some (f l))) o' = map (\<lambda>n. Some (g n)) o'" by auto
  then have "kept (map (map_filter_tree (\<lambda>l. Some (f l))) a) = map g a"
    "kept (map (map_filter_tree (\<lambda>l. Some (f l))) o') = map g o'" by (simp_all only: kept_Some)
  then have "map_filter_tree (\<lambda>l. Some (f l)) (Group a o') = Some (Group (map g a) (map g o'))"
    using Group.prems by (simp add: Let_def)
  then show ?case using g(2) by (auto simp: holds_Group)
qed

text \<open>
  Mapping a filter tree maps its leaves in order and drops those without an image; what is left
  has no empty group, and no tree is left exactly when no leaf is.
\<close>

theorem map_filter_tree_spec:
  "case map_filter_tree f n of
     None \<Rightarrow> kept (map f (iter_filter_leaves n)) = []
   | Some t \<Rightarrow> filled t \<and> iter_filter_leaves t = kept (map f (iter_filter_leaves n))
       \<and> iter_filter_leaves t \<noteq> []"
  using map_tree_leaves [of f n] map_tree_filled [of f n] filled_has_leaf
  by (auto simp: tree_leaves_def split: option.splits)

end
