(* ===== verification/Query_Plan.thy ===== *)
theory Query_Plan
  imports Py_Regex Filter_Tree Business_Time
begin

text \<open>
  The business query plan and its validators (app/business_query/plan/query_plan.py with
  derived_sets.py and time_groups.py): the clauses of a plan, its derived sets, the shape rules, and
  the members a plan names. A message of a validator is a constructor that keeps its parameters.
\<close>

subsection \<open>Plans\<close>

datatype plan_grain = Scalar | Grouped | Entity_rows

datatype direction = Asc | Desc

record order_clause =
  oc_member :: string
  oc_direction :: direction

record detail_selection =
  dt_family :: string
  dt_mode :: string
  dt_revision :: "string option"
  dt_as_of :: "string option"

text \<open>The fields of a plan without its derived sets.\<close>

record clauses =
  q_measures :: "string list"
  q_dimensions :: "string list"
  q_bucket_set :: "string option"
  q_anchor :: "string option"
  q_filters :: "filter_node option"
  q_having :: "filter_node option"
  q_period :: "business_period option"
  q_compare_to :: "compare_to option"
  q_grain :: plan_grain
  q_order :: "order_clause list"
  q_attributes :: "attribute_predicate list"
  q_details :: "detail_selection list"
  q_limit :: int

datatype set_mode = Complete_set | Pick_set | Ranked_set

datatype plan = Plan (plan_clauses: clauses) (plan_sets: "derived_set list")
  and derived_set = Derived_set (set_id: string) (set_mode: set_mode) (set_key: string) (set_plan: plan)

abbreviation on_plan :: "(clauses \<Rightarrow> 'a) \<Rightarrow> plan \<Rightarrow> 'a" where
  "on_plan f p \<equiv> f (plan_clauses p)"

definition MIN_PLAN_LIMIT :: int where "MIN_PLAN_LIMIT = 1"
definition MAX_PLAN_LIMIT :: int where "MAX_PLAN_LIMIT = 50"
definition MAX_DERIVED_SETS :: nat where "MAX_DERIVED_SETS = 3"

text \<open>\<open>^[A-Za-z][A-Za-z0-9_]{0,31}$\<close>.\<close>

definition set_id_re :: re where
  "set_id_re =
     Seq Bos (Seq (Cls (\<lambda>c. is_upper c \<or> is_lower c))
       (Seq (upto_times 31 (Cls (\<lambda>c. is_upper c \<or> is_lower c \<or> is_digit c \<or> c = CHR ''_''))) Eos))"

subsection \<open>Set references\<close>

text \<open>The set ids named by the leaves of a filter. A leaf of these operators has one value.\<close>

definition set_reference_ids :: "filter_node option \<Rightarrow> string list" where
  "set_reference_ids g =
     (case g of None \<Rightarrow> []
      | Some n \<Rightarrow> map (\<lambda>l. py_str (hd (leaf_values l)))
          (filter (\<lambda>l. leaf_operator l \<in> {Op_in_set, Op_not_in_set}) (iter_filter_leaves n)))"

definition time_group_for :: "string \<Rightarrow> plan \<Rightarrow> (string \<times> granularity) option" where
  "time_group_for key p =
     (case on_plan q_period p of
        None \<Rightarrow> None
      | Some period \<Rightarrow>
          (case bp_granularity period of
             None \<Rightarrow> None
           | Some g \<Rightarrow> if bp_dimension period \<noteq> key then None else Some (key, g)))"

subsection \<open>The rules of derived sets\<close>

datatype shape_violation =
    Nested_sets | Inner_scalar | Not_the_key "string list" | Inner_bucket_set | Inner_details
  | Inner_granularity | Inner_compare | Time_group_complete | Time_group_measures | Complete_order
  | Complete_measures | Ranked_grain | Ranked_measures nat | Rank_limit | Ranked_order
  | Ranked_first string | Ranked_second string | Pick_order | Pick_rows_measures
  | Pick_rows_basis string | Pick_measures nat | Pick_basis string string

datatype set_violation =
    Too_many_sets nat | Ids_not_unique | Sets_in_having | Unknown_set string
  | Inner_unknown string string | Not_declared_before string string | Filters_by_time_group string string
  | Inner_having string | Time_group_filters string | Unreferenced string
  | Inner_shape string shape_violation

definition disallowed_inner_clauses :: "plan \<Rightarrow> bool \<Rightarrow> shape_violation list" where
  "disallowed_inner_clauses inner time_group =
     (if on_plan q_bucket_set inner \<noteq> None then [Inner_bucket_set] else []) @
     (if on_plan q_details inner \<noteq> [] then [Inner_details] else []) @
     (case on_plan q_period inner of
        Some period \<Rightarrow> if bp_granularity period \<noteq> None \<and> \<not> time_group then [Inner_granularity] else []
      | None \<Rightarrow> []) @
     (if on_plan q_compare_to inner \<noteq> None then [Inner_compare] else [])"

definition time_group_violations :: "set_mode \<Rightarrow> plan_grain \<Rightarrow> nat \<Rightarrow> shape_violation list" where
  "time_group_violations mode grain measure_count =
     (if mode = Complete_set then [Time_group_complete] else []) @
     (if grain \<noteq> Grouped \<or> measure_count \<noteq> 1 then [Time_group_measures] else [])"

definition complete_violations :: "plan \<Rightarrow> shape_violation list" where
  "complete_violations inner =
     (if on_plan q_order inner \<noteq> [] then [Complete_order] else []) @
     (if on_plan q_grain inner = Entity_rows \<and> on_plan q_measures inner \<noteq> [] then [Complete_measures] else [])"

definition ORDERED_SET_TIEBREAK_CLAUSES :: nat where "ORDERED_SET_TIEBREAK_CLAUSES = 2"

definition ranked_violations :: "derived_set \<Rightarrow> shape_violation list" where
  "ranked_violations item =
     (let inner = set_plan item; measures = on_plan q_measures inner; order = on_plan q_order inner;
          out = (if on_plan q_grain inner \<noteq> Grouped then [Ranked_grain] else []) @
            (if length measures \<noteq> 1 then [Ranked_measures (length measures)] else []) @
            (if on_plan q_limit inner < 1 \<or> 50 < on_plan q_limit inner then [Rank_limit] else [])
      in if length order \<noteq> ORDERED_SET_TIEBREAK_CLAUSES then out @ [Ranked_order]
         else
           (let measure = (case measures of [] \<Rightarrow> [] | m # _ \<Rightarrow> m) in
            out @
            (if oc_member (order ! 0) \<noteq> measure \<or> oc_direction (order ! 0) \<noteq> Desc
             then [Ranked_first measure] else []) @
            (if oc_member (order ! 1) \<noteq> set_key item \<or> oc_direction (order ! 1) \<noteq> Asc
             then [Ranked_second (set_key item)] else [])))"

text \<open>The order of a pick without the tiebreak, when the plan wrote it out.\<close>

definition pick_clauses :: "string \<Rightarrow> order_clause list \<Rightarrow> order_clause list" where
  "pick_clauses key clauses =
     (if length clauses = ORDERED_SET_TIEBREAK_CLAUSES \<and> oc_member (clauses ! 1) = key \<and>
         oc_direction (clauses ! 1) = Asc
      then take 1 clauses else clauses)"

definition pick_violations :: "derived_set \<Rightarrow> shape_violation list" where
  "pick_violations item =
     (let inner = set_plan item; measures = on_plan q_measures inner;
          clauses = pick_clauses (set_key item) (on_plan q_order inner)
      in if length clauses \<noteq> 1 then [Pick_order]
         else
           (let basis = oc_member (hd clauses) in
            if on_plan q_grain inner = Entity_rows then
              (if measures \<noteq> [] then [Pick_rows_measures] else []) @
              (if basis \<in> set measures then [Pick_rows_basis basis] else [])
            else if length measures \<noteq> 1 then [Pick_measures (length measures)]
            else if basis \<noteq> hd measures then [Pick_basis (hd measures) basis] else []))"

definition inner_shape_violations :: "derived_set \<Rightarrow> set_violation list" where
  "inner_shape_violations item =
     (let inner = set_plan item; group = time_group_for (set_key item) inner in
      map (Inner_shape (set_id item))
        ((if plan_sets inner \<noteq> [] then [Nested_sets] else []) @
         (if on_plan q_grain inner = Scalar then [Inner_scalar] else []) @
         (if on_plan q_dimensions inner \<noteq> [set_key item]
          then [Not_the_key (on_plan q_dimensions inner)] else []) @
         disallowed_inner_clauses inner (group \<noteq> None) @
         (if group \<noteq> None
          then time_group_violations (set_mode item) (on_plan q_grain inner) (length (on_plan q_measures inner))
          else []) @
         (case set_mode item of
            Complete_set \<Rightarrow> complete_violations inner
          | Ranked_set \<Rightarrow> ranked_violations item
          | Pick_set \<Rightarrow> pick_violations item)))"

text \<open>The position of a declared id, the last one when an id is declared twice.\<close>

definition set_position :: "derived_set list \<Rightarrow> string \<Rightarrow> nat option" where
  "set_position sets = map_of (rev (zip (map set_id sets) [0 ..< length sets]))"

definition reference_violations :: "derived_set list \<Rightarrow> nat \<Rightarrow> derived_set \<Rightarrow> string \<Rightarrow> set_violation list" where
  "reference_violations sets index item ref =
     (case set_position sets ref of
        None \<Rightarrow> [Inner_unknown (set_id item) ref]
      | Some k \<Rightarrow>
          if index \<le> k then [Not_declared_before (set_id item) ref]
          else if time_group_for (set_key (sets ! k)) (set_plan (sets ! k)) \<noteq> None
          then [Filters_by_time_group (set_id item) ref] else [])"

definition inner_reference_violations :: "derived_set list \<Rightarrow> nat \<Rightarrow> derived_set \<Rightarrow> set_violation list" where
  "inner_reference_violations sets index item =
     (let inner = set_plan item; refs = set_reference_ids (on_plan q_filters inner) in
      concat (map (reference_violations sets index item) refs) @
      (if set_reference_ids (on_plan q_having inner) \<noteq> [] then [Inner_having (set_id item)] else []) @
      (if refs \<noteq> [] \<and> time_group_for (set_key item) inner \<noteq> None
       then [Time_group_filters (set_id item)] else []))"

definition referenced_sets :: "plan \<Rightarrow> string set" where
  "referenced_sets p =
     (if plan_sets p \<noteq> [] then set (set_reference_ids (on_plan q_filters p)) else {}) \<union>
     (\<Union>item\<in>set (plan_sets p). set (set_reference_ids (on_plan q_filters (set_plan item))))"

definition derived_set_violations :: "plan \<Rightarrow> set_violation list" where
  "derived_set_violations p =
     (let sets = plan_sets p; declared = map set_id sets in
      (if MAX_DERIVED_SETS < length sets then [Too_many_sets (length sets)] else []) @
      (if \<not> distinct declared then [Ids_not_unique] else []) @
      (if set_reference_ids (on_plan q_having p) \<noteq> [] then [Sets_in_having] else []) @
      (if sets \<noteq> []
       then map Unknown_set (filter (\<lambda>ref. set_position sets ref = None)
              (set_reference_ids (on_plan q_filters p)))
       else []) @
      concat (map (\<lambda>(index, item). inner_reference_violations sets index item)
        (zip [0 ..< length sets] sets)) @
      map Unreferenced (filter (\<lambda>i. i \<notin> referenced_sets p) declared) @
      concat (map inner_shape_violations sets))"

subsection \<open>The validators of a plan\<close>

datatype plan_error =
    Scalar_shape | Grouped_without_measure | Grouped_without_dimension | Rows_with_measures
  | Compare_without_period | Compare_other_dimension | Compare_with_granularity
  | Compare_period_granularity | Compare_rows | Compare_measures | Broken_sets "set_violation list"
  | Raw_period_dimension | Raw_time_dimension string | Compare_all_time | All_time_shape
  | Anchor_not_projected | Limit_out_of_range | Bad_filter | Bad_period | Bad_set_id string

definition compare_violation :: "plan \<Rightarrow> plan_error option" where
  "compare_violation p =
     (case on_plan q_compare_to p of
        None \<Rightarrow> None
      | Some cmp \<Rightarrow>
          (case on_plan q_period p of
             None \<Rightarrow> Some Compare_without_period
           | Some period \<Rightarrow>
               (case (case cmp of
                        Against other \<Rightarrow>
                          if bp_dimension other \<noteq> bp_dimension period then Some Compare_other_dimension
                          else if bp_granularity other \<noteq> None then Some Compare_with_granularity else None
                      | Shift _ \<Rightarrow> None) of
                  Some e \<Rightarrow> Some e
                | None \<Rightarrow>
                    if bp_granularity period \<noteq> None then Some Compare_period_granularity
                    else if on_plan q_grain p = Entity_rows then Some Compare_rows
                    else if length (on_plan q_measures p) \<noteq> 1 then Some Compare_measures else None)))"

definition grain_shape :: "plan \<Rightarrow> plan_error option" where
  "grain_shape p =
     (let measures = on_plan q_measures p; grain = on_plan q_grain p;
          grouping = on_plan q_dimensions p \<noteq> [] \<or> truthy_str (on_plan q_bucket_set p)
      in if grain = Scalar \<and> (length measures \<noteq> 1 \<or> grouping) then Some Scalar_shape
         else if grain = Grouped \<and> measures = [] then Some Grouped_without_measure
         else if grain = Grouped \<and> \<not> grouping then Some Grouped_without_dimension
         else if grain = Entity_rows \<and> measures \<noteq> [] then Some Rows_with_measures
         else (case compare_violation p of
                 Some e \<Rightarrow> Some e
               | None \<Rightarrow>
                   if derived_set_violations p \<noteq> [] then Some (Broken_sets (derived_set_violations p))
                   else None))"

definition raw_time_dimension :: "string list \<Rightarrow> plan \<Rightarrow> string option" where
  "raw_time_dimension time_dimensions p =
     (if on_plan q_grain p \<noteq> Grouped then None
      else
        (let known = (case on_plan q_period p of
                        None \<Rightarrow> time_dimensions
                      | Some period \<Rightarrow> bp_dimension period # time_dimensions);
             bucketed = (case on_plan q_period p of
                        None \<Rightarrow> None
                      | Some period \<Rightarrow>
                          if bp_granularity period \<noteq> None then Some (bp_dimension period) else None)
         in List.find (\<lambda>m. m \<in> set known \<and> Some m \<noteq> bucketed) (on_plan q_dimensions p)))"

definition time_grouping :: "string list \<Rightarrow> plan \<Rightarrow> plan_error option" where
  "time_grouping time_dimensions p =
     (case raw_time_dimension time_dimensions p of
        None \<Rightarrow> None
      | Some member \<Rightarrow>
          if map_option bp_dimension (on_plan q_period p) = Some member then Some Raw_period_dimension
          else Some (Raw_time_dimension member))"

definition all_time_breakdown :: "plan \<Rightarrow> plan_error option" where
  "all_time_breakdown p =
     (if (case on_plan q_compare_to p of
            Some (Against other) \<Rightarrow> bp_relative other = Some All_time | _ \<Rightarrow> False)
      then Some Compare_all_time
      else
        (case on_plan q_period p of
           None \<Rightarrow> None
         | Some period \<Rightarrow>
             if bp_relative period \<noteq> Some All_time then None
             else if on_plan q_grain p = Grouped \<and> bp_granularity period \<noteq> None \<and>
                 bp_dimension period \<in> set (on_plan q_dimensions p) then None
             else Some All_time_shape))"

text \<open>\<open>member.split('.', 1)[0]\<close>.\<close>

definition resource_of :: "string \<Rightarrow> string" where
  "resource_of member = takeWhile (\<lambda>c. c \<noteq> CHR ''.'') member"

definition anchor_projected :: "plan \<Rightarrow> plan_error option" where
  "anchor_projected p =
     (case on_plan q_anchor p of
        None \<Rightarrow> None
      | Some a \<Rightarrow>
          if a \<notin> resource_of ` set (on_plan q_dimensions p @ on_plan q_measures p)
          then Some Anchor_not_projected else None)"

text \<open>The checks of the fields and of the filters, which run before the shape is looked at.\<close>

fun filter_fields_ok :: "filter_node \<Rightarrow> bool" where
  "filter_fields_ok (Leaf (Plan_filter f)) = filter_arity_ok f"
| "filter_fields_ok (Leaf (Attribute a)) = attribute_arity_ok a"
| "filter_fields_ok (Group a o') =
     ((\<forall>n\<in>set a. filter_fields_ok n) \<and> (\<forall>n\<in>set o'. filter_fields_ok n))"

definition group_ok :: "filter_node option \<Rightarrow> bool" where
  "group_ok g =
     (case g of None \<Rightarrow> True | Some (Leaf l) \<Rightarrow> False | Some (Group a o') \<Rightarrow> filter_fields_ok (Group a o'))"

definition field_error :: "plan \<Rightarrow> plan_error option" where
  "field_error p =
     (if on_plan q_limit p < MIN_PLAN_LIMIT \<or> MAX_PLAN_LIMIT < on_plan q_limit p then Some Limit_out_of_range
      else if \<not> group_ok (on_plan q_filters p) \<or> \<not> group_ok (on_plan q_having p) \<or>
        \<not> (\<forall>a\<in>set (on_plan q_attributes p). attribute_arity_ok a) then Some Bad_filter
      else if (case on_plan q_period p of Some period \<Rightarrow> \<not> wf_period period | None \<Rightarrow> False) \<or>
        (case on_plan q_compare_to p of Some (Against other) \<Rightarrow> \<not> wf_period other | _ \<Rightarrow> False) then Some Bad_period
      else None)"

fun first_error :: "plan_error option list \<Rightarrow> plan_error option" where
  "first_error [] = None"
| "first_error (Some e # es) = Some e"
| "first_error (None # es) = first_error es"

fun check_plan :: "string list \<Rightarrow> plan \<Rightarrow> plan_error option"
  and check_set :: "string list \<Rightarrow> derived_set \<Rightarrow> plan_error option" where
  "check_plan time_dimensions (Plan c sets) =
     first_error
       (field_error (Plan c sets) # map (check_set time_dimensions) sets @
        [grain_shape (Plan c sets), time_grouping time_dimensions (Plan c sets),
         all_time_breakdown (Plan c sets), anchor_projected (Plan c sets)])"
| "check_set time_dimensions (Derived_set i mode key p) =
     (if \<not> re_match set_id_re i then Some (Bad_set_id i) else check_plan time_dimensions p)"

definition valid_plan :: "string list \<Rightarrow> plan \<Rightarrow> bool" where
  "valid_plan time_dimensions p \<longleftrightarrow> check_plan time_dimensions p = None"

subsection \<open>The members a plan names\<close>

definition filter_members :: "filter_node option \<Rightarrow> string set" where
  "filter_members g = (case g of None \<Rightarrow> {} | Some n \<Rightarrow> collect_filter_members n)"

definition local_plan_member_names :: "plan \<Rightarrow> string set" where
  "local_plan_member_names p =
     set (on_plan q_measures p) \<union> set (on_plan q_dimensions p) \<union> set_option (on_plan q_bucket_set p) \<union>
     filter_members (on_plan q_filters p) \<union> filter_members (on_plan q_having p) \<union>
     at_family ` set (on_plan q_attributes p) \<union> dt_family ` set (on_plan q_details p) \<union>
     bp_dimension ` set_option (on_plan q_period p) \<union> oc_member ` set (on_plan q_order p)"

fun plan_member_names :: "plan \<Rightarrow> string set" and set_member_names :: "derived_set \<Rightarrow> string set" where
  "plan_member_names (Plan c sets) =
     local_plan_member_names (Plan c sets) \<union> (\<Union>d\<in>set sets. set_member_names d)"
| "set_member_names (Derived_set i mode key p) = plan_member_names p"

subsection \<open>Lemmas\<close>

lemma first_error_None [simp]: "first_error es = None \<longleftrightarrow> (\<forall>e\<in>set es. e = None)"
  by (induction es rule: first_error.induct) auto

lemma valid_planD:
  assumes "valid_plan ts p"
  shows "field_error p = None" "grain_shape p = None" "time_grouping ts p = None"
    "all_time_breakdown p = None" "anchor_projected p = None"
    "d \<in> set (plan_sets p) \<Longrightarrow> check_set ts d = None"
  using assms by (cases p; auto simp: valid_plan_def)+

lemma valid_plan_set: "valid_plan ts p \<Longrightarrow> d \<in> set (plan_sets p) \<Longrightarrow> valid_plan ts (set_plan d)"
  using valid_planD(6) [of ts p d] by (cases d) (auto simp: valid_plan_def split: if_splits)

subsection \<open>What a valid plan promises\<close>

lemma zip_positions:
  "zip (map set_id sets) [0 ..< length sets] = map (\<lambda>i. (set_id (sets ! i), i)) [0 ..< length sets]"
  by (rule nth_equalityI) simp_all

lemma set_position_distinct:
  assumes "distinct (map set_id sets)"
  shows "set_position sets r = Some k \<longleftrightarrow> k < length sets \<and> set_id (sets ! k) = r"
proof -
  have "distinct (map fst (rev (zip (map set_id sets) [0 ..< length sets])))"
    using assms by (simp add: rev_map [symmetric])
  then have "set_position sets r = Some k \<longleftrightarrow> (r, k) \<in> set (zip (map set_id sets) [0 ..< length sets])"
    unfolding set_position_def by (subst map_of_eq_Some_iff) simp_all
  then show ?thesis unfolding zip_positions by auto
qed

lemma set_position_None: "set_position sets r = None \<longleftrightarrow> r \<notin> set_id ` set sets"
  unfolding set_position_def map_of_eq_None_iff set_rev zip_positions
  by (force simp: in_set_conv_nth)

lemma sets_accepted:
  assumes "grain_shape p = None"
  shows "derived_set_violations p = []"
  using assms by (auto simp: grain_shape_def Let_def split: if_splits option.splits)

text \<open>The filter references of one declared set.\<close>

abbreviation set_refs :: "derived_set \<Rightarrow> string list" where
  "set_refs d \<equiv> set_reference_ids (on_plan q_filters (set_plan d))"

lemma accepted_sets:
  assumes "derived_set_violations p = []"
  shows "length (plan_sets p) \<le> MAX_DERIVED_SETS"
    and "distinct (map set_id (plan_sets p))"
    and "plan_sets p \<noteq> [] \<Longrightarrow> r \<in> set (set_reference_ids (on_plan q_filters p)) \<Longrightarrow> r \<in> set_id ` set (plan_sets p)"
    and "i < length (plan_sets p) \<Longrightarrow> inner_reference_violations (plan_sets p) i (plan_sets p ! i) = []"
    and "d \<in> set (plan_sets p) \<Longrightarrow> set_id d \<in> referenced_sets p"
    and "d \<in> set (plan_sets p) \<Longrightarrow> inner_shape_violations d = []"
proof -
  show "length (plan_sets p) \<le> MAX_DERIVED_SETS"
    using assms by (auto simp: derived_set_violations_def Let_def split: if_splits)
  show "distinct (map set_id (plan_sets p))"
    using assms by (auto simp: derived_set_violations_def Let_def split: if_splits)
  show "r \<in> set_id ` set (plan_sets p)"
    if "plan_sets p \<noteq> []" "r \<in> set (set_reference_ids (on_plan q_filters p))"
    using assms that by (auto simp: derived_set_violations_def Let_def filter_empty_conv set_position_None split: if_splits)
  show "inner_reference_violations (plan_sets p) i (plan_sets p ! i) = []" if "i < length (plan_sets p)"
  proof -
    have "(i, plan_sets p ! i) \<in> set (zip [0 ..< length (plan_sets p)] (plan_sets p))"
      using that by (force simp: in_set_zip)
    then show ?thesis using assms by (auto simp: derived_set_violations_def Let_def)
  qed
  show "set_id d \<in> referenced_sets p" if "d \<in> set (plan_sets p)"
    using assms that by (auto simp: derived_set_violations_def Let_def filter_empty_conv)
  show "inner_shape_violations d = []" if "d \<in> set (plan_sets p)"
    using assms that by (auto simp: derived_set_violations_def Let_def)
qed

lemma references_earlier:
  assumes "derived_set_violations p = []" and "i < length (plan_sets p)" and "r \<in> set (set_refs (plan_sets p ! i))"
  shows "\<exists>k < i. set_id (plan_sets p ! k) = r"
proof -
  have "reference_violations (plan_sets p) i (plan_sets p ! i) r = []"
    using accepted_sets(4) [OF assms(1,2)] assms(3)
    by (auto simp: inner_reference_violations_def Let_def)
  then obtain k where "set_position (plan_sets p) r = Some k" "k < i"
    by (auto simp: reference_violations_def split: option.splits if_splits)
  then show ?thesis
    unfolding set_position_distinct [OF accepted_sets(2) [OF assms(1)]] by blast
qed

text \<open>The sets the answer plan depends on.\<close>

inductive contributes :: "plan \<Rightarrow> string \<Rightarrow> bool" for p where
  direct: "r \<in> set (set_reference_ids (on_plan q_filters p)) \<Longrightarrow> contributes p r"
| chained: "contributes p (set_id d) \<Longrightarrow> d \<in> set (plan_sets p) \<Longrightarrow> r \<in> set (set_refs d) \<Longrightarrow> contributes p r"

lemma contributes_from:
  assumes ok: "derived_set_violations p = []"
  shows "i < length (plan_sets p) \<Longrightarrow> contributes p (set_id (plan_sets p ! i))"
proof (induction "length (plan_sets p) - i" arbitrary: i rule: less_induct)
  case less
  let ?d = "plan_sets p ! i"
  have "set_id ?d \<in> referenced_sets p" using accepted_sets(5) [OF ok, of ?d] less.prems by simp
  then consider "set_id ?d \<in> set (set_reference_ids (on_plan q_filters p))"
    | e where "e \<in> set (plan_sets p)" "set_id ?d \<in> set (set_refs e)"
    by (auto simp: referenced_sets_def split: if_splits)
  then show ?case
  proof cases
    case 1
    then show ?thesis by (rule contributes.direct)
  next
    case 2
    then obtain j where j: "j < length (plan_sets p)" "plan_sets p ! j = e" by (auto simp: in_set_conv_nth)
    obtain k where k: "k < j" "set_id (plan_sets p ! k) = set_id ?d"
      using references_earlier [OF ok j(1)] 2(2) j(2) by auto
    have "k = i"
      using nth_eq_iff_index_eq [OF accepted_sets(2) [OF ok], of k i] k j(1) less.prems by simp
    then have "i < j" using k(1) by simp
    then have "contributes p (set_id e)" using less.hyps [of j] j by simp
    then show ?thesis using 2 by (rule contributes.chained)
  qed
qed

text \<open>
  C24. The derived sets of a valid plan can be compiled one after the other: the filter of a set names
  only sets declared before it, no set contains another, ids are not declared twice, and no declared
  set is idle: the answer plan depends on each one, directly or through later sets.
\<close>

theorem valid_sets_resolve:
  assumes "valid_plan ts p" and "i < length (plan_sets p)"
  shows "set (set_refs (plan_sets p ! i)) \<subseteq> set_id ` set (take i (plan_sets p)) \<and>
    plan_sets (set_plan (plan_sets p ! i)) = [] \<and> contributes p (set_id (plan_sets p ! i)) \<and>
    set_id (plan_sets p ! i) \<notin> set_id ` set (take i (plan_sets p))"
proof -
  have ok: "derived_set_violations p = []" by (rule sets_accepted [OF valid_planD(2) [OF assms(1)]])
  have "set (set_refs (plan_sets p ! i)) \<subseteq> set_id ` set (take i (plan_sets p))"
  proof
    fix r assume "r \<in> set (set_refs (plan_sets p ! i))"
    then obtain k where k: "k < i" "set_id (plan_sets p ! k) = r"
      using references_earlier [OF ok assms(2)] by blast
    then have "plan_sets p ! k \<in> set (take i (plan_sets p))"
      using assms(2) by (auto simp: in_set_conv_nth intro!: exI [of _ k])
    then show "r \<in> set_id ` set (take i (plan_sets p))" using k(2) by blast
  qed
  moreover have "plan_sets (set_plan (plan_sets p ! i)) = []"
    using accepted_sets(6) [OF ok, of "plan_sets p ! i"] assms(2)
    by (auto simp: inner_shape_violations_def Let_def split: if_splits)
  moreover have "contributes p (set_id (plan_sets p ! i))" by (rule contributes_from [OF ok assms(2)])
  moreover have "set_id (plan_sets p ! i) \<notin> set_id ` set (take i (plan_sets p))"
  proof
    assume "set_id (plan_sets p ! i) \<in> set_id ` set (take i (plan_sets p))"
    then obtain k where "k < i" "set_id (plan_sets p ! i) = set_id (plan_sets p ! k)"
      by (auto simp: in_set_conv_nth)
    then show False
      using nth_eq_iff_index_eq [OF accepted_sets(2) [OF ok], of i k] assms(2) by simp
  qed
ultimately show ?thesis by blast
qed

definition blank_clauses :: "plan_grain \<Rightarrow> string list \<Rightarrow> string list \<Rightarrow> clauses" where
  "blank_clauses grain ms ds =
     \<lparr>q_measures = ms, q_dimensions = ds, q_bucket_set = None, q_anchor = None, q_filters = None,
      q_having = None, q_period = None, q_compare_to = None, q_grain = grain, q_order = [], q_attributes = [],
      q_details = [], q_limit = 20\<rparr>"

definition in_set_filter :: "string \<Rightarrow> string \<Rightarrow> filter_node option" where
  "in_set_filter member i =
     Some (Group [Leaf (Plan_filter \<lparr>pf_member = member, pf_operator = Op_in_set, pf_values = [S_str i]\<rparr>)] [])"

text \<open>The jobs of the customers invoiced: two chained sets.\<close>

definition chained_plan :: plan where
  "chained_plan =
     Plan ((blank_clauses Grouped [''units''] [''product.name''])\<lparr>q_filters := in_set_filter ''item.job_id'' ''jobs''\<rparr>)
       [Derived_set ''invoiced'' Complete_set ''invoice.customer_id''
          (Plan (blank_clauses Entity_rows [] [''invoice.customer_id'']) []),
        Derived_set ''jobs'' Complete_set ''job.id''
          (Plan ((blank_clauses Entity_rows [] [''job.id''])\<lparr>q_filters := in_set_filter ''job.customer_id'' ''invoiced''\<rparr>) [])]"

lemma valid_sets_resolve_witness:
  "contributes chained_plan ''invoiced'' \<and> plan_sets (set_plan (plan_sets chained_plan ! 0)) = []"
proof -
  have "valid_plan [''invoice.created_at''] chained_plan" by code_simp
  moreover have "0 < length (plan_sets chained_plan)" "set_id (plan_sets chained_plan ! 0) = ''invoiced''"
    by (simp_all add: chained_plan_def)
  ultimately show ?thesis using valid_sets_resolve [of "[''invoice.created_at'']" chained_plan 0] by simp
qed

lemma compare_accepted:
  assumes "grain_shape p = None" and "on_plan q_compare_to p = Some cmp"
  obtains period where "on_plan q_period p = Some period" "bp_granularity period = None"
    "on_plan q_grain p \<noteq> Entity_rows" "length (on_plan q_measures p) = 1"
  using assms by (auto simp: grain_shape_def compare_violation_def Let_def split: if_splits option.splits)

lemma calendar_not_refused [simp]:
  "shift_days n d \<noteq> Inl (Refused c x)" "new_date y m k \<noteq> Inl (Refused c x)"
  by (auto simp: shift_days_def new_date_def split: option.splits)

lemma relative_not_refused: "rel \<noteq> All_time \<Longrightarrow> relative_half_open rel today \<noteq> Inl (Refused c x)"
  by (cases rel) (auto simp: relative_half_open_def Let_def rbind_eq_Inl)

lemma period_refused:
  assumes "wf_period period" and "bp_relative period \<noteq> Some All_time"
    and "(case business_date of Some d \<Rightarrow> Inr d | None \<Rightarrow> clock) = Inr today"
    and "period_bounds period clock business_date = Inl (Refused code site)"
  shows "code = ''grain_unexpressible''"
  using assms relative_not_refused
  by (auto simp: period_bounds_def wf_period_def set_count_def rbind_eq_Inl split: option.splits if_splits prod.splits)

lemma shift_refused: "shift_period period b sh = Inl (Refused code site) \<Longrightarrow> code = ''grain_unexpressible''"
  by (auto simp: shift_period_def non_empty_def shift_months_def Let_def rbind_eq_Inl
      split: option.splits if_splits prod.splits step.splits)

lemma valid_period:
  assumes "valid_plan ts p" and "on_plan q_period p = Some period"
  shows "wf_period period" and "bp_relative period = Some All_time \<Longrightarrow>
      on_plan q_grain p = Grouped \<and> bp_granularity period \<noteq> None \<and> on_plan q_compare_to p = None"
proof -
  show "wf_period period"
    using valid_planD(1) [OF assms(1)] assms(2) by (auto simp: field_error_def split: if_splits)
  assume all: "bp_relative period = Some All_time"
  have "on_plan q_grain p = Grouped \<and> bp_granularity period \<noteq> None"
    using valid_planD(4) [OF assms(1)] assms(2) all by (auto simp: all_time_breakdown_def split: if_splits)
  moreover have "on_plan q_compare_to p = None"
    using compare_accepted [OF valid_planD(2) [OF assms(1)]] assms(2) calculation
    by (metis not_None_eq option.inject)
  ultimately show "on_plan q_grain p = Grouped \<and> bp_granularity period \<noteq> None \<and> on_plan q_compare_to p = None"
    by blast
qed

lemma valid_compared_period:
  assumes "valid_plan ts p" and "on_plan q_compare_to p = Some (Against other)"
  shows "wf_period other \<and> bp_relative other \<noteq> Some All_time"
  using valid_planD(1,4) [OF assms(1)] assms(2)
  by (auto simp: field_error_def all_time_breakdown_def split: if_splits)


definition compared_plan :: plan where
  "compared_plan =
     Plan ((blank_clauses Scalar [''revenue''] [])
       \<lparr>q_period := Some (explicit_period (Date 1 1 5) (Date 1 1 9)),
        q_compare_to := Some (Shift Previous_period)\<rparr>) []"


lemma valid_all_time:
  assumes "valid_plan ts p" and "on_plan q_period p = Some period"
  shows "time_filter_bounds period clock business_date = Inr None \<longleftrightarrow> bp_relative period = Some All_time"
    and "bp_relative period = Some All_time \<Longrightarrow> on_plan q_grain p = Grouped \<and> bp_granularity period \<noteq> None"
  using valid_period(2) [OF assms] by (auto simp: time_filter_bounds_def)

text \<open>
  A valid grouped plan never groups by raw timestamps: each time member among its dimensions is the
  time dimension of its period, and the period names the granularity to group it by.
\<close>

theorem valid_time_groups:
  assumes "valid_plan ts p" and "on_plan q_grain p = Grouped" and "m \<in> set (on_plan q_dimensions p)"
    and "m \<in> set ts \<or> (\<exists>period. on_plan q_period p = Some period \<and> bp_dimension period = m)"
  shows "\<exists>period g. on_plan q_period p = Some period \<and> bp_dimension period = m \<and> bp_granularity period = Some g"
proof -
  have "raw_time_dimension ts p = None"
    using valid_planD(3) [OF assms(1)] by (auto simp: time_grouping_def split: option.splits if_splits)
  then show ?thesis
    using assms(2-4) by (auto simp: raw_time_dimension_def Let_def find_None_iff split: option.splits if_splits)
qed

definition monthly_plan :: plan where
  "monthly_plan =
     Plan ((blank_clauses Grouped [''revenue''] [''invoice.created_at''])
       \<lparr>q_period := Some ((explicit_period (Date 2024 1 1) (Date 2024 6 30))
          \<lparr>bp_dimension := ''invoice.created_at'', bp_granularity := Some Month\<rparr>)\<rparr>) []"

lemma valid_time_groups_witness:
  "\<exists>period g. on_plan q_period monthly_plan = Some period \<and> bp_dimension period = ''invoice.created_at'' \<and>
     bp_granularity period = Some g"
proof -
  have "valid_plan [''invoice.created_at''] monthly_plan" by code_simp
  then show ?thesis
    by (rule valid_time_groups) (simp_all add: monthly_plan_def blank_clauses_def)
qed

text \<open>The pattern of set ids ends with \<open>$\<close>, which also matches before a newline at the end.\<close>

lemma set_id_newline: "re_match set_id_re (''top'' @ [char_of (10 :: nat)])"
  by code_simp

end
