(* ===== verification/Keyset.thy ===== *)
theory Keyset
  imports Query_Plan "HOL-Library.List_Lexorder" "HOL-Library.Char_ord" "HOL-Library.Option_ord"
begin

text \<open>
  Keyset pagination (app/business_query/compile/pagination/keyset.py): how a plan is turned into the
  plan of a page after a given position, and what the rows of that page are. The meaning of a filter
  on a row is that of the compiled clause (operator_clause in compile/detail_predicates.py): a
  comparison with NULL is not true.
\<close>

subsection \<open>The bundle\<close>

text \<open>What the pagination reads of a bundle; whether a measure is a share is a parameter.\<close>

record dimension_def =
  dd_name :: string
  dd_resource :: string
  dd_primary_key :: bool

definition plan_is_pageable :: "(string \<Rightarrow> bool) \<Rightarrow> plan \<Rightarrow> bool" where
  "plan_is_pageable is_share p \<longleftrightarrow>
     on_plan q_compare_to p = None \<and> \<not> (\<exists>m\<in>set (on_plan q_measures p). is_share m)"

definition find_primary_key :: "dimension_def list \<Rightarrow> string \<Rightarrow> string option" where
  "find_primary_key bundle resource =
     map_option dd_name (List.find (\<lambda>d. dd_resource d = resource \<and> dd_primary_key d) bundle)"

type_synonym position = "(string, scalar option) dict"

subsection \<open>The position of a page\<close>

definition position_members :: "plan \<Rightarrow> string list" where
  "position_members p =
     (let members = map oc_member (on_plan q_order p) in
      members @ filter (\<lambda>dim. dim \<notin> set members) (on_plan q_dimensions p))"

text \<open>The dict comprehension over the members that the last row has.\<close>

definition keyset_position_for_answered :: "plan option \<Rightarrow> position list \<Rightarrow> position" where
  "keyset_position_for_answered p rows =
     (case p of
        None \<Rightarrow> []
      | Some p \<Rightarrow>
          if rows = [] then []
          else
            (let last_row = last rows in
             fold (\<lambda>m pos. case dict_get last_row m of None \<Rightarrow> pos | Some v \<Rightarrow> dict_set pos m v)
               (position_members p) []))"

subsection \<open>The order of the pages\<close>

text \<open>One owning resource in turn: its primary key joins the dimensions and the order.\<close>

definition add_primary_key ::
    "dimension_def list \<Rightarrow> string \<Rightarrow> string list \<times> order_clause list \<Rightarrow> string list \<times> order_clause list" where
  "add_primary_key bundle resource s =
     (case s of (dims, items) \<Rightarrow>
        case find_primary_key bundle resource of
          None \<Rightarrow> (dims, items)
        | Some pk \<Rightarrow>
            (if pk = [] then (dims, items)
             else
               (if pk \<notin> set dims then dims @ [pk] else dims,
                if pk \<notin> oc_member ` set items then items @ [\<lparr>oc_member = pk, oc_direction = Asc\<rparr>] else items)))"

text \<open>The anchor first, then by name.\<close>

definition owning_resources :: "dimension_def list \<Rightarrow> plan \<Rightarrow> string list" where
  "owning_resources bundle p =
     (let rs = sort (remdups (map dd_resource (filter (\<lambda>d. dd_name d \<in> set (on_plan q_dimensions p)) bundle))) in
      filter (\<lambda>r. Some r = on_plan q_anchor p) rs @ filter (\<lambda>r. Some r \<noteq> on_plan q_anchor p) rs)"

definition ascending :: "string \<Rightarrow> order_clause" where
  "ascending m = \<lparr>oc_member = m, oc_direction = Asc\<rparr>"

text \<open>The dimensions and the order of every page of a plan of rows or groups.\<close>

definition keyset_order :: "dimension_def list \<Rightarrow> plan \<Rightarrow> string list \<times> order_clause list" where
  "keyset_order bundle p =
     (let dims = on_plan q_dimensions p; order = on_plan q_order p in
      if on_plan q_grain p = Entity_rows then
        (case fold (add_primary_key bundle) (owning_resources bundle p) (dims, order) of
           (dims1, items) \<Rightarrow> (dims1, if items = [] \<and> dims1 \<noteq> [] then [ascending (hd dims1)] else items))
      else
        (dims,
         if order \<noteq> [] then order
         else map ascending dims @
           (case on_plan q_bucket_set p of
              None \<Rightarrow> []
            | Some b \<Rightarrow> if b \<noteq> [] \<and> b \<notin> set dims then [ascending b] else [])))"

subsection \<open>The filter of a page\<close>

definition active_keyset :: "order_clause list \<Rightarrow> position \<Rightarrow> (order_clause \<times> scalar) list" where
  "active_keyset items pos =
     concat (map (\<lambda>c. case dict_get pos (oc_member c) of Some (Some v) \<Rightarrow> [(c, v)] | _ \<Rightarrow> []) items)"

definition beyond :: "order_clause \<times> scalar \<Rightarrow> filter_node" where
  "beyond cv =
     Leaf (Plan_filter \<lparr>pf_member = oc_member (fst cv),
       pf_operator = (if oc_direction (fst cv) = Asc then Op_gt else Op_lt), pf_values = [snd cv]\<rparr>)"

definition same_value :: "order_clause \<times> scalar \<Rightarrow> filter_node" where
  "same_value cv =
     Leaf (Plan_filter \<lparr>pf_member = oc_member (fst cv), pf_operator = Op_eq, pf_values = [snd cv]\<rparr>)"

definition keyset_branch :: "(order_clause \<times> scalar) list \<Rightarrow> nat \<Rightarrow> filter_node" where
  "keyset_branch active i =
     (if i = 0 then beyond (active ! i)
      else Group (map same_value (take i active) @ [beyond (active ! i)]) [])"

definition keyset_filter :: "(order_clause \<times> scalar) list \<Rightarrow> filter_node" where
  "keyset_filter active =
     (if length active = 1 then beyond (hd active)
      else Group [] (map (keyset_branch active) [0 ..< length active]))"

definition apply_keyset_to_plan ::
    "(string \<Rightarrow> bool) \<Rightarrow> dimension_def list \<Rightarrow> plan \<Rightarrow> position \<Rightarrow> int \<Rightarrow> string \<times> string + plan" where
  "apply_keyset_to_plan is_share bundle p pos page_size =
     (if \<not> plan_is_pageable is_share p then Inl (''grain_unexpressible'', ''unpageable_plan'')
      else
        (let c = plan_clauses p in
         if q_grain c = Scalar then Inr (Plan (c\<lparr>q_limit := page_size\<rparr>) (plan_sets p))
         else
           (case keyset_order bundle p of (dims, items) \<Rightarrow>
              let paged = c\<lparr>q_dimensions := dims, q_order := items, q_limit := page_size\<rparr>;
                  active = active_keyset items pos
              in if pos = [] \<or> active = [] then Inr (Plan paged (plan_sets p))
                 else
                   Inr (Plan (paged\<lparr>q_filters :=
                       Some (case q_filters c of
                               Some f \<Rightarrow> Group [f, keyset_filter active] []
                             | None \<Rightarrow> Group [keyset_filter active] [])\<rparr>) (plan_sets p)))))"

subsection \<open>What the database answers\<close>

text \<open>A column value as the database compares it: by its collation key, NULL apart. \<open>like\<close> is the
  substring test of the database.\<close>

fun operator_true ::
    "(scalar \<Rightarrow> 'o :: linorder) \<Rightarrow> (scalar \<Rightarrow> string \<Rightarrow> bool) \<Rightarrow> filter_operator \<Rightarrow> scalar list \<Rightarrow> scalar option \<Rightarrow> bool" where
  "operator_true rank like Op_eq vs x = (\<exists>y\<in>set_option x. \<exists>v\<in>set vs. rank y = rank v)"
| "operator_true rank like Op_neq vs x = (\<exists>y\<in>set_option x. \<forall>v\<in>set vs. rank y \<noteq> rank v)"
| "operator_true rank like Op_in vs x = (\<exists>y\<in>set_option x. \<exists>v\<in>set vs. rank y = rank v)"
| "operator_true rank like Op_not_in vs x = (\<exists>y\<in>set_option x. \<forall>v\<in>set vs. rank y \<noteq> rank v)"
| "operator_true rank like Op_gt vs x = (\<exists>y\<in>set_option x. rank (hd vs) < rank y)"
| "operator_true rank like Op_gte vs x = (\<exists>y\<in>set_option x. rank (hd vs) \<le> rank y)"
| "operator_true rank like Op_lt vs x = (\<exists>y\<in>set_option x. rank y < rank (hd vs))"
| "operator_true rank like Op_lte vs x = (\<exists>y\<in>set_option x. rank y \<le> rank (hd vs))"
| "operator_true rank like Op_is_null vs x = (x = None)"
| "operator_true rank like Op_not_null vs x = (x \<noteq> None)"
| "operator_true rank like Op_contains vs x = (\<exists>y\<in>set_option x. like y (py_str (hd vs)))"
| "operator_true rank like Op_in_set vs x = False"
| "operator_true rank like Op_not_in_set vs x = False"

text \<open>A row is the dict of its columns. Memberships and attribute predicates are subqueries: \<open>other\<close>
  says which of them are true of a row.\<close>

type_synonym row = "(string, scalar option) dict"

definition column :: "row \<Rightarrow> string \<Rightarrow> scalar option" where
  "column r m = (case dict_get r m of Some v \<Rightarrow> v | None \<Rightarrow> None)"

fun leaf_true ::
    "(scalar \<Rightarrow> 'o :: linorder) \<Rightarrow> (scalar \<Rightarrow> string \<Rightarrow> bool) \<Rightarrow> (row \<Rightarrow> filter_leaf \<Rightarrow> bool) \<Rightarrow> row \<Rightarrow> filter_leaf \<Rightarrow> bool" where
  "leaf_true rank like other r (Plan_filter f) =
     (if pf_operator f \<in> {Op_in_set, Op_not_in_set} then other r (Plan_filter f)
      else operator_true rank like (pf_operator f) (pf_values f) (column r (pf_member f)))"
| "leaf_true rank like other r (Attribute a) = other r (Attribute a)"

text \<open>The order the database returns rows in: clause by clause, NULL before all values.\<close>

fun precedes :: "(scalar \<Rightarrow> 'o :: linorder) \<Rightarrow> order_clause list \<Rightarrow> row \<Rightarrow> row \<Rightarrow> bool" where
  "precedes rank [] r s \<longleftrightarrow> False"
| "precedes rank (c # cs) r s \<longleftrightarrow>
     (let x = map_option rank (column r (oc_member c)); y = map_option rank (column s (oc_member c)) in
      if x = y then precedes rank cs r s else if oc_direction c = Asc then x < y else y < x)"

text \<open>A filter of rows may not name a measure: compile_filter_group refuses it
  (\<open>measure_filter_disallowed\<close>).\<close>

definition filters_compile :: "(string \<Rightarrow> bool) \<Rightarrow> plan \<Rightarrow> bool" where
  "filters_compile names_measure p \<longleftrightarrow>
     (case on_plan q_filters p of None \<Rightarrow> True
      | Some g \<Rightarrow> (\<forall>l\<in>set (iter_filter_leaves g). case l of Plan_filter f \<Rightarrow> \<not> names_measure (pf_member f) | Attribute a \<Rightarrow> True))"

text \<open>The answer of a plan over the ordered rows of its relation, and the pages read one after the
  other, each from the last row of the one before.\<close>

definition plan_answer ::
    "(scalar \<Rightarrow> 'o :: linorder) \<Rightarrow> (scalar \<Rightarrow> string \<Rightarrow> bool) \<Rightarrow> (row \<Rightarrow> filter_leaf \<Rightarrow> bool) \<Rightarrow> row list \<Rightarrow> plan \<Rightarrow> row list" where
  "plan_answer rank like other rows p =
     filter (\<lambda>r. case on_plan q_filters p of None \<Rightarrow> True | Some g \<Rightarrow> holds (leaf_true rank like other r) g) rows"

definition page_of :: "(string \<Rightarrow> bool) \<Rightarrow> (plan \<Rightarrow> row list) \<Rightarrow> plan \<Rightarrow> row list" where
  "page_of names_measure answer p1 =
     (if filters_compile names_measure p1 then take (nat (on_plan q_limit p1)) (answer p1) else [])"

fun read_pages ::
    "nat \<Rightarrow> (string \<Rightarrow> bool) \<Rightarrow> (plan \<Rightarrow> row list) \<Rightarrow> (string \<Rightarrow> bool) \<Rightarrow> dimension_def list \<Rightarrow> plan \<Rightarrow> int \<Rightarrow> position \<Rightarrow> row list" where
  "read_pages 0 names_measure answer is_share bundle p page_size pos = []"
| "read_pages (Suc n) names_measure answer is_share bundle p page_size pos =
     (case apply_keyset_to_plan is_share bundle p pos page_size of
        Inl _ \<Rightarrow> []
      | Inr p1 \<Rightarrow>
          let page = page_of names_measure answer p1 in
          if page = [] then []
          else page @ read_pages n names_measure answer is_share bundle p page_size
                 (keyset_position_for_answered (Some p1) page))"

subsection \<open>The filter of a page is its order\<close>

lemma precedes_iff:
  "precedes rank cs r s \<longleftrightarrow>
     (\<exists>i < length cs. (\<forall>j < i. map_option rank (column r (oc_member (cs ! j))) = map_option rank (column s (oc_member (cs ! j)))) \<and>
       (let x = map_option rank (column r (oc_member (cs ! i))); y = map_option rank (column s (oc_member (cs ! i))) in
        if oc_direction (cs ! i) = Asc then x < y else y < x))"
proof (induction cs)
  case Nil
  then show ?case by simp
next
  case (Cons c cs)
  show ?case
    by (cases "map_option rank (column r (oc_member c)) = map_option rank (column s (oc_member c))")
      (auto simp: Cons.IH Let_def Ex_less_Suc2 All_less_Suc2)
qed

lemma precedes_asym: "precedes rank cs r s \<Longrightarrow> \<not> precedes rank cs s r"
  by (induction cs) (auto simp: Let_def split: if_splits)

lemma precedes_irrefl: "\<not> precedes rank cs r r"
  using precedes_asym by blast

text \<open>No member of the order is NULL in a row.\<close>

definition no_nulls :: "order_clause list \<Rightarrow> row \<Rightarrow> bool" where
  "no_nulls items r \<longleftrightarrow> (\<forall>c\<in>set items. column r (oc_member c) \<noteq> None)"

definition row_values :: "order_clause list \<Rightarrow> row \<Rightarrow> (order_clause \<times> scalar) list" where
  "row_values items r = map (\<lambda>c. (c, the (column r (oc_member c)))) items"

lemma beyond_holds:
  assumes "column r (oc_member c) \<noteq> None" and "column s (oc_member c) = Some v"
  shows "holds (leaf_true rank like other r) (beyond (c, v)) \<longleftrightarrow>
    (let x = map_option rank (column s (oc_member c)); y = map_option rank (column r (oc_member c)) in
        if oc_direction c = Asc then x < y else y < x)"
  using assms by (auto simp: beyond_def)

lemma same_value_holds:
  assumes "column r (oc_member c) \<noteq> None" and "column s (oc_member c) = Some v"
  shows "holds (leaf_true rank like other r) (same_value (c, v)) \<longleftrightarrow>
    map_option rank (column s (oc_member c)) = map_option rank (column r (oc_member c))"
  using assms by (auto simp: same_value_def)

lemma keyset_branch_holds:
  assumes "no_nulls items r" and "no_nulls items s" and "i < length items"
  shows "holds (leaf_true rank like other r) (keyset_branch (row_values items s) i) \<longleftrightarrow>
    (\<forall>j < i. map_option rank (column s (oc_member (items ! j))) = map_option rank (column r (oc_member (items ! j)))) \<and>
       (let x = map_option rank (column s (oc_member (items ! i))); y = map_option rank (column r (oc_member (items ! i))) in
        if oc_direction (items ! i) = Asc then x < y else y < x)"
proof -
  have null: "column r (oc_member (items ! j)) \<noteq> None"
    "column s (oc_member (items ! j)) = Some (the (column s (oc_member (items ! j))))" if "j \<le> i" for j
    using assms that by (auto simp: no_nulls_def)
  have nth: "row_values items s ! j = (items ! j, the (column s (oc_member (items ! j))))" if "j \<le> i" for j
    using assms(3) that by (simp add: row_values_def)
  have same: "holds (leaf_true rank like other r) (same_value (row_values items s ! j)) \<longleftrightarrow>
      map_option rank (column s (oc_member (items ! j))) = map_option rank (column r (oc_member (items ! j)))"
    if "j < i" for j
    using that nth [of j] same_value_holds [OF null(1) [of j] null(2) [of j]] by simp
  have "holds (leaf_true rank like other r) (keyset_branch (row_values items s) i) \<longleftrightarrow>
      (\<forall>n\<in>set (map same_value (take i (row_values items s))). holds (leaf_true rank like other r) n) \<and>
      holds (leaf_true rank like other r) (beyond (row_values items s ! i))"
    by (auto simp: keyset_branch_def holds_Group)
  also have "(\<forall>n\<in>set (map same_value (take i (row_values items s))). holds (leaf_true rank like other r) n) \<longleftrightarrow>
      (\<forall>j < i. holds (leaf_true rank like other r) (same_value (row_values items s ! j)))"
    using assms(3) by (auto simp: all_set_conv_all_nth row_values_def)
  also have "\<dots> \<longleftrightarrow> (\<forall>j < i. map_option rank (column s (oc_member (items ! j))) = map_option rank (column r (oc_member (items ! j))))"
    using same by simp
  finally show ?thesis using beyond_holds [OF null [OF order_refl], of rank like other] nth [OF order_refl] by simp
qed

lemma keyset_filter_after:
  assumes "no_nulls items r" and "no_nulls items s"
  shows "items \<noteq> [] \<Longrightarrow> holds (leaf_true rank like other r) (keyset_filter (row_values items s)) \<longleftrightarrow> precedes rank items s r"
proof -
  assume ne: "items \<noteq> []"
  have "holds (leaf_true rank like other r) (keyset_filter (row_values items s)) \<longleftrightarrow>
      (\<exists>i < length items. holds (leaf_true rank like other r) (keyset_branch (row_values items s) i))"
  proof (cases "length items = 1")
    case True
    then show ?thesis by (auto simp: keyset_filter_def keyset_branch_def row_values_def length_Suc_conv)
  next
    case False
    then show ?thesis using ne by (auto simp: keyset_filter_def holds_Group row_values_def)
  qed
  also have "\<dots> \<longleftrightarrow> precedes rank items s r"
    unfolding precedes_iff using keyset_branch_holds [OF assms] by blast
  finally show ?thesis .
qed

text \<open>The position taken from a row.\<close>

definition row_position :: "string list \<Rightarrow> row \<Rightarrow> position" where
  "row_position ms r = fold (\<lambda>m pos. case dict_get r m of None \<Rightarrow> pos | Some v \<Rightarrow> dict_set pos m v) ms []"

lemma row_position_get:
  "dict_get (fold (\<lambda>m pos. case dict_get r m of None \<Rightarrow> pos | Some v \<Rightarrow> dict_set pos m v) ms acc) m =
     (if m \<in> set ms \<and> dict_get r m \<noteq> None then dict_get r m else dict_get acc m)"
  by (induction ms arbitrary: acc) (auto simp: update_conv' split: option.splits)

lemma active_row:
  assumes "no_nulls items r" and "\<And>c. c \<in> set items \<Longrightarrow> dict_get pos (oc_member c) = dict_get r (oc_member c)"
  shows "active_keyset items pos = row_values items r"
proof -
  have "(case dict_get pos (oc_member c) of Some (Some v) \<Rightarrow> [(c, v)] | _ \<Rightarrow> []) =
      [(c, the (column r (oc_member c)))]" if "c \<in> set items" for c
    using assms that by (fastforce simp: no_nulls_def column_def split: option.splits)
  then show ?thesis unfolding active_keyset_def row_values_def by (induction items) simp_all
qed

lemma rows_after:
  assumes "sorted_wrt (precedes rank items) rows" and "i < length rows"
  shows "filter (precedes rank items (rows ! i)) rows = drop (Suc i) rows"
proof -
  have "filter (precedes rank items (rows ! i)) (take (Suc i) rows) = []"
  proof -
    have "\<not> precedes rank items (rows ! i) (rows ! j)" if "j \<le> i" for j
      using assms that precedes_asym [of rank items "rows ! j" "rows ! i"] precedes_irrefl [of rank items "rows ! i"]
      by (cases "j = i") (auto simp: sorted_wrt_iff_nth_less)
    then show ?thesis using assms(2) by (auto simp: filter_empty_conv in_set_conv_nth)
  qed
  moreover have "filter (precedes rank items (rows ! i)) (drop (Suc i) rows) = drop (Suc i) rows"
    using assms by (auto simp: filter_id_conv in_set_conv_nth sorted_wrt_iff_nth_less)
  ultimately have "filter (precedes rank items (rows ! i)) (take (Suc i) rows @ drop (Suc i) rows) = drop (Suc i) rows"
    by (simp only: filter_append append_Nil)
  then show ?thesis by simp
qed


text \<open>A page of a plan that pages by \<open>items\<close>, after a row of the answer.\<close>

definition paged_plan :: "dimension_def list \<Rightarrow> plan \<Rightarrow> int \<Rightarrow> filter_node option \<Rightarrow> plan" where
  "paged_plan bundle p page_size f =
     Plan ((plan_clauses p)\<lparr>q_dimensions := fst (keyset_order bundle p), q_order := snd (keyset_order bundle p),
       q_limit := page_size, q_filters := f\<rparr>) (plan_sets p)"

lemma apply_keyset_first:
  assumes "plan_is_pageable is_share p" and "on_plan q_grain p \<noteq> Scalar"
  shows "apply_keyset_to_plan is_share bundle p [] k = Inr (paged_plan bundle p k (on_plan q_filters p))"
  using assms by (simp add: apply_keyset_to_plan_def paged_plan_def Let_def case_prod_beta)

lemma apply_keyset_next:
  assumes "plan_is_pageable is_share p" and "on_plan q_grain p \<noteq> Scalar"
    and "active_keyset (snd (keyset_order bundle p)) pos = active" and "active \<noteq> []"
  shows "apply_keyset_to_plan is_share bundle p pos k =
    Inr (paged_plan bundle p k (Some (case on_plan q_filters p of Some f \<Rightarrow> Group [f, keyset_filter active] []
       | None \<Rightarrow> Group [keyset_filter active] [])))"
proof -
  have "pos \<noteq> []" using assms(3,4) by (auto simp: active_keyset_def concat_eq_Nil_conv)
  then show ?thesis
    using assms
    by (cases "on_plan q_filters p") (simp_all add: apply_keyset_to_plan_def paged_plan_def Let_def case_prod_beta)
qed

lemma paged_answer:
  assumes "\<And>r. r \<in> set rows \<Longrightarrow> no_nulls items r" and "no_nulls items s" and "items \<noteq> []"
  shows "plan_answer rank like other rows (paged_plan bundle p k (Some (case on_plan q_filters p of
       Some f \<Rightarrow> Group [f, keyset_filter (row_values items s)] []
     | None \<Rightarrow> Group [keyset_filter (row_values items s)] []))) =
    filter (precedes rank items s) (plan_answer rank like other rows p)"
proof -
  have "plan_answer rank like other rows (paged_plan bundle p k (Some (case on_plan q_filters p of
       Some f \<Rightarrow> Group [f, keyset_filter (row_values items s)] []
     | None \<Rightarrow> Group [keyset_filter (row_values items s)] []))) =
    filter (\<lambda>r. (case on_plan q_filters p of None \<Rightarrow> True | Some g \<Rightarrow> holds (leaf_true rank like other r) g) \<and>
      holds (leaf_true rank like other r) (keyset_filter (row_values items s))) rows"
    by (simp add: plan_answer_def paged_plan_def holds_Group split: option.splits)
  also have "\<dots> = filter (\<lambda>r. (case on_plan q_filters p of None \<Rightarrow> True | Some g \<Rightarrow> holds (leaf_true rank like other r) g) \<and>
      precedes rank items s r) rows"
    by (intro filter_cong refl) (simp add: keyset_filter_after assms)
  finally show ?thesis by (simp add: plan_answer_def)
qed

lemma keyset_leaves:
  assumes "l \<in> set (iter_filter_leaves (keyset_filter (row_values items s)))"
  shows "\<exists>f. l = Plan_filter f \<and> pf_member f \<in> oc_member ` set items"
proof -
  have branch: "\<exists>f. l = Plan_filter f \<and> pf_member f \<in> oc_member ` set items"
    if "l \<in> set (iter_filter_leaves (keyset_branch (row_values items s) i))" "i < length items" for i
    using that
    by (auto simp: keyset_branch_def beyond_def same_value_def row_values_def split: if_splits
        dest!: in_set_takeD)
  show ?thesis
  proof (cases "length items = 1")
    case True
    then show ?thesis using assms
      by (auto simp: keyset_filter_def beyond_def row_values_def length_Suc_conv)
  next
    case False
    then obtain i where "i < length items" "l \<in> set (iter_filter_leaves (keyset_branch (row_values items s) i))"
      using assms by (auto simp: keyset_filter_def row_values_def)
    then show ?thesis using branch by blast
  qed
qed

lemma paged_compiles:
  assumes "filters_compile names_measure p" and "\<And>c. c \<in> set items \<Longrightarrow> \<not> names_measure (oc_member c)"
  shows "filters_compile names_measure (paged_plan bundle p k (Some (case on_plan q_filters p of
       Some f \<Rightarrow> Group [f, keyset_filter (row_values items s)] []
     | None \<Rightarrow> Group [keyset_filter (row_values items s)] [])))"
proof -
  have "case l of Plan_filter f \<Rightarrow> \<not> names_measure (pf_member f) | Attribute a \<Rightarrow> True"
    if "l \<in> set (iter_filter_leaves (keyset_filter (row_values items s)))" for l
    using keyset_leaves [OF that] assms(2) by auto
  then show ?thesis
    using assms(1) by (cases "on_plan q_filters p") (auto simp: filters_compile_def paged_plan_def)
qed

lemma position_of_page:
  assumes "page \<noteq> []" and "no_nulls items (last page)" and "on_plan q_order p1 = items"
  shows "active_keyset items (keyset_position_for_answered (Some p1) page) = row_values items (last page)"
proof (rule active_row [OF assms(2)])
  fix c assume c: "c \<in> set items"
  then have "dict_get (last page) (oc_member c) \<noteq> None"
    using assms(2) by (auto simp: no_nulls_def column_def split: option.splits)
  moreover have "oc_member c \<in> set (position_members p1)"
    using c assms(3) by (simp add: position_members_def Let_def)
  ultimately show "dict_get (keyset_position_for_answered (Some p1) page) (oc_member c) =
      dict_get (last page) (oc_member c)"
    using assms(1) by (simp add: keyset_position_for_answered_def row_position_get)
qed

lemma paged_fields [simp]:
  "on_plan q_limit (paged_plan bundle p k f) = k"
  "on_plan q_order (paged_plan bundle p k f) = snd (keyset_order bundle p)"
  by (simp_all add: paged_plan_def)

lemma last_of_page:
  assumes "take k (drop (Suc i) xs) \<noteq> []"
  shows "last (take k (drop (Suc i) xs)) = xs ! (i + length (take k (drop (Suc i) xs)))"
    and "i + length (take k (drop (Suc i) xs)) < length xs"
proof -
  let ?m = "length (take k (drop (Suc i) xs))"
  have m: "0 < ?m" "?m \<le> k" "?m \<le> length xs - Suc i" using assms by auto
  have "last (take k (drop (Suc i) xs)) = take k (drop (Suc i) xs) ! (?m - 1)"
    by (rule last_conv_nth [OF assms])
  also have "\<dots> = drop (Suc i) xs ! (?m - 1)" using m by (intro nth_take) linarith
  also have "\<dots> = xs ! (Suc i + (?m - 1))" using m by (intro nth_drop) linarith
  also have "Suc i + (?m - 1) = i + ?m" using m(1) by simp
  finally show "last (take k (drop (Suc i) xs)) = xs ! (i + ?m)" .
  show "i + ?m < length xs" using m by linarith
qed

text \<open>What the remaining pages return after the row at an index.\<close>

lemma pages_after:
  fixes rank :: "scalar \<Rightarrow> 'o :: linorder"
  assumes pageable: "plan_is_pageable is_share p" "on_plan q_grain p \<noteq> Scalar" "filters_compile names_measure p"
    and items: "snd (keyset_order bundle p) = items" "items \<noteq> []" "\<And>c. c \<in> set items \<Longrightarrow> \<not> names_measure (oc_member c)"
    and sorted: "sorted_wrt (precedes rank items) rows" and nulls: "\<And>r. r \<in> set rows \<Longrightarrow> no_nulls items r"
    and k: "0 < k"
  shows "i < length (plan_answer rank like other rows p) \<Longrightarrow> length (plan_answer rank like other rows p) \<le> i + 1 + n \<Longrightarrow>
    active_keyset items pos = row_values items (plan_answer rank like other rows p ! i) \<Longrightarrow>
    read_pages n names_measure (plan_answer rank like other rows) is_share bundle p k pos =
      drop (Suc i) (plan_answer rank like other rows p)"
proof (induction n arbitrary: i pos)
  case 0
  then show ?case by simp
next
  case (Suc n)
  let ?full = "plan_answer rank like other rows p"
  have i: "i < length ?full" using Suc.prems(1) by simp
  have full: "sorted_wrt (precedes rank items) ?full" "\<And>r. r \<in> set ?full \<Longrightarrow> no_nulls items r"
    using sorted nulls by (auto simp: plan_answer_def sorted_wrt_filter)
  have active: "active_keyset (snd (keyset_order bundle p)) pos = row_values items (?full ! i)"
    using Suc.prems(3) items(1) by simp
  define f where "f = Some (case on_plan q_filters p of
       Some f \<Rightarrow> Group [f, keyset_filter (row_values items (?full ! i))] []
     | None \<Rightarrow> Group [keyset_filter (row_values items (?full ! i))] [])"
  have nonempty: "row_values items (?full ! i) \<noteq> []" using items(2) by (simp add: row_values_def)
  have next_plan: "apply_keyset_to_plan is_share bundle p pos k = Inr (paged_plan bundle p k f)"
    unfolding f_def by (rule apply_keyset_next [OF pageable(1,2) active nonempty])
  have answer: "plan_answer rank like other rows (paged_plan bundle p k f) = drop (Suc i) ?full"
    unfolding f_def
    by (simp only: paged_answer [OF nulls full(2) [OF nth_mem [OF i]] items(2)] rows_after [OF full(1) i])
  define page where "page = take (nat k) (drop (Suc i) ?full)"
  have page: "page_of names_measure (plan_answer rank like other rows) (paged_plan bundle p k f) = page"
  proof -
    have "filters_compile names_measure (paged_plan bundle p k f)"
      unfolding f_def by (rule paged_compiles [OF pageable(3) items(3)])
    then show ?thesis by (simp add: page_of_def page_def answer)
  qed
  show ?case
  proof (cases "page = []")
    case True
    then have "drop (Suc i) ?full = []" using k by (simp add: page_def)
    then show ?thesis using True by (simp add: next_plan page)
  next
    case False
    define j where "j = i + length page"
    have j: "j < length ?full" "last page = ?full ! j"
      using last_of_page [OF False [unfolded page_def]] by (simp_all add: j_def page_def)
    have "i < j" using False by (simp add: j_def)
    have "read_pages n names_measure (plan_answer rank like other rows) is_share bundle p k
        (keyset_position_for_answered (Some (paged_plan bundle p k f)) page) = drop (Suc j) ?full"
      using Suc.IH [of j] j \<open>i < j\<close> Suc.prems(2)
        position_of_page [OF False, of items "paged_plan bundle p k f"] full(2) [OF nth_mem [OF j(1)]] items(1)
      by simp
    moreover have "drop (Suc i) ?full = page @ drop (Suc j) ?full"
    proof -
      have "drop (length page) (drop (Suc i) ?full) = drop (Suc j) ?full" by (simp add: j_def add.commute)
      moreover have "take (length page) (drop (Suc i) ?full) = page" by (auto simp: page_def min_def)
      ultimately show ?thesis using append_take_drop_id [of "length page" "drop (Suc i) ?full"] by simp
    qed
    ultimately show ?thesis using False by (simp add: next_plan page Let_def)
  qed
qed


lemma last_of_take:
  assumes "take k xs \<noteq> []"
  shows "last (take k xs) = xs ! (length (take k xs) - 1)" and "length (take k xs) - 1 < length xs"
proof -
  have m: "0 < length (take k xs)" "length (take k xs) \<le> k" "length (take k xs) \<le> length xs"
    using assms by auto
  have "last (take k xs) = take k xs ! (length (take k xs) - 1)" by (rule last_conv_nth [OF assms])
  also have "\<dots> = xs ! (length (take k xs) - 1)" using m by (intro nth_take) linarith
  finally show "last (take k xs) = xs ! (length (take k xs) - 1)" .
  show "length (take k xs) - 1 < length xs" using m by linarith
qed


text \<open>The rows, groups and plans of the examples.\<close>

definition int_rank :: "scalar \<Rightarrow> int" where
  "int_rank v = (case v of S_int n \<Rightarrow> n | _ \<Rightarrow> 0)"

definition invoice_bundle :: "dimension_def list" where
  "invoice_bundle =
     [\<lparr>dd_name = ''invoice.id'', dd_resource = ''invoice'', dd_primary_key = True\<rparr>,
      \<lparr>dd_name = ''invoice.total'', dd_resource = ''invoice'', dd_primary_key = False\<rparr>]"

definition invoice_row :: "scalar option \<Rightarrow> int \<Rightarrow> row" where
  "invoice_row amount i = [(''invoice.total'', amount), (''invoice.id'', Some (S_int i))]"

text \<open>Invoices by total, largest first.\<close>

definition invoices_by_total :: plan where
  "invoices_by_total =
     Plan ((blank_clauses Entity_rows [] [''invoice.total''])
       \<lparr>q_order := [\<lparr>oc_member = ''invoice.total'', oc_direction = Desc\<rparr>]\<rparr>) []"

definition pages_of :: "row list \<Rightarrow> plan \<Rightarrow> row list" where
  "pages_of rows p =
     read_pages (length rows) (\<lambda>m. False) (plan_answer int_rank (\<lambda>x y. False) (\<lambda>r l. False) rows)
       (\<lambda>m. False) invoice_bundle p 2 []"


text \<open>
  Where the order has ties or NULLs, pages lose rows: groups ordered by one of two dimensions, of
  which two agree in it, and rows whose order value is NULL in a descending order, are not all read.
\<close>

theorem keyset_pages_lose_rows:
  "(let rows = [invoice_row (Some (S_int 9)) 1, invoice_row (Some (S_int 5)) 2, invoice_row (Some (S_int 5)) 3];
        grouped = Plan ((blank_clauses Grouped [''count''] [''invoice.total'', ''invoice.id''])
          \<lparr>q_order := [\<lparr>oc_member = ''invoice.total'', oc_direction = Desc\<rparr>]\<rparr>) []
    in valid_plan [] grouped \<and> pages_of rows grouped = take 2 rows) \<and>
   (let rows = [invoice_row (Some (S_int 9)) 1, invoice_row (Some (S_int 5)) 2, invoice_row None 3]
    in sorted_wrt (precedes int_rank (snd (keyset_order invoice_bundle invoices_by_total))) rows \<and>
       valid_plan [] invoices_by_total \<and> pages_of rows invoices_by_total = take 2 rows)"
  by code_simp

lemma keyset_starts:
  assumes "active \<noteq> []"
  shows "set (iter_filter_leaves (beyond (hd active))) \<subseteq> set (iter_filter_leaves (keyset_filter active))"
proof (cases "length active = 1")
  case True
  then show ?thesis by (simp add: keyset_filter_def)
next
  case False
  have "keyset_branch active 0 = beyond (hd active)" using assms by (simp add: keyset_branch_def hd_conv_nth)
  moreover have "keyset_branch active 0 \<in> set (map (keyset_branch active) [0 ..< length active])"
    using assms by simp
  ultimately show ?thesis using False by (auto simp: keyset_filter_def)
qed

text \<open>
  A plan that ranks its groups by a measure, as the planner is told to write, has no second page: the
  keyset filter names the measure, and the compiler refuses a measure among the filters of rows.
\<close>

theorem ranked_groups_have_one_page:
  assumes "plan_is_pageable is_share p" and "on_plan q_grain p = Grouped" and "on_plan q_order p = c # cs"
    and "names_measure (oc_member c)" and "dict_get pos (oc_member c) = Some (Some v)"
  shows "\<exists>p1. apply_keyset_to_plan is_share bundle p pos k = Inr p1 \<and> \<not> filters_compile names_measure p1"
proof -
  have order: "snd (keyset_order bundle p) = c # cs" using assms(2,3) by (simp add: keyset_order_def Let_def)
  define active where "active = (c, v) # active_keyset cs pos"
  have active: "active_keyset (snd (keyset_order bundle p)) pos = active"
    using assms(5) by (simp add: order active_def active_keyset_def)
  have "set (iter_filter_leaves (beyond (c, v))) \<subseteq> set (iter_filter_leaves (keyset_filter active))"
    using keyset_starts [of active] by (simp add: active_def)
  then have "\<exists>f. Plan_filter f \<in> set (iter_filter_leaves (keyset_filter active)) \<and> pf_member f = oc_member c"
    by (auto simp: beyond_def)
  then obtain f where f: "Plan_filter f \<in> set (iter_filter_leaves (keyset_filter active))"
      "pf_member f = oc_member c" by blast
  have "\<not> filters_compile names_measure (paged_plan bundle p k (Some g))"
    if "Plan_filter f \<in> set (iter_filter_leaves g)" for g
    using that f(2) assms(4) by (auto simp: filters_compile_def paged_plan_def intro!: bexI [of _ "Plan_filter f"])
  then show ?thesis
    using apply_keyset_next [OF assms(1) _ active, of k] assms(2) f(1)
    by (cases "on_plan q_filters p") (simp_all add: active_def)
qed

lemma precedes_total:
  assumes "c \<in> set items" and "map_option rank (column r (oc_member c)) \<noteq> map_option rank (column s (oc_member c))"
  shows "precedes rank items r s \<or> precedes rank items s r"
  using assms by (induction items) (auto simp: Let_def)

lemma add_primary_key_mono:
  "set (snd s) \<subseteq> set (snd (add_primary_key bundle resource s))"
  by (cases s) (auto simp: add_primary_key_def split: option.splits)

lemma add_primary_keys:
  "set (snd s) \<subseteq> set (snd (fold (add_primary_key bundle) rs s)) \<and>
   (\<forall>resource\<in>set rs. \<forall>pk. find_primary_key bundle resource = Some pk \<longrightarrow> pk \<noteq> [] \<longrightarrow>
      pk \<in> oc_member ` set (snd (fold (add_primary_key bundle) rs s)))"
proof (induction rs arbitrary: s)
  case Nil
  then show ?case by simp
next
  case (Cons resource rs)
  let ?s = "add_primary_key bundle resource s"
  have "pk \<in> oc_member ` set (snd ?s)" if "find_primary_key bundle resource = Some pk" "pk \<noteq> []" for pk
    using that by (cases s) (auto simp: add_primary_key_def)
  moreover note Cons.IH [of ?s] add_primary_key_mono [of s _ resource]
  ultimately show ?case by auto blast+
qed

text \<open>
  Pages of records are without ties: in the page order of a list of records, of two rows that
  differ in the primary key of some resource they list, one comes before the other.
\<close>

theorem record_pages_have_no_ties:
  fixes rank :: "scalar \<Rightarrow> 'o :: linorder"
  assumes "on_plan q_grain p = Entity_rows" and "d \<in> set bundle" and "dd_name d \<in> set (on_plan q_dimensions p)"
    and "find_primary_key bundle (dd_resource d) = Some pk" and "pk \<noteq> []"
    and "map_option rank (column r pk) \<noteq> map_option rank (column s pk)"
  shows "precedes rank (snd (keyset_order bundle p)) r s \<or> precedes rank (snd (keyset_order bundle p)) s r"
proof -
  have "dd_resource d \<in> set (owning_resources bundle p)"
    using assms(2,3) by (auto simp: owning_resources_def Let_def)
  then have "pk \<in> oc_member ` set (snd (fold (add_primary_key bundle) (owning_resources bundle p)
      (on_plan q_dimensions p, on_plan q_order p)))"
    using add_primary_keys assms(4,5) by blast
  moreover from this have "snd (keyset_order bundle p) = snd (fold (add_primary_key bundle) (owning_resources bundle p)
      (on_plan q_dimensions p, on_plan q_order p))"
    using assms(1) by (auto simp: keyset_order_def Let_def split: prod.splits)
  ultimately obtain c where "c \<in> set (snd (keyset_order bundle p))" "oc_member c = pk" by auto
  then show ?thesis using precedes_total [of c _ rank r s] assms(6) by blast
qed

lemma record_pages_have_no_ties_witness:
  "precedes int_rank (snd (keyset_order invoice_bundle invoices_by_total))
     (invoice_row (Some (S_int 5)) 1) (invoice_row (Some (S_int 5)) 2) \<or>
   precedes int_rank (snd (keyset_order invoice_bundle invoices_by_total))
     (invoice_row (Some (S_int 5)) 2) (invoice_row (Some (S_int 5)) 1)"
  by (rule record_pages_have_no_ties
        [where d = "\<lparr>dd_name = ''invoice.total'', dd_resource = ''invoice'', dd_primary_key = False\<rparr>" and pk = "''invoice.id''"])
    (simp_all add: invoices_by_total_def blank_clauses_def invoice_bundle_def find_primary_key_def invoice_row_def
      column_def int_rank_def)

end
