(* ===== verification/Plan_Rewrites.thy ===== *)
theory Plan_Rewrites
  imports Query_Plan
begin

text \<open>
  Functions from plans to plans: set filters bound to the anchor (plan/anchor_filters.py), the nodes of
  a plan and their replacement (plan/plan_tree.py), the categories of a difference
  (plan/plan_diff.py), and the companion that lists what another plan ranks
  (plan/companion_guard.py).
\<close>

subsection \<open>Set filters and the anchor\<close>

definition set_leaf :: "filter_leaf \<Rightarrow> bool" where
  "set_leaf l \<longleftrightarrow>
     (case l of Plan_filter f \<Rightarrow> pf_operator f \<in> {Op_in_set, Op_not_in_set} \<and> pf_values f \<noteq> [] | Attribute a \<Rightarrow> False)"

definition pick_set_ids :: "plan \<Rightarrow> string \<Rightarrow> string set" where
  "pick_set_ids p anchor_key =
     set_id ` {d \<in> set (plan_sets p). set_mode d = Pick_set \<and> set_key d = anchor_key}"

definition rebinds :: "string set \<Rightarrow> string \<Rightarrow> filter_leaf \<Rightarrow> bool" where
  "rebinds pick_sets anchor_key l \<longleftrightarrow>
     set_leaf l \<and> py_str (hd (leaf_values l)) \<in> pick_sets \<and> leaf_member l \<noteq> anchor_key"

fun with_member :: "string \<Rightarrow> filter_leaf \<Rightarrow> filter_leaf" where
  "with_member m (Plan_filter f) = Plan_filter (f\<lparr>pf_member := m\<rparr>)"
| "with_member m (Attribute a) = Attribute a"

definition rebind :: "string set \<Rightarrow> string \<Rightarrow> filter_leaf \<Rightarrow> filter_leaf" where
  "rebind pick_sets anchor_key l =
     (if rebinds pick_sets anchor_key l then with_member anchor_key l else l)"

text \<open>The list of rebound members is appended to while the leaves are visited, which is in order.\<close>

definition bind_set_filters_to_anchor :: "plan \<Rightarrow> plan \<times> string list" where
  "bind_set_filters_to_anchor p =
     (case (on_plan q_anchor p, on_plan q_filters p) of
        (Some anchor, Some filters) \<Rightarrow>
          if plan_sets p = [] then (p, [])
          else
            (let anchor_key = anchor @ ''.id''; pick_sets = pick_set_ids p anchor_key in
             if pick_sets = {} then (p, [])
             else
               (let rebound = map leaf_member (filter (rebinds pick_sets anchor_key) (iter_filter_leaves filters));
                    new_filters = map_filter_tree (\<lambda>l. Some (rebind pick_sets anchor_key l)) filters
                in if rebound = [] then (p, [])
                   else (Plan ((plan_clauses p)\<lparr>q_filters := new_filters\<rparr>) (plan_sets p), rebound)))
      | _ \<Rightarrow> (p, []))"

subsection \<open>The nodes of a plan\<close>

type_synonym plan_path = "string list"

definition iter_plan_nodes :: "plan \<Rightarrow> (plan_path \<times> plan) list" where
  "iter_plan_nodes p = ([], p) # map (\<lambda>s. ([set_id s], set_plan s)) (plan_sets p)"

datatype replace_error = Unknown_path plan_path | Deep_path plan_path | Invalid plan_error

text \<open>The validators of the plan itself, when its sets are instances already.\<close>

definition check_node :: "string list \<Rightarrow> plan \<Rightarrow> plan_error option" where
  "check_node ts p =
     first_error [field_error p, grain_shape p, time_grouping ts p, all_time_breakdown p, anchor_projected p]"

definition replace_plan_at_path :: "plan \<Rightarrow> plan_path \<Rightarrow> plan \<Rightarrow> replace_error + plan" where
  "replace_plan_at_path p path replacement =
     (case path of
        [] \<Rightarrow> Inr replacement
      | [target] \<Rightarrow>
          if target \<notin> set_id ` set (plan_sets p) then Inl (Unknown_path path)
          else if \<not> re_match set_id_re target then Inl (Invalid (Bad_set_id target))
          else
            (let p1 = Plan (plan_clauses p)
               (map (\<lambda>s. if set_id s = target then Derived_set (set_id s) (set_mode s) (set_key s) replacement else s)
                 (plan_sets p))
             in case check_node [] p1 of None \<Rightarrow> Inr p1 | Some e \<Rightarrow> Inl (Invalid e))
      | _ \<Rightarrow> Inl (Deep_path path))"

subsection \<open>Differences\<close>

datatype diff_category =
    Projection_diff | Limit_diff | Order_diff | Period_diff | Filter_diff | Membership_diff | Grain_diff | Anchor_diff

text \<open>The fingerprint, a hash of the canonical payload, is a parameter.\<close>

definition classify_plan_diff :: "(plan \<Rightarrow> 'h) \<Rightarrow> plan \<Rightarrow> plan \<Rightarrow> diff_category list" where
  "classify_plan_diff fingerprint before after =
     (if fingerprint before = fingerprint after then []
      else
        (let b = plan_clauses before; a = plan_clauses after in
         (if q_dimensions b \<noteq> q_dimensions a \<or> q_measures b \<noteq> q_measures a \<or> q_details b \<noteq> q_details a
          then [Projection_diff] else []) @
         (if q_limit b \<noteq> q_limit a then [Limit_diff] else []) @
         (if q_order b \<noteq> q_order a then [Order_diff] else []) @
         (if q_period b \<noteq> q_period a \<or> q_compare_to b \<noteq> q_compare_to a then [Period_diff] else []) @
         (if q_filters b \<noteq> q_filters a \<or> q_having b \<noteq> q_having a \<or> q_attributes b \<noteq> q_attributes a
          then [Filter_diff] else []) @
         (if plan_sets before \<noteq> plan_sets after \<or> q_bucket_set b \<noteq> q_bucket_set a then [Membership_diff] else []) @
         (if q_grain b \<noteq> q_grain a then [Grain_diff] else []) @
         (if q_anchor b \<noteq> q_anchor a then [Anchor_diff] else [])))"

subsection \<open>Companions\<close>

definition ranks_groups :: "plan \<Rightarrow> bool" where
  "ranks_groups p \<longleftrightarrow>
     on_plan q_grain p = Grouped \<and> on_plan q_dimensions p \<noteq> [] \<and> on_plan q_order p \<noteq> [] \<and>
     oc_member (hd (on_plan q_order p)) \<in> set (on_plan q_measures p)"

definition range_of :: "business_period option \<Rightarrow> business_period option" where
  "range_of period = map_option (\<lambda>p. p\<lparr>bp_granularity := None\<rparr>) period"

text \<open>The JSON text of a leaf with sorted keys is a parameter.\<close>

definition filter_keys :: "(filter_leaf \<Rightarrow> 'k) \<Rightarrow> plan \<Rightarrow> 'k set" where
  "filter_keys dumps p =
     (case on_plan q_filters p of None \<Rightarrow> {} | Some g \<Rightarrow> dumps ` set (iter_filter_leaves g))"

definition lists_the_ranked_records :: "(filter_leaf \<Rightarrow> 'k) \<Rightarrow> plan \<Rightarrow> plan \<Rightarrow> bool" where
  "lists_the_ranked_records dumps ranked listed \<longleftrightarrow>
     ranks_groups ranked \<and> on_plan q_grain listed = Entity_rows \<and> plan_sets listed = [] \<and>
     resource_of ` set (on_plan q_dimensions listed) = {resource_of (hd (on_plan q_dimensions ranked))} \<and>
     filter_keys dumps listed \<subseteq> filter_keys dumps ranked \<and>
     range_of (on_plan q_period listed) = range_of (on_plan q_period ranked)"

subsection \<open>Lemmas\<close>

lemma with_member_fields [simp]:
  "set_leaf (with_member m l) = set_leaf l" "leaf_values (with_member m l) = leaf_values l"
  "leaf_operator (with_member m l) = leaf_operator l"
  "set_leaf l \<Longrightarrow> leaf_member (with_member m l) = m"
  by (cases l; simp add: set_leaf_def)+

lemma rebind_settled: "\<not> rebinds S k (rebind S k l)"
  by (auto simp: rebind_def rebinds_def)

lemma rebind_not_rebinds: "\<not> rebinds S k l \<Longrightarrow> rebind S k l = l"
  by (simp add: rebind_def)

lemma bind_cases:
  obtains (same) "bind_set_filters_to_anchor p = (p, [])"
  | (bound) anchor filters t where
      "on_plan q_anchor p = Some anchor" "on_plan q_filters p = Some filters"
      "map_filter_tree (\<lambda>l. Some (rebind (pick_set_ids p (anchor @ ''.id'')) (anchor @ ''.id'') l)) filters = Some t"
      "iter_filter_leaves t = map (rebind (pick_set_ids p (anchor @ ''.id'')) (anchor @ ''.id'')) (iter_filter_leaves filters)"
      "bind_set_filters_to_anchor p = (Plan ((plan_clauses p)\<lparr>q_filters := Some t\<rparr>) (plan_sets p),
         map leaf_member (filter (rebinds (pick_set_ids p (anchor @ ''.id'')) (anchor @ ''.id'')) (iter_filter_leaves filters)))"
proof (cases "snd (bind_set_filters_to_anchor p) = []")
  case True
  then have "bind_set_filters_to_anchor p = (p, [])"
    by (auto simp: bind_set_filters_to_anchor_def Let_def split: option.splits if_splits)
  then show ?thesis by (rule same)
next
  case False
  then obtain anchor filters where af: "on_plan q_anchor p = Some anchor" "on_plan q_filters p = Some filters"
    by (auto simp: bind_set_filters_to_anchor_def split: option.splits)
  define S where "S = pick_set_ids p (anchor @ ''.id'')"
  define new where "new = map_filter_tree (\<lambda>l. Some (rebind S (anchor @ ''.id'') l)) filters"
  have bind: "bind_set_filters_to_anchor p = (Plan ((plan_clauses p)\<lparr>q_filters := new\<rparr>) (plan_sets p),
      map leaf_member (filter (rebinds S (anchor @ ''.id'')) (iter_filter_leaves filters)))"
    using False af by (auto simp: bind_set_filters_to_anchor_def S_def new_def Let_def split: if_splits)
  with False have "iter_filter_leaves filters \<noteq> []" by auto
  then obtain t where "new = Some t" "iter_filter_leaves t = map (rebind S (anchor @ ''.id'')) (iter_filter_leaves filters)"
    using map_filter_tree_spec [of "\<lambda>l. Some (rebind S (anchor @ ''.id'') l)" filters]
    by (auto simp: new_def split: option.splits)
  then show ?thesis using af bind by (intro bound) (simp_all add: S_def new_def)
qed

definition plan_leaves :: "plan \<Rightarrow> filter_leaf list" where
  "plan_leaves p = (case on_plan q_filters p of None \<Rightarrow> [] | Some g \<Rightarrow> iter_filter_leaves g)"

lemma bind_settled:
  assumes "on_plan q_anchor p = Some anchor"
    and "\<And>l. l \<in> set (plan_leaves p) \<Longrightarrow> \<not> rebinds (pick_set_ids p (anchor @ ''.id'')) (anchor @ ''.id'') l"
  shows "bind_set_filters_to_anchor p = (p, [])"
proof -
  have "filter (rebinds (pick_set_ids p (anchor @ ''.id'')) (anchor @ ''.id'')) (plan_leaves p) = []"
    using assms(2) by (simp add: filter_empty_conv)
  then show ?thesis using assms(1)
    by (auto simp: bind_set_filters_to_anchor_def plan_leaves_def Let_def split: option.splits)
qed

lemma bind_same_settled:
  assumes "bind_set_filters_to_anchor p = (p, [])" and "on_plan q_anchor p = Some anchor" and "l \<in> set (plan_leaves p)"
  shows "\<not> rebinds (pick_set_ids p (anchor @ ''.id'')) (anchor @ ''.id'') l"
proof
  assume r: "rebinds (pick_set_ids p (anchor @ ''.id'')) (anchor @ ''.id'') l"
  then have "pick_set_ids p (anchor @ ''.id'') \<noteq> {}" by (auto simp: rebinds_def)
  moreover from this have "plan_sets p \<noteq> []" by (auto simp: pick_set_ids_def)
  moreover have "filter (rebinds (pick_set_ids p (anchor @ ''.id'')) (anchor @ ''.id'')) (plan_leaves p) \<noteq> []"
    using r assms(3) by (auto simp: filter_empty_conv)
  ultimately show False using assms(1,2)
    by (cases "on_plan q_filters p") (simp_all add: bind_set_filters_to_anchor_def plan_leaves_def Let_def)
qed

text \<open>
  Binding set filters to the anchor changes only the member of leaves: operators and values stay
  leaf by leaf, afterwards every leaf over a pick set of the anchor's key names that key, and binding
  once more changes nothing.
\<close>

theorem set_filters_bound:
  "bind_set_filters_to_anchor (fst (bind_set_filters_to_anchor p)) = (fst (bind_set_filters_to_anchor p), []) \<and>
   map leaf_operator (plan_leaves (fst (bind_set_filters_to_anchor p))) = map leaf_operator (plan_leaves p) \<and>
   map leaf_values (plan_leaves (fst (bind_set_filters_to_anchor p))) = map leaf_values (plan_leaves p) \<and>
   \<not> (\<exists>anchor. on_plan q_anchor p = Some anchor \<and>
        (\<exists>l\<in>set (plan_leaves (fst (bind_set_filters_to_anchor p))). set_leaf l \<and>
          py_str (hd (leaf_values l)) \<in> pick_set_ids p (anchor @ ''.id'') \<and> leaf_member l \<noteq> anchor @ ''.id''))"
proof (cases rule: bind_cases [of p])
  case same
  then show ?thesis using bind_same_settled [OF same] by (auto simp: rebinds_def)
next
  case (bound anchor filters t)
  define S where "S = pick_set_ids p (anchor @ ''.id'')"
  define p1 where "p1 = Plan ((plan_clauses p)\<lparr>q_filters := Some t\<rparr>) (plan_sets p)"
  have p1: "fst (bind_set_filters_to_anchor p) = p1" using bound(5) by (simp add: p1_def)
  have leaves: "plan_leaves p1 = map (rebind S (anchor @ ''.id'')) (plan_leaves p)"
    using bound(2,4) by (simp add: plan_leaves_def p1_def S_def)
  have "on_plan q_anchor p1 = Some anchor" "pick_set_ids p1 (anchor @ ''.id'') = S"
    using bound(1) by (simp_all add: p1_def S_def pick_set_ids_def)
  moreover have settled: "\<not> rebinds S (anchor @ ''.id'') l" if "l \<in> set (plan_leaves p1)" for l
    using that rebind_settled by (auto simp: leaves)
  ultimately have "bind_set_filters_to_anchor p1 = (p1, [])" by (intro bind_settled) auto
  moreover have "map leaf_operator (plan_leaves p1) = map leaf_operator (plan_leaves p)"
    "map leaf_values (plan_leaves p1) = map leaf_values (plan_leaves p)"
    unfolding leaves by (auto simp: rebind_def)
  ultimately show ?thesis unfolding p1 using settled bound(1) by (auto simp: rebinds_def S_def)
qed

text \<open>
  A replaced node is read back, every other node is as before, and the plan with the replacement
  passes the validators; the root path gives the replacement itself, and a path that names no set of
  the plan is refused.
\<close>

theorem replace_then_read:
  assumes "replace_plan_at_path p path replacement = Inr p1"
  shows "(path, replacement) \<in> set (iter_plan_nodes p1) \<and> path \<in> fst ` set (iter_plan_nodes p) \<and>
    (path = [] \<or>
     map fst (iter_plan_nodes p1) = map fst (iter_plan_nodes p) \<and> plan_clauses p1 = plan_clauses p \<and>
     filter (\<lambda>(q, n). q \<noteq> path) (tl (iter_plan_nodes p1)) = filter (\<lambda>(q, n). q \<noteq> path) (tl (iter_plan_nodes p)) \<and>
     check_node [] p1 = None)"
proof (cases path)
  case Nil
  then show ?thesis using assms by (simp add: replace_plan_at_path_def iter_plan_nodes_def)
next
  case (Cons target rest)
  define put where "put s = (if set_id s = target then Derived_set (set_id s) (set_mode s) (set_key s) replacement else s)" for s
  from assms Cons have rest: "rest = []" and found: "target \<in> set_id ` set (plan_sets p)"
      and p1: "p1 = Plan (plan_clauses p) (map put (plan_sets p))" and ok: "check_node [] p1 = None"
    by (auto simp: replace_plan_at_path_def put_def [abs_def] Let_def split: list.splits if_splits option.splits)
  have put: "set_id (put s) = set_id s" "set_id s = target \<Longrightarrow> set_plan (put s) = replacement"
    "set_id s \<noteq> target \<Longrightarrow> put s = s" for s
    by (simp_all add: put_def)
  have "filter (\<lambda>(q, n). q \<noteq> [target]) (map (\<lambda>s. ([set_id s], set_plan s)) (map put ss)) =
      filter (\<lambda>(q, n). q \<noteq> [target]) (map (\<lambda>s. ([set_id s], set_plan s)) ss)" for ss
    by (induction ss) (auto simp: put)
  moreover have "([target], replacement) \<in> set (iter_plan_nodes p1)"
  proof -
    from found obtain d where "d \<in> set (plan_sets p)" "set_id d = target" by auto
    then show ?thesis using put(1,2) [of d] by (force simp: iter_plan_nodes_def p1)
  qed
  moreover have "[target] \<in> fst ` set (iter_plan_nodes p)" using found by (force simp: iter_plan_nodes_def)
  moreover have "map fst (iter_plan_nodes p1) = map fst (iter_plan_nodes p)"
    by (simp add: iter_plan_nodes_def p1 put)
  ultimately show ?thesis using ok by (simp add: Cons rest iter_plan_nodes_def p1 comp_def)
qed

lemma replace_then_read_witness:
  "([''jobs''], Plan (blank_clauses Entity_rows [] [''job.id'']) []) \<in> set (iter_plan_nodes
      (Plan ((blank_clauses Entity_rows [] [''job.id''])\<lparr>q_filters := in_set_filter ''job.id'' ''jobs''\<rparr>)
       [Derived_set ''jobs'' Complete_set ''job.id'' (Plan (blank_clauses Entity_rows [] [''job.id'']) [])]))"
proof -
  have "replace_plan_at_path
      (Plan ((blank_clauses Entity_rows [] [''job.id''])\<lparr>q_filters := in_set_filter ''job.id'' ''jobs''\<rparr>)
       [Derived_set ''jobs'' Complete_set ''job.id''
          (Plan ((blank_clauses Entity_rows [] [''job.id''])\<lparr>q_limit := 7\<rparr>) [])])
      [''jobs''] (Plan (blank_clauses Entity_rows [] [''job.id'']) []) =
    Inr (Plan ((blank_clauses Entity_rows [] [''job.id''])\<lparr>q_filters := in_set_filter ''job.id'' ''jobs''\<rparr>)
       [Derived_set ''jobs'' Complete_set ''job.id'' (Plan (blank_clauses Entity_rows [] [''job.id'']) [])])"
    by code_simp
  from replace_then_read [OF this] show ?thesis by blast
qed

text \<open>
  The categories miss no difference: with a fingerprint that separates plans, the list is empty
  exactly for equal plans.
\<close>

theorem no_difference_unclassified:
  assumes "inj fingerprint"
  shows "classify_plan_diff fingerprint before after = [] \<longleftrightarrow> before = after"
proof
  assume none: "classify_plan_diff fingerprint before after = []"
  show "before = after"
  proof (cases "fingerprint before = fingerprint after")
    case True
    then show ?thesis using assms by (simp add: inj_eq)
  next
    case False
    have if_Nil: "(if b then [x] else []) = [] \<longleftrightarrow> \<not> b" for b and x :: diff_category by simp
    have "plan_clauses before = plan_clauses after \<and> plan_sets before = plan_sets after"
      using none False unfolding classify_plan_diff_def Let_def append_is_Nil_conv if_Nil if_not_P [OF False]
      by (intro conjI clauses.equality) simp_all
    then show ?thesis by (simp add: plan.expand)
  qed
qed (simp add: classify_plan_diff_def)

lemma no_difference_unclassified_witness:
  "classify_plan_diff id chained_plan compared_plan \<noteq> []"
  using no_difference_unclassified [of id chained_plan compared_plan] by (simp add: chained_plan_def compared_plan_def)

lemma companion_not_itself: "\<not> lists_the_ranked_records dumps p p"
  by (simp add: lists_the_ranked_records_def ranks_groups_def)

lemma restricted_companion_allowed:
  assumes "l \<in> set (plan_leaves listed)" and "dumps l \<notin> filter_keys dumps ranked"
  shows "\<not> lists_the_ranked_records dumps ranked listed"
proof -
  have "dumps l \<in> filter_keys dumps listed"
    using assms(1) by (cases "on_plan q_filters listed") (auto simp: filter_keys_def plan_leaves_def)
  then show ?thesis using assms(2) by (auto simp: lists_the_ranked_records_def)
qed

end
