(* ===== verification/Context_Budget.thy ===== *)
theory Context_Budget
  imports Coord_Types
begin

text \<open>
  The budget of a coordinator prompt (app/conversation/coordinator/context_budget.py): earlier lines
  of the conversation and observations are dropped in a fixed order until the input fits. What a text
  costs is the provider's tokenizer, and what the prompt renders is text; both are parameters.
\<close>

subsection \<open>Budgets and measures\<close>

record context_budget =
  cb_total_tokens :: int
  cb_total_bytes :: int
  cb_observations :: int
  cb_business :: int
  cb_documents :: int
  cb_restored :: int
  cb_history :: int
  cb_reserve :: int
  cb_margin :: int

definition default_budget :: context_budget where
  "default_budget =
     \<lparr>cb_total_tokens = 20000, cb_total_bytes = 65536, cb_observations = 8000, cb_business = 3500,
      cb_documents = 2500, cb_restored = 8000, cb_history = 6000, cb_reserve = 0, cb_margin = 1024\<rparr>"

text \<open>The counter of a provider: the tokens of one message, of the rendered lines of a history, and
  the tokens and bytes of the prompt rendered with a history and observations, with its tools.\<close>

record meter =
  mt_capacity :: int
  mt_message :: "string \<Rightarrow> int"
  mt_history :: "history_line list \<Rightarrow> int"
  mt_dumps_rows :: "(string, cell) dict list \<Rightarrow> string"
  mt_dumps_identity :: "row_identity \<Rightarrow> string"
  mt_input :: "history_line list \<Rightarrow> observation list \<Rightarrow> int \<times> int"

definition observation_tokens :: "meter \<Rightarrow> observation \<Rightarrow> int" where
  "observation_tokens m ob =
     mt_message m
       (ob_summary ob @
        (if ob_rows ob = [] then []
         else char_of (10 :: nat) # mt_dumps_rows m (ob_rows ob) @
           (case ob_identity ob of None \<Rightarrow> [] | Some i \<Rightarrow> char_of (10 :: nat) # mt_dumps_identity m i)))"

subsection \<open>Pruning\<close>

fun prune_history :: "meter \<Rightarrow> int \<Rightarrow> history_line list \<Rightarrow> string list \<Rightarrow> history_line list \<times> string list" where
  "prune_history m budget [] omissions = ([], omissions)"
| "prune_history m budget (h # hs) omissions =
     (if mt_history m (h # hs) \<le> budget then (h # hs, omissions)
      else prune_history m budget hs (omissions @ [''history:'' @ hl_exchange h]))"

definition of_kind :: "tool_kind \<Rightarrow> observation list \<Rightarrow> observation list" where
  "of_kind k obs = filter (\<lambda>ob. ob_kind ob = Acted k) obs"

definition business_tokens :: "meter \<Rightarrow> observation list \<Rightarrow> int" where
  "business_tokens m obs = sum_list (map (observation_tokens m) (of_kind Query_business obs))"

definition document_tokens :: "meter \<Rightarrow> observation list \<Rightarrow> int" where
  "document_tokens m obs = sum_list (map (\<lambda>ob. mt_message m (ob_summary ob)) (of_kind Search_documents obs))"

definition restored_tokens :: "meter \<Rightarrow> observation list \<Rightarrow> int" where
  "restored_tokens m obs = sum_list (map (observation_tokens m) (of_kind Explain_sources obs))"

definition all_tokens :: "meter \<Rightarrow> observation list \<Rightarrow> int" where
  "all_tokens m obs = business_tokens m obs + document_tokens m obs + restored_tokens m obs"

definition within_kinds :: "context_budget \<Rightarrow> meter \<Rightarrow> observation list \<Rightarrow> bool" where
  "within_kinds b m obs \<longleftrightarrow>
     business_tokens m obs \<le> cb_business b \<and> document_tokens m obs \<le> cb_documents b \<and>
     restored_tokens m obs \<le> cb_restored b \<and> all_tokens m obs \<le> cb_observations b"

definition has_rows :: "observation \<Rightarrow> bool" where
  "has_rows ob \<longleftrightarrow>
     (ob_kind ob = Acted Query_business \<or> ob_kind ob = Acted Explain_sources) \<and> ob_rows ob \<noteq> []"

text \<open>The first observation with rows loses them.\<close>

fun clear_first_rows :: "observation list \<Rightarrow> (observation list \<times> string) option" where
  "clear_first_rows [] = None"
| "clear_first_rows (ob # obs) =
     (if has_rows ob then Some (ob\<lparr>ob_rows := []\<rparr> # obs, ''obs:'' @ ob_action ob @ '':rows'')
      else map_option (\<lambda>(obs1, note'). (ob # obs1, note')) (clear_first_rows obs))"

definition over_rows :: "context_budget \<Rightarrow> meter \<Rightarrow> observation list \<Rightarrow> bool" where
  "over_rows b m obs \<longleftrightarrow>
     cb_business b < business_tokens m obs \<or> cb_restored b < restored_tokens m obs \<or>
     cb_observations b < all_tokens m obs"

definition prune_kinds_step :: "context_budget \<Rightarrow> meter \<Rightarrow> observation list \<Rightarrow> observation list \<times> string" where
  "prune_kinds_step b m obs =
     (case clear_first_rows obs of
        Some (obs1, omitted) \<Rightarrow>
          if over_rows b m obs then (obs1, omitted) else (tl obs, ''obs:'' @ ob_action (hd obs))
      | None \<Rightarrow> (tl obs, ''obs:'' @ ob_action (hd obs)))"

text \<open>Each round drops an observation or the rows of one.\<close>

definition prunable :: "observation list \<Rightarrow> nat" where
  "prunable obs = length obs + length (filter has_rows obs)"

lemma clear_first_prunable: "clear_first_rows obs = Some (obs1, omitted) \<Longrightarrow> prunable obs1 < prunable obs"
  by (induction obs arbitrary: obs1) (auto simp: prunable_def has_rows_def split: if_splits)

lemma tl_prunable: "obs \<noteq> [] \<Longrightarrow> prunable (tl obs) < prunable obs"
  by (cases obs) (auto simp: prunable_def)

lemma prune_kinds_step_prunable: "obs \<noteq> [] \<Longrightarrow> prunable (fst (prune_kinds_step b m obs)) < prunable obs"
  using tl_prunable [of obs] clear_first_prunable [of obs]
  by (auto simp: prune_kinds_step_def split: option.splits)

function prune_observations :: "context_budget \<Rightarrow> meter \<Rightarrow> observation list \<Rightarrow> string list \<Rightarrow> observation list \<times> string list" where
  "prune_observations b m obs omissions =
     (if obs = [] then ([], omissions)
      else if within_kinds b m obs then (obs, omissions)
      else prune_observations b m (fst (prune_kinds_step b m obs)) (omissions @ [snd (prune_kinds_step b m obs)]))"
  by pat_completeness auto

termination
  by (relation "measure (\<lambda>(b, m, obs, omissions). prunable obs)") (simp_all add: prune_kinds_step_prunable)

declare prune_observations.simps [simp del]

type_synonym retained = "history_line list \<times> observation list"

definition prune_one_step :: "retained \<Rightarrow> (retained \<times> string) option" where
  "prune_one_step r =
     (case r of
        (h # hs, obs) \<Rightarrow> Some ((hs, obs), ''history:'' @ hl_exchange h)
      | ([], obs) \<Rightarrow>
          (case clear_first_rows obs of
             Some (obs1, omitted) \<Rightarrow> Some (([], obs1), omitted)
           | None \<Rightarrow>
               (case obs of [] \<Rightarrow> None | ob # rest \<Rightarrow> Some (([], rest), ''obs:'' @ ob_action ob))))"

subsection \<open>The budgeted input\<close>

record budgeted_input =
  bi_history :: "history_line list"
  bi_observations :: "observation list"
  bi_tokens :: int
  bi_bytes :: int
  bi_evidence :: "string list"
  bi_omissions :: "string list"

datatype budget_result = Budgeted budgeted_input | Too_large int int bool

definition max_tokens :: "context_budget \<Rightarrow> meter \<Rightarrow> int" where
  "max_tokens b m = min (cb_total_tokens b) (mt_capacity m - cb_reserve b - cb_margin b)"

definition fits :: "context_budget \<Rightarrow> meter \<Rightarrow> retained \<Rightarrow> bool" where
  "fits b m r \<longleftrightarrow>
     fst (mt_input m (fst r) (snd r)) \<le> max_tokens b m \<and> snd (mt_input m (fst r) (snd r)) \<le> cb_total_bytes b"

definition left_over :: "retained \<Rightarrow> nat" where
  "left_over r = length (fst r) + prunable (snd r)"

lemma prunable_Cons: "prunable (ob # obs) = prunable obs + (if has_rows ob then 2 else 1)"
  by (simp add: prunable_def)

lemma prune_one_left: "prune_one_step r = Some (r1, omitted) \<Longrightarrow> left_over r1 < left_over r"
  by (auto simp: prune_one_step_def left_over_def prunable_Cons simp del: clear_first_rows.simps
      split: prod.splits list.splits option.splits dest: clear_first_prunable)

function fit_input :: "context_budget \<Rightarrow> meter \<Rightarrow> retained \<Rightarrow> string list \<Rightarrow> budget_result" where
  "fit_input b m r omissions =
     (let measured = mt_input m (fst r) (snd r) in
      if fits b m r then
        Budgeted \<lparr>bi_history = fst r, bi_observations = snd r, bi_tokens = fst measured, bi_bytes = snd measured,
          bi_evidence = concat (map ob_evidence (snd r)), bi_omissions = omissions\<rparr>
      else
        (case prune_one_step r of
           None \<Rightarrow> Too_large (fst measured) (snd measured) True
         | Some step \<Rightarrow> fit_input b m (fst step) (omissions @ [snd step])))"
  by pat_completeness auto

termination
  by (relation "measure (\<lambda>(b, m, r, omissions). left_over r)") (auto simp: prune_one_left)

declare fit_input.simps [simp del]

definition build_budgeted_input ::
    "context_budget \<Rightarrow> meter \<Rightarrow> coord_context \<Rightarrow> observation list \<Rightarrow> budget_result" where
  "build_budgeted_input b m context observations =
     (let mandatory = mt_input m [] [] in
      if max_tokens b m < fst mandatory \<or> cb_total_bytes b < snd mandatory
      then Too_large (fst mandatory) (snd mandatory) True
      else
        (case prune_history m (cb_history b) (cx_history context) [] of (history, omissions1) \<Rightarrow>
         case prune_observations b m observations omissions1 of (obs, omissions2) \<Rightarrow>
           fit_input b m (history, obs) omissions2))"

subsection \<open>What a budgeted input promises\<close>

definition thinned :: "observation \<Rightarrow> observation \<Rightarrow> bool" where
  "thinned ob ob1 \<longleftrightarrow> ob1 = ob \<or> (has_rows ob \<and> ob1 = ob\<lparr>ob_rows := []\<rparr>)"

lemma thinned_refl [simp]: "thinned ob ob" by (simp add: thinned_def)

lemma thinned_action [simp]: "thinned ob ob1 \<Longrightarrow> ob_action ob1 = ob_action ob" by (auto simp: thinned_def)

lemma cleared [simp]: "\<not> has_rows (ob\<lparr>ob_rows := []\<rparr>)" by (simp add: has_rows_def)

lemma thinned_trans: "thinned a b \<Longrightarrow> thinned b c \<Longrightarrow> thinned a c"
  by (metis thinned_def cleared)

lemma thinned_clear: "has_rows ob \<Longrightarrow> thinned ob (ob\<lparr>ob_rows := []\<rparr>)"
  unfolding thinned_def by blast

lemma zip_self: "(x, y) \<in> set (zip xs xs) \<Longrightarrow> y = x"
  by (auto simp: zip_same_conv_map)

text \<open>What is left of the observations, with a name for each that was dropped or lost its rows.\<close>

definition dropped_note :: "observation \<Rightarrow> string" where
  "dropped_note ob = ''obs:'' @ ob_action ob"

definition rows_note :: "observation \<Rightarrow> string" where
  "rows_note ob = ''obs:'' @ ob_action ob @ '':rows''"

definition accounted :: "observation list \<Rightarrow> string list \<Rightarrow> observation list \<Rightarrow> bool" where
  "accounted obs0 omissions obs \<longleftrightarrow>
     (\<exists>k. list_all2 thinned (drop k obs0) obs \<and> dropped_note ` set (take k obs0) \<subseteq> set omissions \<and>
       (\<forall>(ob, ob1)\<in>set (zip (drop k obs0) obs). ob1 = ob \<or> rows_note ob \<in> set omissions))"

lemma accounted_start: "accounted obs omissions obs"
  unfolding accounted_def by (rule exI [of _ 0]) (auto simp: list.rel_refl set_zip)

lemma accounted_more: "accounted obs0 omissions obs \<Longrightarrow> set omissions \<subseteq> set omissions1 \<Longrightarrow> accounted obs0 omissions1 obs"
  unfolding accounted_def by (elim exE) (rule exI, fastforce)

lemma accounted_tl:
  assumes "accounted obs0 omissions (ob # obs)"
  shows "accounted obs0 (omissions @ [dropped_note ob]) obs"
proof -
  from assms obtain k where k: "list_all2 thinned (drop k obs0) (ob # obs)" "dropped_note ` set (take k obs0) \<subseteq> set omissions"
      "\<forall>(o1, o2)\<in>set (zip (drop k obs0) (ob # obs)). o2 = o1 \<or> rows_note o1 \<in> set omissions"
    unfolding accounted_def by blast
  then obtain x xs where x: "drop k obs0 = x # xs" "thinned x ob" "list_all2 thinned xs obs"
    by (auto simp: list_all2_Cons2)
  then have "drop (Suc k) obs0 = xs" by (metis drop_Suc list.sel(3) tl_drop)
  moreover have "take (Suc k) obs0 = take k obs0 @ [x]"
    using x(1) by (metis drop_all list.discI not_le_imp_less nth_via_drop take_Suc_conv_app_nth)
  ultimately show ?thesis
    unfolding accounted_def using k(2,3) x by (intro exI [of _ "Suc k"]) (auto simp: dropped_note_def)
qed

lemma clear_first_zip:
  "clear_first_rows obs = Some (obs1, omitted) \<Longrightarrow>
     list_all2 thinned obs obs1 \<and> (\<forall>(ob, ob1)\<in>set (zip obs obs1). ob1 = ob \<or> rows_note ob = omitted)"
proof (induction obs arbitrary: obs1)
  case Nil
  then show ?case by simp
next
  case (Cons ob obs)
  show ?case
  proof (cases "has_rows ob")
    case True
    then have "obs1 = ob\<lparr>ob_rows := []\<rparr> # obs" "omitted = rows_note ob"
      using Cons.prems by (simp_all add: rows_note_def)
    moreover have "list_all2 thinned obs obs" by (simp add: list.rel_refl)
    ultimately show ?thesis using thinned_clear [OF True] by (auto dest: zip_self)
  next
    case False
    then show ?thesis using Cons by auto
  qed
qed

lemma zip_trans:
  assumes "list_all2 P xs ys" and "list_all2 Q ys zs" and "(x, z) \<in> set (zip xs zs)"
  shows "\<exists>y. (x, y) \<in> set (zip xs ys) \<and> (y, z) \<in> set (zip ys zs)"
  using assms by (auto simp: set_zip list_all2_conv_all_nth)

lemma rows_note_thinned: "thinned a b \<Longrightarrow> rows_note b = rows_note a"
  by (simp add: rows_note_def)

lemma accounted_clear:
  assumes "accounted obs0 omissions obs" and "clear_first_rows obs = Some (obs1, omitted)"
  shows "accounted obs0 (omissions @ [omitted]) obs1"
proof -
  from assms(1) obtain k where k: "list_all2 thinned (drop k obs0) obs" "dropped_note ` set (take k obs0) \<subseteq> set omissions"
      "\<forall>(o1, o2)\<in>set (zip (drop k obs0) obs). o2 = o1 \<or> rows_note o1 \<in> set omissions"
    unfolding accounted_def by blast
  note c = clear_first_zip [OF assms(2)]
  have "list_all2 thinned (drop k obs0) obs1"
    by (rule list_all2_trans [OF thinned_trans k(1) conjunct1 [OF c]])
  moreover have "ob1 = ob \<or> rows_note ob \<in> set (omissions @ [omitted])" if z: "(ob, ob1) \<in> set (zip (drop k obs0) obs1)" for ob ob1
  proof -
    obtain y where y: "(ob, y) \<in> set (zip (drop k obs0) obs)" "(y, ob1) \<in> set (zip obs obs1)"
      using zip_trans [OF k(1) conjunct1 [OF c] z] by blast
    have "thinned ob y" using k(1) y(1) by (auto simp: list_all2_iff)
    then show ?thesis using y k(3) c rows_note_thinned by fastforce
  qed
  ultimately show ?thesis unfolding accounted_def using k(2) by (intro exI [of _ k]) auto
qed

lemma prune_kinds_step_accounted:
  assumes "accounted obs0 omissions obs" and "obs \<noteq> []"
  shows "accounted obs0 (omissions @ [snd (prune_kinds_step b m obs)]) (fst (prune_kinds_step b m obs))"
proof -
  obtain ob rest where obs: "obs = ob # rest" using assms(2) by (cases obs) auto
  have "accounted obs0 (omissions @ [dropped_note ob]) rest" using accounted_tl assms(1) obs by blast
  then show ?thesis
    using accounted_clear [OF assms(1)]
    by (auto simp: prune_kinds_step_def obs dropped_note_def simp del: clear_first_rows.simps split: option.splits)
qed

lemma prune_observations_spec:
  "accounted obs0 omissions obs \<Longrightarrow> prune_observations b m obs omissions = (obs1, omissions1) \<Longrightarrow>
     accounted obs0 omissions1 obs1 \<and> set omissions \<subseteq> set omissions1 \<and> (obs1 = [] \<or> within_kinds b m obs1)"
proof (induction b m obs omissions rule: prune_observations.induct)
  case (1 b m obs omissions)
  show ?case
  proof (cases "obs = [] \<or> within_kinds b m obs")
    case True
    then show ?thesis using "1.prems" by (auto simp: prune_observations.simps [of b m obs] split: if_splits)
  next
    case False
    then have "prune_observations b m (fst (prune_kinds_step b m obs)) (omissions @ [snd (prune_kinds_step b m obs)]) =
        (obs1, omissions1)"
      using "1.prems"(2) by (simp add: prune_observations.simps [of b m obs])
    then show ?thesis
      using "1.IH" [OF _ _ prune_kinds_step_accounted [OF "1.prems"(1)]] False by auto
  qed
qed

lemma prune_history_spec:
  "prune_history m budget hs omissions = (hs1, omissions1) \<Longrightarrow>
     \<exists>k. hs1 = drop k hs \<and> omissions1 = omissions @ map (\<lambda>h. ''history:'' @ hl_exchange h) (take k hs) \<and>
       (hs1 = [] \<or> mt_history m hs1 \<le> budget)"
proof (induction hs arbitrary: omissions)
  case Nil
  then show ?case by simp
next
  case (Cons h hs)
  show ?case
  proof (cases "mt_history m (h # hs) \<le> budget")
    case True
    then show ?thesis using Cons.prems by (intro exI [of _ 0]) auto
  next
    case False
    then obtain k where "hs1 = drop k hs" "omissions1 = (omissions @ [''history:'' @ hl_exchange h]) @
        map (\<lambda>h. ''history:'' @ hl_exchange h) (take k hs)" "hs1 = [] \<or> mt_history m hs1 \<le> budget"
      using Cons.IH Cons.prems by fastforce
    then show ?thesis by (intro exI [of _ "Suc k"]) simp
  qed
qed

definition history_note :: "history_line \<Rightarrow> string" where
  "history_note h = ''history:'' @ hl_exchange h"

definition history_accounted :: "history_line list \<Rightarrow> string list \<Rightarrow> history_line list \<Rightarrow> bool" where
  "history_accounted hs0 omissions hs \<longleftrightarrow>
     (\<exists>k. hs = drop k hs0 \<and> history_note ` set (take k hs0) \<subseteq> set omissions)"

lemma history_accounted_more:
  "history_accounted hs0 omissions hs \<Longrightarrow> set omissions \<subseteq> set omissions1 \<Longrightarrow> history_accounted hs0 omissions1 hs"
  unfolding history_accounted_def by blast

lemma history_accounted_tl:
  assumes "history_accounted hs0 omissions (h # hs)"
  shows "history_accounted hs0 (omissions @ [history_note h]) hs"
proof -
  from assms obtain k where k: "h # hs = drop k hs0" "history_note ` set (take k hs0) \<subseteq> set omissions"
    unfolding history_accounted_def by blast
  then have "hs = drop (Suc k) hs0" by (metis drop_Suc list.sel(3) tl_drop)
  moreover have "take (Suc k) hs0 = take k hs0 @ [h]"
    using k(1) by (metis drop_all list.discI not_le_imp_less nth_via_drop take_Suc_conv_app_nth)
  ultimately show ?thesis unfolding history_accounted_def using k(2) by (intro exI [of _ "Suc k"]) auto
qed

lemma prune_one_None: "prune_one_step r = None \<longleftrightarrow> r = ([], [])"
  by (cases r; cases "fst r"; cases "clear_first_rows (snd r)"; cases "snd r")
    (auto simp: prune_one_step_def simp del: clear_first_rows.simps(2))

lemma prune_one_accounted:
  assumes "prune_one_step r = Some step" and "history_accounted hs0 omissions (fst r)" and "accounted obs0 omissions (snd r)"
  shows "history_accounted hs0 (omissions @ [snd step]) (fst (fst step)) \<and>
    accounted obs0 (omissions @ [snd step]) (snd (fst step))"
proof -
  obtain hs obs where r: "r = (hs, obs)" by (cases r)
  have more: "accounted obs0 (omissions @ [x]) obs" "history_accounted hs0 (omissions @ [x]) hs" for x
  proof -
    have sub: "set omissions \<subseteq> set (omissions @ [x])" by auto
    show "accounted obs0 (omissions @ [x]) obs" using accounted_more [OF assms(3) sub] r by simp
    show "history_accounted hs0 (omissions @ [x]) hs"
      using history_accounted_more [OF assms(2) sub] r by simp
  qed
  show ?thesis
  proof (cases hs)
    case (Cons h rest)
    then have "step = ((rest, obs), history_note h)" using assms(1) r by (simp add: prune_one_step_def history_note_def)
    then show ?thesis using more history_accounted_tl assms(2) r Cons by auto
  next
    case Nil
    show ?thesis
    proof (cases "clear_first_rows obs")
      case (Some c)
      then have "step = (([], fst c), snd c)" using assms(1) r Nil by (cases c) (simp add: prune_one_step_def)
      then show ?thesis using more(2) Nil accounted_clear [of obs0 omissions obs "fst c" "snd c"] assms(3) r Some by auto
    next
      case None
      then obtain ob rest where "obs = ob # rest" "step = (([], rest), dropped_note ob)"
        using assms(1) r Nil by (auto simp: prune_one_step_def dropped_note_def split: list.splits)
      then show ?thesis using more(2) Nil accounted_tl assms(3) r by auto
    qed
  qed
qed

lemma fit_input_spec:
  "history_accounted hs0 omissions (fst r) \<Longrightarrow> accounted obs0 omissions (snd r) \<Longrightarrow> fit_input b m r omissions = Budgeted i \<Longrightarrow>
     fits b m (bi_history i, bi_observations i) \<and>
     (bi_tokens i, bi_bytes i) = mt_input m (bi_history i) (bi_observations i) \<and>
     bi_evidence i = concat (map ob_evidence (bi_observations i)) \<and>
     history_accounted hs0 (bi_omissions i) (bi_history i) \<and> accounted obs0 (bi_omissions i) (bi_observations i)"
proof (induction b m r omissions rule: fit_input.induct)
  case (1 b m r omissions)
  show ?case
  proof (cases "fits b m r")
    case True
    then show ?thesis using "1.prems" by (auto simp: fit_input.simps [of b m r] Let_def)
  next
    case False
    then obtain step where step: "prune_one_step r = Some step" "fit_input b m (fst step) (omissions @ [snd step]) = Budgeted i"
      using "1.prems"(3) by (auto simp: fit_input.simps [of b m r] Let_def split: option.splits)
    note a = prune_one_accounted [OF step(1) "1.prems"(1,2)]
    show ?thesis using "1.IH" [OF refl False step(1) conjunct1 [OF a] conjunct2 [OF a] step(2)] by simp
  qed
qed

lemma fit_input_total:
  "fits b m ([], []) \<Longrightarrow> \<exists>i. fit_input b m r omissions = Budgeted i"
proof (induction b m r omissions rule: fit_input.induct)
  case (1 b m r omissions)
  show ?case
  proof (cases "fits b m r")
    case True
    then show ?thesis by (simp add: fit_input.simps [of b m r] Let_def)
  next
    case False
    then have "r \<noteq> ([], [])" using "1.prems" by auto
    then obtain step where step: "prune_one_step r = Some step"
      using prune_one_None [of r] by (cases "prune_one_step r") auto
    then show ?thesis using "1.IH" [OF refl False step "1.prems"] False
      by (simp add: fit_input.simps [of b m r] Let_def)
  qed
qed

text \<open>
  C26. A budgeted input fits and hides nothing: its tokens and bytes are those of the prompt rendered
  with what is retained and are within the ceilings; the history is a final part of the context's, the
  observations are a final part of the turn's, as they were or without their rows, and every line
  dropped, every observation dropped and every observation without its rows is named in the omissions.
\<close>

theorem budgeted_input_accounted:
  assumes "build_budgeted_input b m context observations = Budgeted i"
  shows "bi_tokens i \<le> max_tokens b m \<and> bi_bytes i \<le> cb_total_bytes b \<and>
    (bi_tokens i, bi_bytes i) = mt_input m (bi_history i) (bi_observations i) \<and>
    bi_evidence i = concat (map ob_evidence (bi_observations i)) \<and>
    (\<exists>k. bi_history i = drop k (cx_history context) \<and>
       history_note ` set (take k (cx_history context)) \<subseteq> set (bi_omissions i)) \<and>
    (\<exists>k. list_all2 thinned (drop k observations) (bi_observations i) \<and>
       dropped_note ` set (take k observations) \<subseteq> set (bi_omissions i) \<and>
       (\<forall>(ob, ob1)\<in>set (zip (drop k observations) (bi_observations i)). ob1 = ob \<or> rows_note ob \<in> set (bi_omissions i)))"
proof -
  obtain hs om1 where h: "prune_history m (cb_history b) (cx_history context) [] = (hs, om1)" by fastforce
  obtain obs om2 where o2: "prune_observations b m observations om1 = (obs, om2)" by fastforce
  have fit: "fit_input b m (hs, obs) om2 = Budgeted i"
    using assms h o2 by (auto simp: build_budgeted_input_def Let_def split: if_splits)
  have "history_accounted (cx_history context) om1 hs"
    using prune_history_spec [OF h] by (auto simp: history_accounted_def history_note_def)
  moreover note prune_observations_spec [OF accounted_start o2]
  ultimately have "history_accounted (cx_history context) om2 hs" "accounted observations om2 obs"
    using history_accounted_more by auto
  with fit_input_spec [of "cx_history context" om2 "(hs, obs)" observations b m i] fit
  have i: "fits b m (bi_history i, bi_observations i)"
     "(bi_tokens i, bi_bytes i) = mt_input m (bi_history i) (bi_observations i)"
     "bi_evidence i = concat (map ob_evidence (bi_observations i))"
     "history_accounted (cx_history context) (bi_omissions i) (bi_history i)"
     "accounted observations (bi_omissions i) (bi_observations i)" by simp_all
  have "bi_tokens i \<le> max_tokens b m" "bi_bytes i \<le> cb_total_bytes b"
    using i(1) i(2) [symmetric] by (simp_all add: fits_def)
  then show ?thesis using i(2,3) i(4) [unfolded history_accounted_def] i(5) [unfolded accounted_def] by blast
qed

text \<open>
  C27. The budget fails only for the mandatory input: an input is built exactly when the prompt without
  history and observations fits, and otherwise the measure of that prompt is returned.
\<close>

theorem input_built_iff_mandatory_fits:
  "case build_budgeted_input b m context observations of
     Budgeted i \<Rightarrow> fits b m ([], [])
   | Too_large tokens bytes mandatory_only \<Rightarrow>
       \<not> fits b m ([], []) \<and> (tokens, bytes) = mt_input m [] [] \<and> mandatory_only"
proof (cases "fits b m ([], [])")
  case True
  then have "\<not> (max_tokens b m < fst (mt_input m [] []) \<or> cb_total_bytes b < snd (mt_input m [] []))"
    by (auto simp: fits_def)
  then have "\<exists>i. build_budgeted_input b m context observations = Budgeted i"
    using fit_input_total [OF True] by (auto simp: build_budgeted_input_def Let_def case_prod_beta)
  then show ?thesis using True by auto
next
  case False
  then have "build_budgeted_input b m context observations =
      Too_large (fst (mt_input m [] [])) (snd (mt_input m [] [])) True"
    by (auto simp: build_budgeted_input_def fits_def Let_def)
  then show ?thesis using False by simp
qed

text \<open>A meter that counts characters and lines.\<close>

definition plain_meter :: meter where
  "plain_meter =
     \<lparr>mt_capacity = 2000, mt_message = (\<lambda>t. int (length t)), mt_history = (\<lambda>hs. int (length hs)),
      mt_dumps_rows = (\<lambda>rows. ''[]''), mt_dumps_identity = (\<lambda>i. ''{}''),
      mt_input = (\<lambda>hs obs. (700 * int (length hs), int (length obs)))\<rparr>"

definition short_context :: coord_context where
  "short_context =
     \<lparr>cx_turn = ''t1'', cx_question = ''Why?'',
      cx_history = [\<lparr>hl_exchange = ''e1'', hl_text = ''a''\<rparr>, \<lparr>hl_exchange = ''e2'', hl_text = ''b''\<rparr>],
      cx_candidates = 0, cx_unreachable = []\<rparr>"

lemma budgeted_input_accounted_witness:
  "\<exists>i. build_budgeted_input default_budget plain_meter short_context [] = Budgeted i \<and> bi_tokens i \<le> 976"
proof -
  have limit: "max_tokens default_budget plain_meter = 976"
    by (simp add: max_tokens_def default_budget_def plain_meter_def)
  have "fits default_budget plain_meter ([], [])"
    by (simp add: fits_def limit) (simp add: plain_meter_def default_budget_def)
  then obtain i where i: "build_budgeted_input default_budget plain_meter short_context [] = Budgeted i"
    using input_built_iff_mandatory_fits [of default_budget plain_meter short_context "[]"]
    by (cases "build_budgeted_input default_budget plain_meter short_context []") auto
  with budgeted_input_accounted [OF this] show ?thesis by (auto simp: limit)
qed

end
