(* ===== verification/Json.thy ===== *)
theory Json
  imports Prelude
begin

text \<open>
  The values \<open>json.loads\<close> gives, with a dictionary as an association list in insertion order.
  A tuple the code builds is a list here: nothing that reads it later tells the two apart.
\<close>

datatype json =
    JNull | JBool bool | JInt int | JFloat rat | JStr string
  | JList "json list" | JObj "(string \<times> json) list"

type_synonym jdict = "(string, json) dict"

text \<open>\<open>d.get(k)\<close>: a missing key reads as null.\<close>

definition jget :: "jdict \<Rightarrow> string \<Rightarrow> json" where
  "jget d k = (case dict_get d k of None \<Rightarrow> JNull | Some v \<Rightarrow> v)"

fun truthy :: "json \<Rightarrow> bool" where
  "truthy JNull = False"
| "truthy (JBool b) = b"
| "truthy (JInt n) = (n \<noteq> 0)"
| "truthy (JFloat q) = (q \<noteq> 0)"
| "truthy (JStr s) = (s \<noteq> [])"
| "truthy (JList xs) = (xs \<noteq> [])"
| "truthy (JObj d) = (d \<noteq> [])"

fun is_dict :: "json \<Rightarrow> bool" where
  "is_dict (JObj d) = True"
| "is_dict _ = False"

fun is_list :: "json \<Rightarrow> bool" where
  "is_list (JList xs) = True"
| "is_list _ = False"

fun is_jstr :: "json \<Rightarrow> bool" where
  "is_jstr (JStr s) = True"
| "is_jstr _ = False"

fun elements :: "json \<Rightarrow> json list" where
  "elements (JList xs) = xs"
| "elements _ = []"

fun entries :: "json \<Rightarrow> jdict" where
  "entries (JObj d) = d"
| "entries _ = []"

text \<open>Membership in a set of strings hashes the value first, which a list or a dict refuses.\<close>

datatype payload_error = Type_error | Value_error

definition in_string_set :: "json \<Rightarrow> string list \<Rightarrow> payload_error + bool" where
  "in_string_set v names =
     (if is_dict v \<or> is_list v then Inl Type_error else Inr (v \<in> JStr ` set names))"

text \<open>\<open>d[k] = d.pop(k')\<close> for a new key: the value moves to the end under its new name.\<close>

definition rename_key :: "jdict \<Rightarrow> string \<Rightarrow> string \<Rightarrow> jdict" where
  "rename_key d old new = dict_set (dict_del d old) new (jget d old)"

text \<open>The first of some aliases that is present takes the canonical name.\<close>

definition first_alias :: "string list \<Rightarrow> string \<Rightarrow> jdict \<Rightarrow> jdict" where
  "first_alias aliases canonical d =
     (if dict_has d canonical then d
      else case filter (dict_has d) aliases of
        [] \<Rightarrow> d
      | a # _ \<Rightarrow> rename_key d a canonical)"

lemma jget_set [simp]: "jget (dict_set d k v) k' = (if k' = k then v else jget d k')"
  by (simp add: jget_def update_conv')

lemma jget_del [simp]: "jget (dict_del d k) k' = (if k' = k then JNull else jget d k')"
  by (simp add: jget_def delete_conv')

lemma jget_missing: "\<not> dict_has d k \<Longrightarrow> jget d k = JNull"
  by (simp add: jget_def dict_has_iff)

lemma is_dictE: "is_dict v \<Longrightarrow> (\<And>d. v = JObj d \<Longrightarrow> P) \<Longrightarrow> P"
  by (cases v) auto

lemma is_listE: "is_list v \<Longrightarrow> (\<And>xs. v = JList xs \<Longrightarrow> P) \<Longrightarrow> P"
  by (cases v) auto

lemma elements_no_list: "\<not> is_list v \<Longrightarrow> elements v = []"
  by (cases v) auto

lemma is_dict_entries: "is_dict v \<Longrightarrow> JObj (entries v) = v"
  by (cases v) auto

lemma dict_set_same: "dict_has d k \<Longrightarrow> dict_set d k (jget d k) = d"
  by (rule update_Some_same) (auto simp: jget_def dict_has_iff)

lemma dict_del_missing: "\<not> dict_has d k \<Longrightarrow> dict_del d k = d"
  by (induction d) (auto simp: dict_has_def)

lemma jget_has: "jget d k = v \<Longrightarrow> v \<noteq> JNull \<Longrightarrow> dict_has d k"
  using jget_missing by blast

lemma jget_same_eq: "jget d k = v \<Longrightarrow> v \<noteq> JNull \<Longrightarrow> dict_set d k v = d"
  using dict_set_same [of d k] jget_missing by metis

lemma first_alias_has: "dict_has (first_alias as c d) c \<or> first_alias as c d = d \<and> filter (dict_has d) as = []"
  by (auto simp: first_alias_def rename_key_def split: list.splits)

lemma first_alias_idem [simp]: "first_alias as c (first_alias as c d) = first_alias as c d"
  using first_alias_has [of as c d] by (auto simp: first_alias_def)

lemma first_alias_other:
  assumes "k \<notin> set as" and "k \<noteq> c"
  shows "jget (first_alias as c d) k = jget d k" "dict_has (first_alias as c d) k = dict_has d k"
  using assms by (auto simp: first_alias_def rename_key_def split: list.splits dest!: filter_ConsD)

subsection \<open>Size\<close>

lemma size_json_member: "x \<in> set xs \<Longrightarrow> size x < size (JList xs)"
  by (induction xs) auto

lemma size_json_value: "dict_get d k = Some v \<Longrightarrow> size v < size (JObj d)"
  by (induction d) (auto split: if_splits)

lemma size_json_get: "d \<noteq> [] \<Longrightarrow> size (jget d k) < size (JObj d)"
  by (cases "dict_get d k") (auto simp: jget_def dest: size_json_value)

lemma size_json_child:
  assumes "x \<in> set (elements (jget d k))"
  shows "size x < size (JObj d)"
proof -
  from assms obtain xs where xs: "dict_get d k = Some (JList xs)" "x \<in> set xs"
    by (cases "jget d k") (auto simp: jget_def split: option.splits)
  then show ?thesis using size_json_member [OF xs(2)] size_json_value [OF xs(1)] by simp
qed

lemma size_json_element: "x \<in> set (elements (jget (entries v) k)) \<Longrightarrow> size x < size v"
proof (cases v)
  case (JObj d)
  then show "x \<in> set (elements (jget (entries v) k)) \<Longrightarrow> size x < size v"
    using size_json_child [of x d k] by simp
qed (simp_all add: jget_def)

end
