(* ===== verification/Plan_Payload.thy ===== *)
theory Plan_Payload
  imports Json
begin

text \<open>
  How the raw payload of a plan is normalised before its fields are validated
  (the \<open>mode="before"\<close> validators of app/business_query/plan/query_plan.py and filter_tree.py): aliases
  and operator spellings, filter groups without conditions, date filters that become a period.
\<close>

subsection \<open>Filter nodes\<close>

definition is_group_dict :: "jdict \<Rightarrow> bool" where
  "is_group_dict d \<longleftrightarrow> dict_has d ''all'' \<or> dict_has d ''any''"

text \<open>\<open>_normalize_filter_group\<close> and \<open>_normalize_filter_node\<close>.\<close>

definition canonical_operator :: "jdict \<Rightarrow> payload_error + jdict" where
  "canonical_operator d =
     (if jget d ''operator'' = JStr ''>'' then Inr (dict_set d ''operator'' (JStr ''gt''))
      else rbind (in_string_set (jget d ''operator'') [''equals'', ''='']) (\<lambda>eq.
        Inr (if eq then dict_set d ''operator'' (JStr ''eq'') else d)))"

definition set_branch :: "string \<Rightarrow> json list option \<Rightarrow> jdict \<Rightarrow> jdict" where
  "set_branch k members d = (case members of None \<Rightarrow> d | Some ms \<Rightarrow> dict_set d k (JList ms))"

function normalize_filter_group :: "json \<Rightarrow> payload_error + json"
  and normalize_filter_node :: "json \<Rightarrow> payload_error + json" where
  "normalize_filter_group g =
     (case g of
        JList nodes \<Rightarrow> rbind (rmap normalize_filter_node nodes) (\<lambda>ns. Inr (JObj [(''all'', JList ns)]))
      | JObj d \<Rightarrow>
          rbind (if is_list (jget d ''all'')
                 then rbind (rmap normalize_filter_node (elements (jget d ''all''))) (\<lambda>ns. Inr (Some ns))
                 else Inr None) (\<lambda>all_nodes.
          rbind (if is_list (jget d ''any'')
                 then rbind (rmap normalize_filter_node (elements (jget d ''any''))) (\<lambda>ns. Inr (Some ns))
                 else Inr None) (\<lambda>any_nodes.
          Inr (JObj (set_branch ''any'' any_nodes (set_branch ''all'' all_nodes d)))))
      | _ \<Rightarrow> Inr g)"
| "normalize_filter_node node =
     (if \<not> is_dict node then Inr node
      else if is_group_dict (entries node) then normalize_filter_group node
      else rbind (canonical_operator
                    (first_alias [''dimension'', ''field'', ''name''] ''member'' (entries node)))
             (\<lambda>d. Inr (JObj d)))"
  by pat_completeness auto

termination
proof (relation "measure (\<lambda>x. case x of Inl g \<Rightarrow> 2 * size g | Inr n \<Rightarrow> 2 * size n + 1)", goal_cases)
  case 1
  show ?case by simp
next
  case (2 g nodes n)
  then show ?case using size_json_member [of n nodes] by simp
next
  case (3 g d n)
  then show ?case using size_json_child [of n d "''all''"] by simp
next
  case (4 g d a n)
  then show ?case using size_json_child [of n d "''any''"] by simp
next
  case (5 node)
  then show ?case by simp
qed

declare normalize_filter_group.simps [simp del] normalize_filter_node.simps [simp del]

text \<open>\<open>_is_neutral_group_node\<close>: a group without a condition.\<close>

function is_neutral_group_node :: "json \<Rightarrow> bool" where
  "is_neutral_group_node node =
     (is_dict node \<and> is_group_dict (entries node) \<and>
      \<not> list_ex (dict_has (entries node)) [''member'', ''operator'', ''values'', ''value''] \<and>
      (let d = entries node in
       (jget d ''all'' = JNull \<or> is_list (jget d ''all'') \<and>
          list_all is_neutral_group_node (elements (jget d ''all''))) \<and>
       (jget d ''any'' = JNull \<or> is_list (jget d ''any'') \<and>
          list_all is_neutral_group_node (elements (jget d ''any'')))))"
  by pat_completeness auto

termination
proof (relation "measure size", goal_cases)
  case 1
  show ?case by simp
next
  case (2 node d n)
  then show ?case using size_json_element by simp
next
  case (3 node d n)
  then show ?case using size_json_element by simp
qed

declare is_neutral_group_node.simps [simp del]

subsection \<open>Date filters\<close>

text \<open>\<open>_as_period\<close>: the period a date filter stands for.\<close>

definition as_period :: "jdict \<Rightarrow> payload_error + jdict option" where
  "as_period entry =
     (let operator = jget entry ''operator''; vs = elements (jget entry ''values'');
          time_dimension = (''time_dimension'', jget entry ''member'') in
      if \<not> is_list (jget entry ''values'') \<or> vs = [] then Inr None
      else if operator = JStr ''between'' \<and> length vs = 2
        then Inr (Some [(''between'', JList [vs ! 0, vs ! 1]), time_dimension])
      else rbind (in_string_set operator [''since'', ''on'']) (\<lambda>single.
        Inr (if single
             then case operator of JStr name \<Rightarrow> Some [(name, vs ! 0), time_dimension] | _ \<Rightarrow> None
             else None)))"

text \<open>The members of a branch that stay, and the first period that left it.\<close>

fun split_dates :: "json list \<Rightarrow> payload_error + json list \<times> jdict option" where
  "split_dates [] = Inr ([], None)"
| "split_dates (e # es) =
     rbind (if is_dict e then as_period (entries e) else Inr None) (\<lambda>candidate.
     rbind (split_dates es) (\<lambda>(kept, found).
     Inr (case candidate of None \<Rightarrow> (e # kept, found) | Some period \<Rightarrow> (kept, Some period))))"

definition or_first :: "'a option \<Rightarrow> 'a option \<Rightarrow> 'a option" where
  "or_first a b = (case a of None \<Rightarrow> b | Some x \<Rightarrow> Some x)"

definition clean_branch :: "string \<Rightarrow> jdict \<Rightarrow> payload_error + jdict \<times> jdict option" where
  "clean_branch k grp =
     (if is_list (jget grp k)
      then rbind (split_dates (elements (jget grp k))) (\<lambda>(kept, found).
             Inr (dict_set grp k (JList kept), found))
      else Inr (grp, None))"

definition take_date_filters :: "jdict \<Rightarrow> payload_error + jdict \<times> jdict option" where
  "take_date_filters d =
     (if \<not> is_dict (jget d ''filters'') then Inr (d, None)
      else rbind (clean_branch ''all'' (entries (jget d ''filters''))) (\<lambda>(g1, first).
           rbind (clean_branch ''any'' g1) (\<lambda>(cleaned, second).
           Inr (case or_first first second of
                  None \<Rightarrow> (d, None)
                | Some period \<Rightarrow> (dict_set d ''filters'' (JObj cleaned), Some period)))))"

subsection \<open>The payload of a plan\<close>

definition collapse_period :: "jdict \<Rightarrow> jdict" where
  "collapse_period period =
     (if jget period ''between'' = JNull then period
      else filter (\<lambda>(k, v). k \<notin> {''since'', ''on'', ''relative''} \<or> v = JNull) period)"

definition normalize_filter_operators :: "jdict \<Rightarrow> payload_error + jdict" where
  "normalize_filter_operators d =
     rfold (\<lambda>d k. if jget d k = JNull then Inr d
                  else rbind (normalize_filter_group (jget d k)) (\<lambda>g. Inr (dict_set d k g)))
       d [''filters'', ''having'']"

definition clamp_limit :: "jdict \<Rightarrow> jdict" where
  "clamp_limit d =
     (case jget d ''limit'' of
        JInt n \<Rightarrow> dict_set d ''limit'' (JInt (min 50 (max 1 n)))
      | _ \<Rightarrow> d)"

definition list_as_all :: "string \<Rightarrow> jdict \<Rightarrow> jdict" where
  "list_as_all k d =
     (if is_list (jget d k) then dict_set d k (JObj [(''all'', jget d k)]) else d)"

definition neutral_as_null :: "string \<Rightarrow> jdict \<Rightarrow> jdict" where
  "neutral_as_null k d = (if is_neutral_group_node (jget d k) then dict_set d k JNull else d)"

definition place_period :: "jdict option \<Rightarrow> jdict \<Rightarrow> jdict" where
  "place_period lifted d =
     (case jget d ''period'' of
        JObj period \<Rightarrow> dict_set d ''period'' (JObj (collapse_period period))
      | JNull \<Rightarrow> (case lifted of None \<Rightarrow> d | Some period \<Rightarrow> dict_set d ''period'' (JObj period))
      | _ \<Rightarrow> d)"

definition collapse_comparison :: "jdict \<Rightarrow> jdict" where
  "collapse_comparison d =
     (case jget d ''compare_to'' of
        JObj period \<Rightarrow> dict_set d ''compare_to'' (JObj (collapse_period period))
      | _ \<Rightarrow> d)"

definition normalize_plan_fields :: "jdict \<Rightarrow> payload_error + jdict" where
  "normalize_plan_fields d =
     rbind (normalize_filter_operators d) (\<lambda>d.
     rbind (take_date_filters
              (neutral_as_null ''having'' (neutral_as_null ''filters''
                (list_as_all ''having'' (list_as_all ''filters'' (clamp_limit d)))))) (\<lambda>(d, lifted).
     Inr (collapse_comparison (place_period lifted
            (if lifted = None then d else neutral_as_null ''filters'' d)))))"

definition normalize_period_and_date_filters :: "json \<Rightarrow> payload_error + json" where
  "normalize_period_and_date_filters v =
     (case v of JObj d \<Rightarrow> rbind (normalize_plan_fields d) (\<lambda>d. Inr (JObj d)) | _ \<Rightarrow> Inr v)"

subsection \<open>Normalising twice changes nothing more\<close>

lemma canonical_operator_keys:
  "canonical_operator d = Inr d' \<Longrightarrow> dict_has d' k = dict_has d k"
  by (auto simp: canonical_operator_def in_string_set_def dict_has_iff jget_def update_conv'
      split: if_splits option.splits)

lemma canonical_operator_idem: "canonical_operator d = Inr d' \<Longrightarrow> canonical_operator d' = Inr d'"
  by (auto simp: canonical_operator_def in_string_set_def split: if_splits)

lemma first_alias_unchanged:
  "(\<And>k. dict_has d' k = dict_has (first_alias as c d) k) \<Longrightarrow> first_alias as c d' = d'"
  using first_alias_has [of as c d] by (auto simp: first_alias_def cong: filter_cong)

lemma jget_set_branch: "jget (set_branch k ms d) k' =
    (if k' = k \<and> ms \<noteq> None then JList (the ms) else jget d k')"
  by (auto simp: set_branch_def split: option.split)

lemma set_branch_same:
  "is_list (jget d k) \<Longrightarrow> set_branch k (Some (elements (jget d k))) d = d"
  by (cases "jget d k")
    (auto simp: set_branch_def jget_def update_Some_same split: option.splits)

definition branch_ok :: "jdict \<Rightarrow> string \<Rightarrow> json list option \<Rightarrow> bool" where
  "branch_ok d k m \<longleftrightarrow>
     (if is_list (jget d k) then (\<exists>ns. rmap normalize_filter_node (elements (jget d k)) = Inr ns \<and> m = Some ns)
      else m = None)"

lemma normalize_group_obj:
  "normalize_filter_group (JObj d) = Inr g' \<longleftrightarrow>
     (\<exists>a b. branch_ok d ''all'' a \<and> branch_ok d ''any'' b \<and>
            g' = JObj (set_branch ''any'' b (set_branch ''all'' a d)))"
  by (subst normalize_filter_group.simps) (auto simp: branch_ok_def)

lemma normalize_group_list:
  "normalize_filter_group (JList nodes) =
     rbind (rmap normalize_filter_node nodes) (\<lambda>ns. Inr (JObj [(''all'', JList ns)]))"
  by (subst normalize_filter_group.simps) simp

lemma normalize_group_other: "\<not> is_dict g \<Longrightarrow> \<not> is_list g \<Longrightarrow> normalize_filter_group g = Inr g"
  by (subst normalize_filter_group.simps) (cases g; simp)

lemma branch_ok_idem:
  assumes "branch_ok d k m"
    and "\<And>n n'. n \<in> set (elements (jget d k)) \<Longrightarrow> normalize_filter_node n = Inr n' \<Longrightarrow>
                 normalize_filter_node n' = Inr n'"
    and "jget d' k = (if m = None then jget d k else JList (the m))"
  shows "branch_ok d' k m"
  using assms by (auto simp: branch_ok_def rmap_idem split: if_splits)

lemma set_branch_id:
  "(\<And>ms. m = Some ms \<Longrightarrow> dict_get d k = Some (JList ms)) \<Longrightarrow> set_branch k m d = d"
  by (auto simp: set_branch_def update_Some_same split: option.split)

lemma dict_get_set_branch: "dict_get (set_branch k m d) k' =
    (if k' = k \<and> m \<noteq> None then Some (JList (the m)) else dict_get d k')"
  by (auto simp: set_branch_def update_conv' split: option.split)

lemma is_list_has: "is_list (jget d k) \<Longrightarrow> dict_has d k"
  by (auto simp: jget_def dict_has_iff split: option.splits)

lemma branch_ok_keys: "branch_ok d k m \<Longrightarrow> dict_has (set_branch k m d') k' \<longleftrightarrow>
    (if k' = k \<and> m \<noteq> None then dict_has d k else dict_has d' k')"
  by (auto simp: branch_ok_def set_branch_def is_list_has split: if_splits)

lemma normalize_group_keys:
  assumes "normalize_filter_group (JObj d) = Inr g'"
  shows "is_dict g' \<and> dict_has (entries g') k = dict_has d k"
proof -
  from assms obtain a b where ab: "branch_ok d ''all'' a" "branch_ok d ''any'' b"
    and g': "g' = JObj (set_branch ''any'' b (set_branch ''all'' a d))"
    by (auto simp: normalize_group_obj)
  show ?thesis
    by (simp add: g' branch_ok_keys [OF ab(1)] branch_ok_keys [OF ab(2)])
qed

lemma normalize_filter_idem:
  "normalize_filter_group g = Inr g' \<Longrightarrow> normalize_filter_group g' = Inr g'"
  "normalize_filter_node n = Inr n' \<Longrightarrow> normalize_filter_node n' = Inr n'"
proof (induction g and n arbitrary: g' and n'
    rule: normalize_filter_group_normalize_filter_node.induct)
  case (1 g)
  show ?case
  proof (cases g)
    case (JList nodes)
    with "1.prems" obtain ns where ns: "rmap normalize_filter_node nodes = Inr ns"
      "g' = JObj [(''all'', JList ns)]"
      by (auto simp: normalize_group_list)
    have "rmap normalize_filter_node ns = Inr ns"
      using rmap_idem [OF ns(1)] "1.IH"(1) [OF JList] by blast
    then show ?thesis
      by (simp add: ns(2) normalize_group_obj branch_ok_def)
         (simp add: jget_def set_branch_def)
  next
    case (JObj d)
    with "1.prems" obtain a b where ab: "branch_ok d ''all'' a" "branch_ok d ''any'' b"
      and g': "g' = JObj (set_branch ''any'' b (set_branch ''all'' a d))"
      by (auto simp: normalize_group_obj)
    let ?d = "set_branch ''any'' b (set_branch ''all'' a d)"
    have "branch_ok ?d ''all'' a"
    proof (rule branch_ok_idem [OF ab(1)])
      fix n n'
      assume n: "n \<in> set (elements (jget d ''all''))" "normalize_filter_node n = Inr n'"
      then have "is_list (jget d ''all'')" by (cases "jget d ''all''") auto
      from "1.IH"(2) [OF JObj this n(1) n(2)] show "normalize_filter_node n' = Inr n'" .
    qed (auto simp: jget_set_branch)
    moreover have "branch_ok ?d ''any'' b"
    proof (rule branch_ok_idem [OF ab(2)])
      fix n n'
      assume n: "n \<in> set (elements (jget d ''any''))" "normalize_filter_node n = Inr n'"
      then have "is_list (jget d ''any'')" by (cases "jget d ''any''") auto
      with "1.IH"(3) [OF JObj _ this n(1) n(2)] ab(1) show "normalize_filter_node n' = Inr n'"
        by (auto simp: branch_ok_def split: if_splits)
    qed (auto simp: jget_set_branch)
    moreover have "set_branch ''any'' b (set_branch ''all'' a ?d) = ?d"
      by (simp add: set_branch_id dict_get_set_branch)
    ultimately show ?thesis unfolding g' normalize_group_obj by metis
  qed (use "1.prems" in \<open>auto simp: normalize_group_other\<close>)
next
  case (2 node)
  show ?case
  proof (cases "is_dict node")
    case False
    then show ?thesis using "2.prems" by (simp add: normalize_filter_node.simps)
  next
    case True
    show ?thesis
    proof (cases "is_group_dict (entries node)")
      case group: True
      with True "2.prems" have g: "normalize_filter_group node = Inr n'"
        by (simp add: normalize_filter_node.simps)
      from "2.IH" [OF _ group g] True have "normalize_filter_group n' = Inr n'" by simp
      moreover have "is_dict n'" "is_group_dict (entries n')"
        using normalize_group_keys [of "entries node" n'] g group True
        by (simp_all add: is_dict_entries is_group_dict_def)
      ultimately show ?thesis by (simp add: normalize_filter_node.simps)
    next
      case leaf: False
      let ?d = "first_alias [''dimension'', ''field'', ''name''] ''member'' (entries node)"
      from leaf True "2.prems" obtain d' where d': "canonical_operator ?d = Inr d'" "n' = JObj d'"
        by (auto simp: normalize_filter_node.simps)
      note keys = canonical_operator_keys [OF d'(1)]
      have "\<not> is_group_dict d'" using leaf by (simp add: is_group_dict_def keys first_alias_other)
      then show ?thesis
        by (simp add: normalize_filter_node.simps d'(2) first_alias_unchanged [OF keys]
            canonical_operator_idem [OF d'(1)])
    qed
  qed
qed

text \<open>A normalised payload: what is left to do on each of its fields is nothing.\<close>

definition good_group :: "json \<Rightarrow> bool" where
  "good_group g \<longleftrightarrow>
     g = JNull \<or> normalize_filter_group g = Inr g \<and> \<not> is_list g \<and> \<not> is_neutral_group_node g"

definition without_dates :: "json \<Rightarrow> bool" where
  "without_dates g \<longleftrightarrow>
     (is_dict g \<longrightarrow> (\<exists>g1 g2. clean_branch ''all'' (entries g) = Inr (g1, None) \<and>
                          clean_branch ''any'' g1 = Inr (g2, None)))"

definition canonical_payload :: "jdict \<Rightarrow> bool" where
  "canonical_payload d \<longleftrightarrow>
     good_group (jget d ''filters'') \<and> good_group (jget d ''having'') \<and>
     without_dates (jget d ''filters'') \<and> clamp_limit d = d \<and>
     place_period None d = d \<and> collapse_comparison d = d"

lemma jget_same: "jget d k \<noteq> JNull \<Longrightarrow> dict_set d k (jget d k) = d"
  by (rule dict_set_same) (use jget_missing in blast)

lemma not_neutral_null [simp]: "\<not> is_neutral_group_node JNull"
  by (subst is_neutral_group_node.simps) simp

lemma take_without_dates:
  "without_dates (jget d ''filters'') \<Longrightarrow> take_date_filters d = Inr (d, None)"
  by (auto simp: without_dates_def take_date_filters_def or_first_def)

lemma canonical_payload_unchanged:
  assumes "canonical_payload d"
  shows "normalize_plan_fields d = Inr d"
proof -
  have groups: "good_group (jget d ''filters'')" "good_group (jget d ''having'')"
    using assms by (simp_all add: canonical_payload_def)
  then have "normalize_filter_operators d = Inr d"
    by (auto simp: normalize_filter_operators_def good_group_def jget_same)
  moreover have "neutral_as_null ''having'' (neutral_as_null ''filters''
                (list_as_all ''having'' (list_as_all ''filters'' d))) = d"
    using groups by (auto simp: good_group_def neutral_as_null_def list_as_all_def)
  moreover have "take_date_filters d = Inr (d, None)"
    using assms by (simp add: canonical_payload_def take_without_dates)
  ultimately show ?thesis
    using assms by (simp add: normalize_plan_fields_def canonical_payload_def)
qed

lemma split_dates_again:
  "split_dates es = Inr (kept, found) \<Longrightarrow>
     split_dates kept = Inr (kept, None) \<and> set kept \<subseteq> set es \<and> (found = None \<longrightarrow> kept = es)"
proof (induction es arbitrary: kept found)
  case Nil
  then show ?case by simp
next
  case (Cons e es)
  then show ?case by (fastforce split: option.splits if_splits)
qed

lemma as_period_collapsed: "as_period e = Inr (Some p) \<Longrightarrow> collapse_period p = p"
  by (auto simp: as_period_def Let_def collapse_period_def in_string_set_def jget_def
      split: if_splits json.splits)

lemma split_dates_collapsed: "split_dates es = Inr (kept, Some p) \<Longrightarrow> collapse_period p = p"
proof (induction es arbitrary: kept)
  case Nil
  then show ?case by simp
next
  case (Cons e es)
  then show ?case
    by (cases "is_dict e") (auto split: option.splits dest: as_period_collapsed)
qed

lemma clean_branch_facts:
  assumes "clean_branch k d = Inr (d', found)"
  shows "clean_branch k d' = Inr (d', None) \<and> (found = None \<longrightarrow> d' = d) \<and>
      set (elements (jget d' k)) \<subseteq> set (elements (jget d k)) \<and>
      is_list (jget d' k) = is_list (jget d k) \<and> (k' \<noteq> k \<longrightarrow> jget d' k' = jget d k') \<and>
      dict_has d' k' = dict_has d k' \<and> (found = Some p \<longrightarrow> collapse_period p = p)"
proof (cases "is_list (jget d k)")
  case True
  then obtain es where es: "jget d k = JList es" by (auto elim: is_listE)
  with assms obtain kept where kept: "split_dates es = Inr (kept, found)"
    and d': "d' = dict_set d k (JList kept)"
    by (auto simp: clean_branch_def)
  have same: "dict_set d k (JList es) = d" using jget_same [of d k] by (simp add: es)
  note again = split_dates_again [OF kept]
  have "dict_has d k" using True by (rule is_list_has)
  then show ?thesis
    using again same kept by (auto simp: clean_branch_def d' es dest: split_dates_collapsed [of es kept])
next
  case False
  with assms show ?thesis
    by (auto simp: clean_branch_def)
qed

lemma clean_branch_again:
  assumes "clean_branch k d = Inr (d', found)"
  shows "clean_branch k d' = Inr (d', None)" "found = None \<Longrightarrow> d' = d"
    "set (elements (jget d' k)) \<subseteq> set (elements (jget d k))"
    "is_list (jget d' k) = is_list (jget d k)"
    "k' \<noteq> k \<Longrightarrow> jget d' k' = jget d k'" "dict_has d' k' = dict_has d k'"
    "found = Some p \<Longrightarrow> collapse_period p = p"
  using clean_branch_facts [OF assms] by auto

lemma clean_branch_cong:
  assumes "clean_branch k d = Inr (d, None)" and "jget d' k = jget d k"
  shows "clean_branch k d' = Inr (d', None)"
proof (cases "is_list (jget d k)")
  case True
  then obtain es where es: "jget d k = JList es" by (auto elim: is_listE)
  with assms(1) obtain kept where "split_dates es = Inr (kept, None)" by (auto simp: clean_branch_def)
  with split_dates_again [OF this] have "split_dates es = Inr (es, None)" by simp
  moreover have "dict_set d' k (JList es) = d'" using jget_same [of d' k] assms(2) es by simp
  ultimately show ?thesis by (simp add: clean_branch_def assms(2) es)
next
  case False
  then show ?thesis by (simp add: clean_branch_def assms(2))
qed

lemma group_fixed_iff:
  "normalize_filter_group (JObj d) = Inr (JObj d) \<longleftrightarrow>
     (\<forall>k\<in>{''all'', ''any''}. \<forall>n\<in>set (elements (jget d k)). normalize_filter_node n = Inr n)"
    (is "?l \<longleftrightarrow> ?r")
proof
  assume ?l
  then obtain a b where ab: "branch_ok d ''all'' a" "branch_ok d ''any'' b"
    and d: "set_branch ''any'' b (set_branch ''all'' a d) = d"
    by (auto simp: normalize_group_obj)
  have "jget d ''all'' = (if a = None then jget d ''all'' else JList (the a))"
    "jget d ''any'' = (if b = None then jget d ''any'' else JList (the b))"
    by (subst d [symmetric], simp add: jget_set_branch)+
  with ab show ?r
    by (auto simp: branch_ok_def elements_no_list elim!: is_listE dest: rmap_fixed split: if_splits)
next
  assume ?r
  then have "rmap normalize_filter_node (elements (jget d ''all'')) = Inr (elements (jget d ''all''))"
    "rmap normalize_filter_node (elements (jget d ''any'')) = Inr (elements (jget d ''any''))"
    by (auto intro!: rmap_id)
  then have "branch_ok d k (if is_list (jget d k) then Some (elements (jget d k)) else None)"
    if "k \<in> {''all'', ''any''}" for k
    using that by (auto simp: branch_ok_def)
  from this [of "''all''"] this [of "''any''"] show ?l
    unfolding normalize_group_obj by (auto simp: set_branch_same set_branch_def [of _ None]
        intro!: exI split: if_splits)
qed

lemma cleaned_group:
  assumes "normalize_filter_group (JObj d) = Inr (JObj d)"
    and "clean_branch ''all'' d = Inr (d1, f1)" and "clean_branch ''any'' d1 = Inr (d2, f2)"
  shows "normalize_filter_group (JObj d2) = Inr (JObj d2)" "without_dates (JObj d2)"
    "f1 = None \<Longrightarrow> f2 = None \<Longrightarrow> d2 = d"
proof -
  note c1 = clean_branch_again [OF assms(2)] and c2 = clean_branch_again [OF assms(3)]
  have "jget d2 ''all'' = jget d1 ''all''" "jget d1 ''any'' = jget d ''any''"
    by (simp_all add: c1(5) c2(5))
  then have "set (elements (jget d2 k)) \<subseteq> set (elements (jget d k))" if "k \<in> {''all'', ''any''}" for k
    using that c1(3) c2(3) by auto
  with assms(1) show "normalize_filter_group (JObj d2) = Inr (JObj d2)"
    unfolding group_fixed_iff by blast
  have "clean_branch ''all'' d2 = Inr (d2, None)"
    by (rule clean_branch_cong [OF c1(1)]) (simp add: c2(5))
  with c2(1) show "without_dates (JObj d2)" by (simp add: without_dates_def)
  show "f1 = None \<Longrightarrow> f2 = None \<Longrightarrow> d2 = d" using c1(2) c2(2) by simp
qed

lemma jget_neutral_as_null: "jget (neutral_as_null k d) k' =
    (if k' = k \<and> is_neutral_group_node (jget d k) then JNull else jget d k')"
  by (simp add: neutral_as_null_def)

lemma jget_clamp_limit: "k \<noteq> ''limit'' \<Longrightarrow> jget (clamp_limit d) k = jget d k"
  by (simp add: clamp_limit_def split: json.split)

lemma jget_place_period: "k \<noteq> ''period'' \<Longrightarrow> jget (place_period lifted d) k = jget d k"
  by (simp add: place_period_def split: json.split option.split)

lemma jget_collapse_comparison: "k \<noteq> ''compare_to'' \<Longrightarrow> jget (collapse_comparison d) k = jget d k"
  by (simp add: collapse_comparison_def split: json.split)

lemma collapse_period_idem [simp]: "collapse_period (collapse_period p) = collapse_period p"
  by (simp add: collapse_period_def)

lemma clamp_limit_canonical:
  assumes "jget d ''limit'' = jget (clamp_limit d0) ''limit''"
  shows "clamp_limit d = d"
proof (cases "jget d0 ''limit''")
  case (JInt n)
  with assms have "jget d ''limit'' = JInt (min 50 (max 1 n))" by (simp add: clamp_limit_def)
  then show ?thesis by (simp add: clamp_limit_def jget_same_eq)
qed (use assms in \<open>simp_all add: clamp_limit_def\<close>)

lemma place_period_canonical:
  assumes "\<And>p. lifted = Some p \<Longrightarrow> collapse_period p = p"
    and "jget d ''period'' = jget (place_period lifted d0) ''period''"
  shows "place_period None d = d"
proof -
  have "\<exists>p. jget d ''period'' = JObj p \<and> collapse_period p = p" if "is_dict (jget d ''period'')"
    using assms that by (auto simp: place_period_def split: json.splits option.splits)
  then show ?thesis
    by (cases "jget d ''period''") (auto simp: place_period_def jget_same_eq)
qed

lemma collapse_comparison_canonical: "collapse_comparison (collapse_comparison d) = collapse_comparison d"
  by (cases "jget d ''compare_to''") (simp_all add: collapse_comparison_def jget_same_eq)

lemma normalized_group_no_list:
  assumes "normalize_filter_group g = Inr g'"
  shows "\<not> is_list g'"
proof (cases g)
  case (JObj d)
  with assms show ?thesis by (auto simp: normalize_group_obj)
next
  case (JList ns)
  with assms show ?thesis by (auto simp: normalize_group_list)
qed (use assms in \<open>auto simp: normalize_group_other\<close>)

lemma operator_step:
  assumes "(if jget d k = JNull then Inr d
     else rbind (normalize_filter_group (jget d k)) (\<lambda>g. Inr (dict_set d k g))) = Inr d'"
  shows "jget d' k = JNull \<or> normalize_filter_group (jget d' k) = Inr (jget d' k) \<and> \<not> is_list (jget d' k)"
    "k' \<noteq> k \<Longrightarrow> jget d' k' = jget d k'"
  using assms by (auto simp: normalize_filter_idem dest: normalized_group_no_list split: if_splits)

lemma operators_normalized:
  assumes "normalize_filter_operators d = Inr d'"
  shows "k \<in> {''filters'', ''having''} \<Longrightarrow>
           jget d' k = JNull \<or> normalize_filter_group (jget d' k) = Inr (jget d' k) \<and> \<not> is_list (jget d' k)"
    "k \<notin> {''filters'', ''having''} \<Longrightarrow> jget d' k = jget d k"
proof -
  from assms obtain d1 where
    1: "(if jget d ''filters'' = JNull then Inr d
     else rbind (normalize_filter_group (jget d ''filters'')) (\<lambda>g. Inr (dict_set d ''filters'' g))) = Inr d1" and
    2: "(if jget d1 ''having'' = JNull then Inr d1
     else rbind (normalize_filter_group (jget d1 ''having'')) (\<lambda>g. Inr (dict_set d1 ''having'' g))) = Inr d'"
    by (simp only: normalize_filter_operators_def rfold.simps rbind_eq_Inr sum.inject) blast
  note s1 = operator_step [OF 1] and s2 = operator_step [OF 2]
  show "k \<in> {''filters'', ''having''} \<Longrightarrow>
           jget d' k = JNull \<or> normalize_filter_group (jget d' k) = Inr (jget d' k) \<and> \<not> is_list (jget d' k)"
    using s1(1) s2 by auto
  show "k \<notin> {''filters'', ''having''} \<Longrightarrow> jget d' k = jget d k"
    using s1(2) s2(2) by simp
qed

lemma take_dates_good:
  assumes "take_date_filters d = Inr (d', lifted)"
    and "good_group (jget d ''filters'')"
  defines "r \<equiv> if lifted = None then d' else neutral_as_null ''filters'' d'"
  shows "good_group (jget r ''filters'') \<and> without_dates (jget r ''filters'') \<and>
    (k \<noteq> ''filters'' \<longrightarrow> jget r k = jget d k) \<and> (lifted = Some p \<longrightarrow> collapse_period p = p)"
proof (cases "is_dict (jget d ''filters'')")
  case False
  with assms show ?thesis by (simp add: take_date_filters_def without_dates_def)
next
  case True
  then obtain g where g: "jget d ''filters'' = JObj g" by (auto elim: is_dictE)
  with assms(1) obtain g1 f1 g2 f2 where c: "clean_branch ''all'' g = Inr (g1, f1)"
    "clean_branch ''any'' g1 = Inr (g2, f2)"
    and r: "if or_first f1 f2 = None then d' = d \<and> lifted = None
            else d' = dict_set d ''filters'' (JObj g2) \<and> lifted = or_first f1 f2"
    by (auto simp: take_date_filters_def split: option.splits)
  have "normalize_filter_group (JObj g) = Inr (JObj g)" using assms(2) by (simp add: g good_group_def)
  note cleaned = cleaned_group [OF this c]
  show ?thesis
  proof (cases "or_first f1 f2 = None")
    case True
    then have "f1 = None" "f2 = None" by (auto simp: or_first_def split: option.splits)
    with cleaned have "without_dates (JObj g)" by simp
    with True r assms(2) show ?thesis by (simp add: r_def g)
  next
    case False
    then have "collapse_period q = q" if "or_first f1 f2 = Some q" for q
      using that clean_branch_again(7) [OF c(1)] clean_branch_again(7) [OF c(2)]
      by (auto simp: or_first_def split: option.splits)
    with False r cleaned(1,2) show ?thesis
      by (auto simp: r_def jget_neutral_as_null good_group_def without_dates_def [of JNull])
  qed
qed

lemma normalize_gives_canonical:
  assumes "normalize_plan_fields d = Inr d'"
  shows "canonical_payload d'"
proof -
  from assms obtain d1 d5 lifted where d1: "normalize_filter_operators d = Inr d1"
    and take: "take_date_filters (neutral_as_null ''having'' (neutral_as_null ''filters''
                (list_as_all ''having'' (list_as_all ''filters'' (clamp_limit d1))))) = Inr (d5, lifted)"
    and d': "d' = collapse_comparison (place_period lifted
            (if lifted = None then d5 else neutral_as_null ''filters'' d5))"
    by (auto simp: normalize_plan_fields_def)
  note ops = operators_normalized [OF d1]
  let ?d2 = "clamp_limit d1"
  let ?d4 = "neutral_as_null ''having'' (neutral_as_null ''filters'' ?d2)"
  have no_list: "\<not> is_list (jget ?d2 k)" if "k \<in> {''filters'', ''having''}" for k
    using ops(1) [of k] that by (auto simp: jget_clamp_limit)
  have lists: "list_as_all ''having'' (list_as_all ''filters'' ?d2) = ?d2"
    by (simp add: list_as_all_def no_list)
  have good: "good_group (jget ?d4 k)" if "k \<in> {''filters'', ''having''}" for k
    using ops(1) [of k] that by (auto simp: jget_neutral_as_null jget_clamp_limit good_group_def)
  note t = take_dates_good [OF take [unfolded lists] good, simplified]
  let ?d6 = "if lifted = None then d5 else neutral_as_null ''filters'' d5"
  have "collapse_period p = p" if "lifted = Some p" for p using t that by blast
  then have "place_period None d' = d'"
    by (rule place_period_canonical [of lifted _ ?d6]) (simp_all add: d' jget_collapse_comparison)
  moreover have "clamp_limit d' = d'"
    by (rule clamp_limit_canonical [of _ d1])
       (use t [of "''limit''"] in \<open>simp add: d' jget_collapse_comparison jget_place_period jget_neutral_as_null\<close>)
  moreover have "collapse_comparison d' = d'" by (simp add: d' collapse_comparison_canonical)
  moreover have "good_group (jget d' ''filters'')" "without_dates (jget d' ''filters'')"
    using t by (simp_all add: d' jget_collapse_comparison jget_place_period)
  moreover have "good_group (jget d' ''having'')"
    using t [of "''having''"] good [of "''having''"]
    by (simp add: d' jget_collapse_comparison jget_place_period)
  ultimately show ?thesis by (simp add: canonical_payload_def)
qed

subsection \<open>Properties\<close>

text \<open>
  Normalising is idempotent: a payload that was normalised, stored and read back is not changed
  again, whatever shape it had at first.
\<close>

theorem normalize_payload_idempotent:
  assumes "normalize_period_and_date_filters v = Inr v'"
  shows "normalize_period_and_date_filters v' = Inr v'"
  using assms
  by (auto simp: normalize_period_and_date_filters_def canonical_payload_unchanged
      dest: normalize_gives_canonical split: json.splits)

definition demo_leaf :: json where
  "demo_leaf = JObj [(''field'', JStr ''sales.total''), (''operator'', JStr ''>''), (''values'', JList [JInt 5])]"

definition demo_payload :: json where
  "demo_payload = JObj [(''limit'', JInt 80), (''filters'', JList [demo_leaf])]"

definition demo_normalised :: json where
  "demo_normalised = JObj [(''limit'', JInt 50), (''filters'', JObj [(''all'', JList
     [JObj [(''operator'', JStr ''gt''), (''values'', JList [JInt 5]), (''member'', JStr ''sales.total'')]])])]"

lemma normalize_group_dict:
  "normalize_filter_group (JObj d) =
     rbind (if is_list (jget d ''all'')
            then rbind (rmap normalize_filter_node (elements (jget d ''all''))) (\<lambda>ns. Inr (Some ns))
            else Inr None) (\<lambda>all_nodes.
     rbind (if is_list (jget d ''any'')
            then rbind (rmap normalize_filter_node (elements (jget d ''any''))) (\<lambda>ns. Inr (Some ns))
            else Inr None) (\<lambda>any_nodes.
     Inr (JObj (set_branch ''any'' any_nodes (set_branch ''all'' all_nodes d)))))"
  by (subst normalize_filter_group.simps) simp

lemma normalize_node_dict:
  "normalize_filter_node (JObj d) =
     (if is_group_dict d then normalize_filter_group (JObj d)
      else rbind (canonical_operator (first_alias [''dimension'', ''field'', ''name''] ''member'' d))
             (\<lambda>d. Inr (JObj d)))"
  by (subst normalize_filter_node.simps) simp

lemma neutral_dict:
  "is_neutral_group_node (JObj d) \<longleftrightarrow>
     is_group_dict d \<and> \<not> list_ex (dict_has d) [''member'', ''operator'', ''values'', ''value''] \<and>
     (\<forall>k\<in>{''all'', ''any''}. jget d k = JNull \<or> is_list (jget d k) \<and>
        list_all is_neutral_group_node (elements (jget d k)))"
  by (subst is_neutral_group_node.simps) (auto simp: Let_def)

lemmas payload_eval = normalize_group_dict normalize_group_list normalize_node_dict neutral_dict

lemma demo_payload_normalised: "normalize_period_and_date_filters demo_payload = Inr demo_normalised"
  by (simp add: demo_payload_def demo_leaf_def demo_normalised_def normalize_period_and_date_filters_def
      normalize_plan_fields_def normalize_filter_operators_def payload_eval jget_def is_group_dict_def
      first_alias_def rename_key_def canonical_operator_def clamp_limit_def list_as_all_def
      neutral_as_null_def take_date_filters_def clean_branch_def as_period_def in_string_set_def
      or_first_def place_period_def collapse_comparison_def dict_has_def set_branch_def)

theorem normalize_payload_idempotent_witness:
  "normalize_period_and_date_filters demo_normalised = Inr demo_normalised"
  by (rule normalize_payload_idempotent [OF demo_payload_normalised])

lemma split_dates_drop:
  assumes "is_dict e" and "as_period (entries e) = Inr (Some q)"
  shows "split_dates (xs @ e # ys) =
     rbind (split_dates xs) (\<lambda>(ks, f). rbind (split_dates ys) (\<lambda>(ls, g).
       Inr (ks @ ls, Some (case f of None \<Rightarrow> q | Some p \<Rightarrow> p))))"
    (is "_ = ?r xs")
proof (induction xs)
  case Nil
  show ?case using assms by (cases "split_dates ys") auto
next
  case (Cons x xs)
  then show ?case
    by (cases "if is_dict x then as_period (entries x) else Inr None"; cases "split_dates xs"; cases "split_dates ys")
       (auto split: option.splits prod.splits)
qed

lemma split_dates_append: "split_dates (xs @ ys) =
     rbind (split_dates xs) (\<lambda>(ks, f). rbind (split_dates ys) (\<lambda>(ls, g). Inr (ks @ ls, or_first f g)))"
proof (induction xs)
  case Nil
  show ?case by (cases "split_dates ys") (auto simp: or_first_def)
next
  case (Cons x xs)
  then show ?case
    by (cases "if is_dict x then as_period (entries x) else Inr None"; cases "split_dates xs"; cases "split_dates ys")
       (auto simp: or_first_def split: option.splits prod.splits)
qed

lemma period_is_no_group: "as_period e = Inr (Some q) \<Longrightarrow> \<not> is_neutral_group_node (JObj e)"
  by (auto simp: neutral_dict as_period_def in_string_set_def dict_has_iff jget_def Let_def
      split: if_splits option.splits)

lemma jget_Cons: "jget ((k, v) # d) k' = (if k' = k then v else jget d k')"
  by (simp add: jget_def)

lemma jget_Nil [simp]: "jget [] k = JNull"
  by (simp add: jget_def)

lemma filters_first:
  "clamp_limit ((''filters'', g) # d) = (''filters'', g) # clamp_limit d"
  "list_as_all ''having'' ((''filters'', g) # d) = (''filters'', g) # list_as_all ''having'' d"
  "neutral_as_null ''having'' ((''filters'', g) # d) = (''filters'', g) # neutral_as_null ''having'' d"
  "neutral_as_null ''filters'' ((''filters'', g) # d) =
     (''filters'', if is_neutral_group_node g then JNull else g) # d"
  "place_period lifted ((''filters'', g) # d) = (''filters'', g) # place_period lifted d"
  "collapse_comparison ((''filters'', g) # d) = (''filters'', g) # collapse_comparison d"
  by (auto simp: clamp_limit_def list_as_all_def neutral_as_null_def place_period_def
      collapse_comparison_def jget_Cons split: json.split option.split)

lemma take_first:
  "take_date_filters ((''filters'', JObj [(''all'', JList ns)]) # d) =
     rbind (split_dates ns) (\<lambda>(kept, lifted).
       Inr ((''filters'', JObj [(''all'', JList (if lifted = None then ns else kept))]) # d, lifted))"
  by (cases "split_dates ns")
     (auto simp: take_date_filters_def clean_branch_def jget_Cons or_first_def split: option.split prod.splits)

lemma given_period_ignores_lifted:
  "is_dict (jget d ''period'') \<Longrightarrow> place_period lifted d = place_period None d"
  by (cases "jget d ''period''") (simp_all add: place_period_def)

definition finish_fields :: "jdict \<Rightarrow> jdict" where
  "finish_fields d = collapse_comparison (place_period None (neutral_as_null ''having''
     (list_as_all ''having'' (clamp_limit d))))"

lemma given_period_kept:
  "is_dict (jget d ''period'') \<Longrightarrow> is_dict (jget (neutral_as_null ''having''
     (list_as_all ''having'' (clamp_limit d))) ''period'')"
  by (simp add: neutral_as_null_def list_as_all_def jget_clamp_limit)

lemma neutral_is_dict: "is_neutral_group_node v \<Longrightarrow> is_dict v"
  using is_neutral_group_node.simps [of v] by blast

lemma neutral_no_dates: "list_all is_neutral_group_node ns \<Longrightarrow> split_dates ns = Inr (ns, None)"
proof (induction ns)
  case Nil
  show ?case by simp
next
  case (Cons n ns)
  then obtain d where n: "n = JObj d" "is_neutral_group_node (JObj d)"
    using neutral_is_dict [of n] by (auto elim!: is_dictE)
  then have "\<not> dict_has d ''values''" by (simp add: neutral_dict)
  then have "as_period d = Inr None" by (simp add: as_period_def jget_missing Let_def)
  with Cons n show ?case by simp
qed

lemma neutral_all: "is_neutral_group_node (JObj [(''all'', JList ns)]) \<longleftrightarrow> list_all is_neutral_group_node ns"
  by (simp add: neutral_dict is_group_dict_def jget_Cons dict_has_def)

lemma normalize_tail:
  assumes "is_dict (jget d ''period'')"
  shows "rbind (take_date_filters (neutral_as_null ''having'' (neutral_as_null ''filters''
            (list_as_all ''having'' (list_as_all ''filters''
              (clamp_limit ((''filters'', JObj [(''all'', JList ns)]) # d))))))) (\<lambda>(d, lifted).
          Inr (collapse_comparison (place_period lifted
            (if lifted = None then d else neutral_as_null ''filters'' d)))) =
     rbind (split_dates ns) (\<lambda>(kept, _).
       Inr ((''filters'', if is_neutral_group_node (JObj [(''all'', JList kept)]) then JNull
                          else JObj [(''all'', JList kept)]) # finish_fields d))"
proof -
  have no_list: "list_as_all ''filters'' ((''filters'', JObj g) # d) = (''filters'', JObj g) # d" for g d
    by (simp add: list_as_all_def jget_Cons)
  note period = given_period_ignores_lifted [OF given_period_kept [OF assms]]
  show ?thesis
  proof (cases "list_all is_neutral_group_node ns")
    case True
    then show ?thesis
      by (simp add: filters_first no_list neutral_all neutral_no_dates take_date_filters_def jget_Cons
          finish_fields_def)
  next
    case False
    then show ?thesis
    proof (cases "split_dates ns")
      case (Inl e)
      with False show ?thesis by (simp add: filters_first no_list neutral_all take_first)
    next
      case (Inr r)
      then obtain kept lifted where r: "split_dates ns = Inr (kept, lifted)" by (cases r) auto
      from split_dates_again [OF r] have "lifted = None \<Longrightarrow> kept = ns" by blast
      with False r show ?thesis
        by (cases lifted)
           (simp_all add: filters_first no_list neutral_all take_first finish_fields_def
             period [of "Some _"])
    qed
  qed
qed

lemma normalize_operators_first:
  "normalize_filter_operators ((''filters'', JObj [(''all'', JList zs)]) # d) =
     rbind (rmap normalize_filter_node zs) (\<lambda>ns.
     rbind (if jget d ''having'' = JNull then Inr d
            else rbind (normalize_filter_group (jget d ''having'')) (\<lambda>g. Inr (dict_set d ''having'' g)))
       (\<lambda>d. Inr ((''filters'', JObj [(''all'', JList ns)]) # d)))"
proof -
  have first: "normalize_filter_group (JObj [(''all'', JList zs)]) =
      rbind (rmap normalize_filter_node zs) (\<lambda>ns. Inr (JObj [(''all'', JList ns)]))"
    by (cases "rmap normalize_filter_node zs") (simp_all add: normalize_group_dict jget_Cons set_branch_def)
  show ?thesis
    by (cases "rmap normalize_filter_node zs"; cases "normalize_filter_group (jget d ''having'')")
       (simp_all add: normalize_filter_operators_def first jget_Cons)
qed

text \<open>
  A payload with a period of its own loses every date condition among its filters: with the
  condition or without it, the plan is the same, so its rows are not limited by that date.
\<close>

theorem date_filter_next_to_period_is_lost:
  assumes "is_dict (jget d ''period'')"
    and "normalize_filter_node e = Inr (JObj e')" and p: "as_period e' = Inr (Some q)"
  shows "normalize_plan_fields ((''filters'', JObj [(''all'', JList (xs @ e # ys))]) # d) =
         normalize_plan_fields ((''filters'', JObj [(''all'', JList (xs @ ys))]) # d)"
proof -
  have p': "as_period (entries (JObj e')) = Inr (Some q)" using p by simp
  have dates: "rbind (split_dates (as @ JObj e' # bs)) (\<lambda>(kept, _). f kept) =
      rbind (split_dates (as @ bs)) (\<lambda>(kept, _). f kept)" for as bs and f :: "json list \<Rightarrow> payload_error + jdict"
    by (cases "split_dates as"; cases "split_dates bs")
       (auto simp: split_dates_drop [OF _ p'] split_dates_append p)
  define H where "H = (if jget d ''having'' = JNull then Inr d
     else rbind (normalize_filter_group (jget d ''having'')) (\<lambda>g. Inr (dict_set d ''having'' g)))"
  have H: "is_dict (jget d2 ''period'')" if "H = Inr d2" for d2
    using that assms(1) by (auto simp: H_def split: if_splits)
  have fields: "normalize_plan_fields ((''filters'', JObj [(''all'', JList zs)]) # d) =
      rbind (rmap normalize_filter_node zs) (\<lambda>ns. rbind H (\<lambda>d2. rbind (split_dates ns) (\<lambda>(kept, _).
       Inr ((''filters'', if is_neutral_group_node (JObj [(''all'', JList kept)]) then JNull
                          else JObj [(''all'', JList kept)]) # finish_fields d2))))" for zs
    unfolding normalize_plan_fields_def normalize_operators_first H_def [symmetric]
    using normalize_tail [OF H] by (cases "rmap normalize_filter_node zs"; cases H) auto
  show ?thesis
    unfolding fields
    by (cases "rmap normalize_filter_node xs"; cases "rmap normalize_filter_node ys"; cases H)
       (simp_all add: rmap_append assms(2) dates)
qed

definition demo_date :: json where
  "demo_date = JObj [(''member'', JStr ''sales.created_at''), (''operator'', JStr ''since''),
     (''values'', JList [JStr ''2024-03-01''])]"

definition demo_period :: jdict where
  "demo_period = [(''period'', JObj [(''time_dimension'', JStr ''sales.created_at''),
     (''relative'', JStr ''this_year'')])]"

theorem date_filter_next_to_period_is_lost_witness:
  "normalize_plan_fields ((''filters'', JObj [(''all'', JList [demo_leaf, demo_date])]) # demo_period) =
   normalize_plan_fields ((''filters'', JObj [(''all'', JList [demo_leaf])]) # demo_period)"
proof -
  have "is_dict (jget demo_period ''period'')" by (simp add: demo_period_def jget_def)
  moreover have "normalize_filter_node demo_date = Inr (JObj (entries demo_date))"
    by (simp add: demo_date_def normalize_node_dict is_group_dict_def dict_has_def first_alias_def
        canonical_operator_def in_string_set_def jget_def)
  moreover have "as_period (entries demo_date) =
      Inr (Some [(''since'', JStr ''2024-03-01''), (''time_dimension'', JStr ''sales.created_at'')])"
    by (simp add: demo_date_def as_period_def in_string_set_def jget_def)
  ultimately show ?thesis
    using date_filter_next_to_period_is_lost [of demo_period demo_date _ _ "[demo_leaf]" "[]"] by simp
qed

subsection \<open>The parts of a payload\<close>

text \<open>\<open>value\<close> for \<open>values\<close>, with \<open>operator\<close> spellings (PlanFilter and AttributePredicate).\<close>

definition singular_value :: "jdict \<Rightarrow> jdict" where
  "singular_value d =
     (if \<not> dict_has d ''values'' \<and> dict_has d ''value''
      then dict_set (dict_del d ''value'') ''values'' (JList [jget d ''value''])
      else dict_del d ''value'')"

definition normalize_plan_filter :: "json \<Rightarrow> json" where
  "normalize_plan_filter v =
     (case v of
        JObj d \<Rightarrow> JObj (singular_value
          (if jget d ''operator'' = JStr ''>'' then dict_set d ''operator'' (JStr ''gt'') else d))
      | _ \<Rightarrow> v)"

definition operator_spellings :: "(string \<times> string) list" where
  "operator_spellings =
     [(''>'', ''gt''), (''>='', ''gte''), (''<'', ''lt''), (''<='', ''lte''), (''='', ''eq''),
      (''=='', ''eq''), (''!='', ''neq''), (''<>'', ''neq'')]"

definition copy_missing :: "string \<Rightarrow> string \<Rightarrow> jdict \<Rightarrow> jdict" where
  "copy_missing a b d =
     (if \<not> dict_has d a \<and> dict_has d b then dict_set d a (jget d b)
      else if \<not> dict_has d b \<and> dict_has d a then dict_set d b (jget d a)
      else d)"

definition spell_operator :: "jdict \<Rightarrow> payload_error + jdict" where
  "spell_operator d =
     rbind (in_string_set (jget d ''operator'') (map fst operator_spellings)) (\<lambda>known.
       Inr (case jget d ''operator'' of
              JStr s \<Rightarrow> (case map_of operator_spellings s of
                          Some op \<Rightarrow> dict_set d ''operator'' (JStr op) | None \<Rightarrow> d)
            | _ \<Rightarrow> d))"

definition normalize_attribute_predicate :: "json \<Rightarrow> payload_error + json" where
  "normalize_attribute_predicate v =
     (case v of
        JObj d \<Rightarrow>
          rbind (spell_operator (copy_missing ''revision_hash'' ''definition_revision''
                   (copy_missing ''family_key'' ''attribute_key'' d)))
            (\<lambda>d. Inr (JObj (singular_value d)))
      | _ \<Rightarrow> Inr v)"

text \<open>\<open>_drop_neutral_branches_and_nodes\<close>.\<close>

definition drop_neutral_branch :: "string \<Rightarrow> jdict \<Rightarrow> jdict" where
  "drop_neutral_branch k d =
     (if is_list (jget d k)
      then (let kept = filter (\<lambda>n. \<not> is_neutral_group_node n) (elements (jget d k)) in
            if kept = [] then dict_del d k else dict_set d k (JList kept))
      else d)"

definition drop_neutral_branches_and_nodes :: "json \<Rightarrow> payload_error + json" where
  "drop_neutral_branches_and_nodes v =
     (case v of
        JObj d \<Rightarrow> if \<not> is_group_dict d then Inl Value_error
                  else Inr (JObj (drop_neutral_branch ''any'' (drop_neutral_branch ''all'' d)))
      | _ \<Rightarrow> Inr v)"

definition normalize_family :: "json \<Rightarrow> json" where
  "normalize_family v =
     (case v of
        JStr s \<Rightarrow> JObj [(''family'', JStr s), (''revision_mode'', JStr ''recorded'')]
      | JObj d \<Rightarrow> JObj (first_alias [''family_id'', ''family_key'', ''name'', ''key''] ''family'' d)
      | _ \<Rightarrow> v)"

definition alias_member :: "json \<Rightarrow> json" where
  "alias_member v =
     (case v of JObj d \<Rightarrow> JObj (first_alias [''measure'', ''field''] ''member'' d) | _ \<Rightarrow> v)"

text \<open>The limit of an ordered set is checked on the raw payload, before it is clamped.\<close>

definition validate_raw_payload :: "json \<Rightarrow> payload_error + json" where
  "validate_raw_payload v =
     (case v of
        JObj d \<Rightarrow>
          rbind (in_string_set (jget d ''mode'') [''pick'', ''ranked'']) (\<lambda>ordered.
            if ordered \<and>
               \<not> (case jget (entries (jget d ''plan'')) ''limit'' of JInt n \<Rightarrow> 1 \<le> n \<and> n \<le> 50 | _ \<Rightarrow> False)
            then Inl Value_error else Inr v)
      | _ \<Rightarrow> Inr v)"

lemma singular_value_idem: "singular_value (singular_value d) = singular_value d"
  by (simp add: singular_value_def dict_del_missing)

lemma normalize_plan_filter_idem: "normalize_plan_filter (normalize_plan_filter v) = normalize_plan_filter v"
proof (cases v)
  case (JObj d)
  have op: "jget (singular_value e) ''operator'' = jget e ''operator''" for e
    by (simp add: singular_value_def)
  from JObj show ?thesis by (simp add: normalize_plan_filter_def op singular_value_idem)
qed (simp_all add: normalize_plan_filter_def)

lemma dropped_branch:
  "jget (drop_neutral_branch k d) k' =
     (if k' = k \<and> is_list (jget d k)
      then (let kept = filter (\<lambda>n. \<not> is_neutral_group_node n) (elements (jget d k)) in
            if kept = [] then JNull else JList kept)
      else jget d k')"
  by (simp add: drop_neutral_branch_def Let_def)

lemma no_neutral_member_left:
  "drop_neutral_branches_and_nodes (JObj d) = Inr (JObj d') \<Longrightarrow> k \<in> {''all'', ''any''} \<Longrightarrow>
     n \<in> set (elements (jget d' k)) \<Longrightarrow> \<not> is_neutral_group_node n"
  by (auto simp: drop_neutral_branches_and_nodes_def dropped_branch elements_no_list Let_def
      elim!: is_listE split: if_splits)

end
