(* ===== verification/Planner_Reply.thy ===== *)
theory Planner_Reply
  imports Json Query_Plan
begin

text \<open>
  How the planner's reply is normalised before it is validated
  (app/business_query/plan/planner_response.py): the shapes a model writes beside the contract
  are collapsed into it.
\<close>

subsection \<open>Normalising\<close>

definition set_default :: "jdict \<Rightarrow> string \<Rightarrow> json \<Rightarrow> jdict" where
  "set_default d k v = (if dict_has d k then d else dict_set d k v)"

definition drop_empty_order_fields :: "jdict \<Rightarrow> jdict" where
  "drop_empty_order_fields d =
     (let order_by = jget d ''order_by'';
          d = dict_del d ''order_by'';
          d = (if truthy order_by then set_default d ''order'' order_by else d);
          d = (if jget d ''order'' \<in> {JNull, JList []} then dict_del d ''order'' else d)
      in if \<not> truthy (jget d ''sort'') then dict_del d ''sort'' else d)"

definition unwrap_grains :: "jdict \<Rightarrow> jdict" where
  "unwrap_grains d =
     (let grains = jget d ''grains''; d = dict_del d ''grains'' in
      if grains = JNull \<or> dict_has d ''grain'' then d
      else case grains of JList [g] \<Rightarrow> dict_set d ''grain'' g | _ \<Rightarrow> d)"

definition underscored :: "string \<Rightarrow> string" where
  "underscored s = map (\<lambda>c. if c = CHR '' '' then CHR ''_'' else c) (py_strip s)"

definition normalize_relative :: "jdict \<Rightarrow> jdict" where
  "normalize_relative p =
     (case jget p ''relative'' of
        JStr s \<Rightarrow> dict_set p ''relative'' (JStr (underscored s))
      | _ \<Rightarrow> p)"

definition normalize_range :: "jdict \<Rightarrow> jdict" where
  "normalize_range p =
     (let range = jget p ''range''; p = dict_del p ''range'' in
      if range = JStr ''today'' then dict_set p ''relative'' (JStr ''today'')
      else if range = JStr ''between'' \<and> \<not> dict_has p ''between'' then
        (let first = jget p ''start''; last = jget p ''end''; p = dict_del (dict_del p ''start'') ''end'' in
         if first \<noteq> JNull \<and> last \<noteq> JNull then dict_set p ''between'' (JList [first, last]) else p)
      else p)"

definition normalize_period_dict :: "jdict \<Rightarrow> jdict" where
  "normalize_period_dict p =
     normalize_relative (normalize_range
       (first_alias [''relative_range''] ''relative'' (first_alias [''dimension''] ''time_dimension'' p)))"

definition apply_clarify_aliases :: "jdict \<Rightarrow> jdict" where
  "apply_clarify_aliases d =
     (let d = (if dict_has d ''clarify''
               then (let d = set_default d ''action'' (JStr ''clarify'') in
                     dict_set (dict_del d ''clarify'') ''clarification_question'' (jget d ''clarify''))
               else d)
      in if jget d ''action'' = JStr ''clarify'' then first_alias [''question''] ''clarification_question'' d
         else d)"

definition normalize_period_at :: "string \<Rightarrow> jdict \<Rightarrow> jdict" where
  "normalize_period_at k d =
     (case jget d k of JObj p \<Rightarrow> dict_set d k (JObj (normalize_period_dict p)) | _ \<Rightarrow> d)"

text \<open>One declared set, given how its plan is normalised.\<close>

definition set_item :: "(jdict \<Rightarrow> jdict) \<Rightarrow> json \<Rightarrow> json" where
  "set_item f item =
     (if is_dict item \<and> is_dict (jget (entries item) ''plan'')
      then JObj (dict_set (entries item) ''plan'' (JObj (f (entries (jget (entries item) ''plan'')))))
      else item)"

lemma set_item_cong [fundef_cong]:
  "x = y \<Longrightarrow> (is_dict y \<Longrightarrow> is_dict (jget (entries y) ''plan'') \<Longrightarrow>
     f (entries (jget (entries y) ''plan'')) = g (entries (jget (entries y) ''plan''))) \<Longrightarrow>
   set_item f x = set_item g y"
  by (simp add: set_item_def)

function normalize_plan_dict :: "jdict \<Rightarrow> jdict" where
  "normalize_plan_dict plan =
     (let d = normalize_period_at ''compare_to'' (normalize_period_at ''period''
                (drop_empty_order_fields (unwrap_grains plan))) in
      if is_list (jget plan ''derived_sets'')
      then dict_set d ''derived_sets''
             (JList (map (\<lambda>item. set_item normalize_plan_dict item)
                (elements (jget plan ''derived_sets''))))
      else d)"
  by pat_completeness auto

termination
proof (relation "measure (\<lambda>d. size (JObj d))", goal_cases)
  case 1
  show ?case by simp
next
  case (2 plan d item)
  have "size item < size (JObj plan)" by (rule size_json_child) (rule 2(3))
  moreover obtain q where q: "jget (entries item) ''plan'' = JObj q" using 2(5) by (auto elim: is_dictE)
  moreover have "size (jget (entries item) ''plan'') < size item"
    using 2(5) size_json_get [of "entries item" "''plan''"]
    by (cases item; cases "entries item = []") (auto simp: jget_def)
  ultimately show ?case by simp
qed

declare normalize_plan_dict.simps [simp del]

definition plan_body_fields :: "string list" where
  "plan_body_fields = [''measures'', ''dimensions'', ''bucket_set'', ''filters'', ''having'', ''period'',
     ''compare_to'', ''grain'', ''order'', ''limit'', ''derived_sets'']"

text \<open>Fields of a plan at the top of the reply become its plan.\<close>

definition lift_plan_body :: "jdict \<Rightarrow> jdict" where
  "lift_plan_body d =
     (if is_dict (jget d ''plan'') then d
      else (let lifted = filter (\<lambda>(k, v). k \<in> set plan_body_fields) d;
                rest = filter (\<lambda>(k, v). k \<notin> set plan_body_fields) d in
            if lifted = [] then rest
            else dict_set (set_default rest ''action'' (JStr ''plan'')) ''plan''
                   (JObj (normalize_plan_dict lifted))))"

definition normalize_reply_plan :: "jdict \<Rightarrow> jdict" where
  "normalize_reply_plan d =
     (case jget d ''plan'' of
        JObj plan \<Rightarrow> dict_set (set_default d ''action'' (JStr ''plan'')) ''plan'' (JObj (normalize_plan_dict plan))
      | _ \<Rightarrow> d)"

definition unwrap_envelope :: "jdict \<Rightarrow> jdict" where
  "unwrap_envelope d =
     (if dict_has d ''business_query_plan''
      then set_default (dict_del d ''business_query_plan'') ''plan'' (jget d ''business_query_plan'')
      else d)"

definition default_reason :: "jdict \<Rightarrow> jdict" where
  "default_reason d =
     (if jget d ''action'' = JStr ''unsupported'' \<and> jget d ''unsupported_reason'' = JNull
      then dict_set d ''unsupported_reason'' (JStr ''member_not_found'')
      else d)"

definition normalize_planner_payload :: "jdict \<Rightarrow> jdict" where
  "normalize_planner_payload payload =
     default_reason (normalize_reply_plan (lift_plan_body
       (drop_empty_order_fields (unwrap_grains (apply_clarify_aliases (unwrap_envelope payload))))))"

subsection \<open>Normalising twice changes nothing more\<close>

lemma dict_has_set_default [simp]: "dict_has (set_default d k v) k' \<longleftrightarrow> k' = k \<or> dict_has d k'"
  by (auto simp: set_default_def)

lemma jget_set_default: "jget (set_default d k v) k' =
    (if k' = k \<and> \<not> dict_has d k then v else jget d k')"
  by (auto simp: set_default_def)

definition settled :: "jdict \<Rightarrow> bool" where
  "settled d \<longleftrightarrow>
     \<not> dict_has d ''grains'' \<and> \<not> dict_has d ''order_by'' \<and>
     (dict_has d ''order'' \<longrightarrow> jget d ''order'' \<notin> {JNull, JList []}) \<and>
     (dict_has d ''sort'' \<longrightarrow> truthy (jget d ''sort''))"

lemma settled_unchanged: "settled d \<Longrightarrow> drop_empty_order_fields (unwrap_grains d) = d"
  by (auto simp: settled_def drop_empty_order_fields_def unwrap_grains_def Let_def dict_del_missing
      jget_missing)

lemma becomes_settled: "settled (drop_empty_order_fields (unwrap_grains d))"
proof -
  have "\<not> dict_has (unwrap_grains d) ''grains''"
    by (auto simp: unwrap_grains_def Let_def split: json.split list.split)
  moreover have "settled (drop_empty_order_fields e)" if "\<not> dict_has e ''grains''" for e
    using that by (auto simp: settled_def drop_empty_order_fields_def Let_def)
  ultimately show ?thesis by blast
qed

lemma drop_order_other:
  assumes "k \<notin> {''order'', ''order_by'', ''sort''}"
  shows "jget (drop_empty_order_fields d) k = jget d k"
    "dict_has (drop_empty_order_fields d) k = dict_has d k"
  using assms
  by (simp_all add: drop_empty_order_fields_def Let_def if_distrib [of "\<lambda>d. jget d k"]
      if_distrib [of "\<lambda>d. dict_has d k"] jget_set_default)

lemma unwrap_grains_other:
  assumes "k \<notin> {''grains'', ''grain''}"
  shows "jget (unwrap_grains d) k = jget d k" "dict_has (unwrap_grains d) k = dict_has d k"
  using assms by (auto simp: unwrap_grains_def Let_def split: json.split list.split)

lemma jget_order_fields:
  "k \<notin> {''grains'', ''grain'', ''order'', ''order_by'', ''sort''} \<Longrightarrow>
     jget (drop_empty_order_fields (unwrap_grains d)) k = jget d k"
  by (simp add: drop_order_other unwrap_grains_other)

lemma settled_set:
  "settled d \<Longrightarrow> k \<notin> {''grains'', ''order_by'', ''order'', ''sort''} \<Longrightarrow> settled (dict_set d k v)"
  by (auto simp: settled_def)

lemma underscored_idem: "underscored (underscored s) = underscored s"
proof -
  have underscore: "\<not> is_space CHR ''_''" by (simp add: is_space_def code_of_def)
  have "trimmed (underscored s)"
    using trimmed_py_strip [of s] underscore
    by (cases "py_strip s = []") (simp_all add: trimmed_def underscored_def hd_map last_map)
  then have "py_strip (underscored s) = underscored s" by (rule py_strip_trimmed)
  moreover have "map (\<lambda>c. if c = CHR '' '' then CHR ''_'' else c) (underscored s) = underscored s"
    by (simp add: underscored_def)
  ultimately show ?thesis by (simp only: underscored_def [of "underscored s"])
qed

lemma first_alias_fixed: "dict_has d c \<or> filter (dict_has d) as = [] \<Longrightarrow> first_alias as c d = d"
  by (auto simp: first_alias_def)

lemma no_range: "\<not> dict_has p ''range'' \<Longrightarrow> normalize_range p = p"
  by (simp add: normalize_range_def jget_missing dict_del_missing)

lemma normalize_period_dict_idem: "normalize_period_dict (normalize_period_dict p) = normalize_period_dict p"
proof -
  let ?a = "first_alias [''dimension''] ''time_dimension'' p"
  let ?b = "first_alias [''relative_range''] ''relative'' ?a"
  let ?c = "normalize_range ?b"
  let ?d = "normalize_relative ?c"
  have a: "dict_has ?a ''time_dimension'' \<or> \<not> dict_has ?a ''dimension''"
    using first_alias_has [of "[''dimension'']" "''time_dimension''" p] by (auto split: if_splits)
  have b: "dict_has ?b ''relative'' \<or> \<not> dict_has ?b ''relative_range''"
    using first_alias_has [of "[''relative_range'']" "''relative''" ?a] by (auto split: if_splits)
  have c: "\<not> dict_has ?c ''range''" "dict_has ?c ''relative'' \<or> \<not> dict_has ?c ''relative_range''"
    "dict_has ?c ''time_dimension'' = dict_has ?b ''time_dimension''"
    "dict_has ?c ''dimension'' = dict_has ?b ''dimension''"
    using b by (auto simp: normalize_range_def Let_def)
  have d: "dict_has ?d k = dict_has ?c k" for k
    using jget_has [of ?c "''relative''"]
    by (cases "jget ?c ''relative''") (auto simp: normalize_relative_def)
  have "first_alias [''dimension''] ''time_dimension'' ?d = ?d"
    by (rule first_alias_fixed) (use a in \<open>auto simp: d c first_alias_other\<close>)
  moreover have "first_alias [''relative_range''] ''relative'' ?d = ?d"
    by (rule first_alias_fixed) (use c(2) in \<open>auto simp: d\<close>)
  moreover have "normalize_range ?d = ?d"
    by (rule no_range) (simp add: d c(1))
  moreover have "normalize_relative ?d = ?d"
    by (cases "jget ?c ''relative''")
       (simp_all add: normalize_relative_def jget_same_eq underscored_idem)
  ultimately show ?thesis by (simp add: normalize_period_dict_def)
qed

lemma normalize_period_at_settled: "settled d \<Longrightarrow> k \<in> {''period'', ''compare_to''} \<Longrightarrow> settled (normalize_period_at k d)"
  by (auto simp: normalize_period_at_def intro: settled_set split: json.split)

definition period_fixed :: "string \<Rightarrow> jdict \<Rightarrow> bool" where
  "period_fixed k d \<longleftrightarrow> (\<forall>p. jget d k = JObj p \<longrightarrow> normalize_period_dict p = p)"

lemma period_fixed_unchanged: "period_fixed k d \<Longrightarrow> normalize_period_at k d = d"
  by (auto simp: period_fixed_def normalize_period_at_def jget_same_eq split: json.split)

lemma period_fixed_after: "period_fixed k (normalize_period_at k d)"
  by (auto simp: period_fixed_def normalize_period_at_def normalize_period_dict_idem split: json.splits)

lemma jget_normalize_period_at: "k' \<noteq> k \<Longrightarrow> jget (normalize_period_at k d) k' = jget d k'"
  by (simp add: normalize_period_at_def split: json.split)

lemma plan_fixed:
  assumes "settled d" and "period_fixed ''period'' d" and "period_fixed ''compare_to'' d"
    and "\<And>x. x \<in> set (elements (jget d ''derived_sets'')) \<Longrightarrow> set_item normalize_plan_dict x = x"
  shows "normalize_plan_dict d = d"
  using assms
  by (cases "jget d ''derived_sets''")
     (simp_all add: normalize_plan_dict.simps settled_unchanged period_fixed_unchanged jget_same_eq
       map_idI)

lemma normalize_plan_dict_idem: "normalize_plan_dict (normalize_plan_dict d) = normalize_plan_dict d"
proof (induction d rule: normalize_plan_dict.induct)
  case (1 plan)
  let ?d = "normalize_period_at ''compare_to'' (normalize_period_at ''period''
                (drop_empty_order_fields (unwrap_grains plan)))"
  let ?r = "normalize_plan_dict plan"
  have settled: "settled ?d" by (intro normalize_period_at_settled becomes_settled) simp_all
  have fields: "jget ?r k = jget ?d k" if "k \<noteq> ''derived_sets''" for k
    using that by (simp add: normalize_plan_dict.simps Let_def)
  have "period_fixed ''period'' ?d"
    using period_fixed_after [of "''period''"]
    by (simp add: period_fixed_def jget_normalize_period_at)
  moreover have "period_fixed ''compare_to'' ?d" by (rule period_fixed_after)
  ultimately have periods: "period_fixed ''period'' ?r" "period_fixed ''compare_to'' ?r"
    by (simp_all add: period_fixed_def fields)
  have item: "set_item normalize_plan_dict (set_item normalize_plan_dict x) = set_item normalize_plan_dict x"
    if "is_list (jget plan ''derived_sets'')" "x \<in> set (elements (jget plan ''derived_sets''))" for x
    using 1 [OF refl that] by (auto simp: set_item_def)
  show ?case
  proof (rule plan_fixed)
    show "settled ?r" using settled by (simp add: normalize_plan_dict.simps Let_def settled_set)
    show "period_fixed ''period'' ?r" "period_fixed ''compare_to'' ?r" by (rule periods)+
    fix x
    assume "x \<in> set (elements (jget ?r ''derived_sets''))"
    then show "set_item normalize_plan_dict x = x"
      using item by (cases "is_list (jget plan ''derived_sets'')")
        (auto simp: normalize_plan_dict.simps [of plan] Let_def elements_no_list
          jget_normalize_period_at jget_order_fields)
  qed
qed

lemma dict_has_filter: "dict_has (filter (\<lambda>(k, v). P k) d) k \<longleftrightarrow> P k \<and> dict_has d k"
  by (force simp: dict_has_def)

lemma jget_filter: "jget (filter (\<lambda>(k, v). P k) d) k = (if P k then jget d k else JNull)"
  by (induction d) (auto simp: jget_def)

definition reply_settled :: "jdict \<Rightarrow> bool" where
  "reply_settled d \<longleftrightarrow>
     \<not> dict_has d ''business_query_plan'' \<and> \<not> dict_has d ''clarify'' \<and>
     (jget d ''action'' = JStr ''clarify'' \<longrightarrow>
        dict_has d ''clarification_question'' \<or> \<not> dict_has d ''question'') \<and>
     settled d"

definition plan_settled :: "jdict \<Rightarrow> bool" where
  "plan_settled d \<longleftrightarrow>
     (if is_dict (jget d ''plan'')
      then dict_has d ''action'' \<and>
           normalize_plan_dict (entries (jget d ''plan'')) = entries (jget d ''plan'')
      else (\<forall>k\<in>set plan_body_fields. \<not> dict_has d k))"

lemma filter_absent_keys:
  assumes "\<forall>k\<in>A. \<not> dict_has d k"
  shows "filter (\<lambda>(k, v). k \<notin> A) d = d" "filter (\<lambda>(k, v). k \<in> A) d = []"
  using assms by (auto simp: dict_has_def filter_empty_conv intro!: filter_True)

lemma reply_fixed:
  assumes "reply_settled d" and "plan_settled d"
    and "jget d ''action'' = JStr ''unsupported'' \<Longrightarrow> jget d ''unsupported_reason'' \<noteq> JNull"
  shows "normalize_planner_payload d = d"
proof -
  have "unwrap_envelope d = d" "apply_clarify_aliases d = d"
    using assms(1) by (auto simp: reply_settled_def unwrap_envelope_def apply_clarify_aliases_def
        first_alias_def)
  moreover have "drop_empty_order_fields (unwrap_grains d) = d"
    using assms(1) by (simp add: reply_settled_def settled_unchanged)
  moreover have "lift_plan_body d = d"
    using assms(2) by (simp add: plan_settled_def lift_plan_body_def filter_absent_keys split: if_splits)
  moreover have "normalize_reply_plan d = d"
    using assms(2) by (cases "jget d ''plan''")
      (simp_all add: plan_settled_def normalize_reply_plan_def set_default_def jget_same_eq)
  moreover have "default_reason d = d" using assms(3) by (auto simp: default_reason_def)
  ultimately show ?thesis by (simp add: normalize_planner_payload_def)
qed

lemma becomes_reply_settled:
  "reply_settled (drop_empty_order_fields (unwrap_grains (apply_clarify_aliases (unwrap_envelope d))))"
proof -
  let ?e = "unwrap_envelope d" and ?c = "apply_clarify_aliases (unwrap_envelope d)"
  have e: "\<not> dict_has ?e ''business_query_plan''" by (auto simp: unwrap_envelope_def)
  let ?a = "if dict_has ?e ''clarify''
            then dict_set (dict_del (set_default ?e ''action'' (JStr ''clarify'')) ''clarify'')
                   ''clarification_question'' (jget ?e ''clarify'')
            else ?e"
  have a: "\<not> dict_has ?a ''business_query_plan''" "\<not> dict_has ?a ''clarify''" using e by simp_all
  have c: "?c = (if jget ?a ''action'' = JStr ''clarify'' then first_alias [''question''] ''clarification_question'' ?a
         else ?a)"
    by (simp add: apply_clarify_aliases_def Let_def jget_set_default)
  have "\<not> dict_has ?c ''business_query_plan''" "\<not> dict_has ?c ''clarify''"
    using a by (simp_all add: c first_alias_other)
  moreover have "dict_has ?c ''clarification_question'' \<or> \<not> dict_has ?c ''question''"
    if "jget ?c ''action'' = JStr ''clarify''"
  proof -
    from that have "?c = first_alias [''question''] ''clarification_question'' ?a"
      by (simp add: c first_alias_other split: if_splits)
    with first_alias_has [of "[''question'']" "''clarification_question''" ?a] show ?thesis
      by (auto split: if_splits)
  qed
  ultimately show ?thesis
    by (simp add: reply_settled_def becomes_settled drop_order_other unwrap_grains_other)
qed

lemma lifted_keys:
  assumes "\<not> is_dict (jget d ''plan'')"
  shows "k \<in> set plan_body_fields \<Longrightarrow> \<not> dict_has (lift_plan_body d) k"
    "k \<notin> set plan_body_fields \<Longrightarrow> k \<noteq> ''action'' \<Longrightarrow> k \<noteq> ''plan'' \<Longrightarrow>
       dict_has (lift_plan_body d) k = dict_has d k \<and> jget (lift_plan_body d) k = jget d k"
    "jget (lift_plan_body d) ''action'' = jget d ''action'' \<or> jget (lift_plan_body d) ''action'' = JStr ''plan''"
proof -
  note keys = dict_has_filter [of "\<lambda>k. k \<notin> set plan_body_fields" d]
    jget_filter [of "\<lambda>k. k \<notin> set plan_body_fields" d]
  have "''plan'' \<notin> set plan_body_fields" "''action'' \<notin> set plan_body_fields"
    by (simp_all add: plan_body_fields_def)
  then show "k \<in> set plan_body_fields \<Longrightarrow> \<not> dict_has (lift_plan_body d) k"
    "k \<notin> set plan_body_fields \<Longrightarrow> k \<noteq> ''action'' \<Longrightarrow> k \<noteq> ''plan'' \<Longrightarrow>
       dict_has (lift_plan_body d) k = dict_has d k \<and> jget (lift_plan_body d) k = jget d k"
    "jget (lift_plan_body d) ''action'' = jget d ''action'' \<or> jget (lift_plan_body d) ''action'' = JStr ''plan''"
    using assms by (auto simp: lift_plan_body_def Let_def keys jget_set_default)
qed

lemma lift_reply_settled:
  assumes "reply_settled d"
  shows "reply_settled (lift_plan_body d)"
proof (cases "is_dict (jget d ''plan'')")
  case True
  with assms show ?thesis by (simp add: lift_plan_body_def)
next
  case False
  note l = lifted_keys [OF False]
  have other: "dict_has (lift_plan_body d) k = dict_has d k" "jget (lift_plan_body d) k = jget d k"
    if "k \<in> {''business_query_plan'', ''clarify'', ''clarification_question'', ''question'', ''grains'',
               ''order_by'', ''sort''}" for k
    using l(2) [of k] that by (auto simp: plan_body_fields_def)
  have "\<not> dict_has (lift_plan_body d) ''order''" using l(1) by (simp add: plan_body_fields_def)
  with assms l(3) show ?thesis by (auto simp: reply_settled_def settled_def other)
qed

lemma normalize_reply_plan_settled:
  "reply_settled d \<Longrightarrow> reply_settled (normalize_reply_plan d)"
  by (cases "jget d ''plan''")
     (auto simp: reply_settled_def settled_def normalize_reply_plan_def jget_set_default)

lemma lifted_plan_settled: "plan_settled (normalize_reply_plan (lift_plan_body d))"
proof (cases "is_dict (jget (lift_plan_body d) ''plan'')")
  case True
  then show ?thesis
    by (auto simp: plan_settled_def normalize_reply_plan_def normalize_plan_dict_idem elim!: is_dictE)
next
  case False
  then have "normalize_reply_plan (lift_plan_body d) = lift_plan_body d"
    by (cases "jget (lift_plan_body d) ''plan''") (simp_all add: normalize_reply_plan_def)
  moreover have "\<not> is_dict (jget d ''plan'')" using False by (auto simp: lift_plan_body_def)
  then have "\<forall>k\<in>set plan_body_fields. \<not> dict_has (lift_plan_body d) k" by (simp add: lifted_keys(1))
  ultimately show ?thesis using False by (simp add: plan_settled_def)
qed

lemma default_reason_settled:
  "reply_settled d \<Longrightarrow> plan_settled d \<Longrightarrow> reply_settled (default_reason d) \<and> plan_settled (default_reason d)"
  by (auto simp: reply_settled_def plan_settled_def settled_def default_reason_def plan_body_fields_def)

text \<open>
  C35. The normalised reply of a planner is a fixed point: normalising it once more, as the code does
  for a plan it lifted, changes nothing.
\<close>

theorem normalize_reply_idempotent:
  "normalize_planner_payload (normalize_planner_payload payload) = normalize_planner_payload payload"
proof (rule reply_fixed)
  let ?d = "normalize_reply_plan (lift_plan_body
       (drop_empty_order_fields (unwrap_grains (apply_clarify_aliases (unwrap_envelope payload)))))"
  have d: "reply_settled ?d" "plan_settled ?d"
    by (intro normalize_reply_plan_settled lift_reply_settled becomes_reply_settled lifted_plan_settled)+
  note r = default_reason_settled [OF d]
  then show "reply_settled (normalize_planner_payload payload)"
    "plan_settled (normalize_planner_payload payload)"
    by (simp_all add: normalize_planner_payload_def)
  show "jget (normalize_planner_payload payload) ''action'' = JStr ''unsupported'' \<Longrightarrow>
      jget (normalize_planner_payload payload) ''unsupported_reason'' \<noteq> JNull"
    by (auto simp: normalize_planner_payload_def default_reason_def split: if_splits)
qed

text \<open>An empty order beside \<open>order_by\<close> wins, and the ordering the model wrote is gone.\<close>

lemma empty_order_hides_order_by:
  "dict_has d ''order'' \<Longrightarrow> jget d ''order'' \<in> {JNull, JList []} \<Longrightarrow>
     \<not> dict_has (drop_empty_order_fields d) ''order''"
  by (auto simp: drop_empty_order_fields_def Let_def set_default_def)

subsection \<open>The validated reply\<close>

datatype reply_action = Plan_action | Clarify_action | Unsupported_action

datatype reply_payload = Plan_payload | Question_payload | Reason_payload

record planner_reply =
  rp_action :: reply_action
  rp_plan :: "plan option"
  rp_companions :: "plan list option"
  rp_question :: "string option"
  rp_choices :: "(string \<times> string) list option"
  rp_reason :: "string option"

datatype reply_error =
    Requires reply_action | Must_not_set reply_payload | Choices_without_clarify
  | Companions_without_plan | Undeclared_set string | Nested_set | Set_with_details
  | Companions_not_unique

fun payload_of :: "reply_action \<Rightarrow> reply_payload" where
  "payload_of Plan_action = Plan_payload"
| "payload_of Clarify_action = Question_payload"
| "payload_of Unsupported_action = Reason_payload"

fun payload_set :: "planner_reply \<Rightarrow> reply_payload \<Rightarrow> bool" where
  "payload_set r Plan_payload = (rp_plan r \<noteq> None)"
| "payload_set r Question_payload = (rp_question r \<noteq> None)"
| "payload_set r Reason_payload = (rp_reason r \<noteq> None)"

text \<open>\<open>_assert_set_references_declared\<close>, then the shape of each declared set.\<close>

definition declared_references :: "plan \<Rightarrow> reply_error + unit" where
  "declared_references p =
     (case filter (\<lambda>ref. ref \<notin> set_id ` set (plan_sets p)) (set_reference_ids (on_plan q_filters p)) of
        [] \<Rightarrow> Inr () | ref # _ \<Rightarrow> Inl (Undeclared_set ref))"

definition plain_set :: "derived_set \<Rightarrow> reply_error + unit" where
  "plain_set s =
     (if plan_sets (set_plan s) \<noteq> [] then Inl Nested_set
      else if on_plan q_details (set_plan s) \<noteq> [] then Inl Set_with_details
      else Inr ())"

definition check_reply_plan :: "plan \<Rightarrow> reply_error + unit" where
  "check_reply_plan p =
     rbind (declared_references p) (\<lambda>_. rbind (rmap plain_set (plan_sets p)) (\<lambda>_. Inr ()))"

definition check_companions :: "(plan \<Rightarrow> string) \<Rightarrow> plan \<Rightarrow> plan list \<Rightarrow> reply_error + unit" where
  "check_companions fingerprint p companions =
     (if companions = [] then Inr ()
      else if \<not> distinct (map fingerprint (p # companions)) then Inl Companions_not_unique
      else rbind (rmap check_reply_plan companions) (\<lambda>_. Inr ()))"

definition exactly_one_payload :: "(plan \<Rightarrow> string) \<Rightarrow> planner_reply \<Rightarrow> reply_error + unit" where
  "exactly_one_payload fingerprint r =
     (if \<not> payload_set r (payload_of (rp_action r)) then Inl (Requires (rp_action r))
      else
        (case filter (\<lambda>f. f \<noteq> payload_of (rp_action r) \<and> payload_set r f)
                [Plan_payload, Question_payload, Reason_payload] of
           f # _ \<Rightarrow> Inl (Must_not_set f)
         | [] \<Rightarrow>
             if rp_action r \<noteq> Clarify_action \<and> rp_choices r \<noteq> None \<and> rp_choices r \<noteq> Some []
             then Inl Choices_without_clarify
             else if rp_action r \<noteq> Plan_action \<and> rp_companions r \<noteq> None
             then Inl Companions_without_plan
             else case rp_plan r of
                 None \<Rightarrow> Inr ()
               | Some p \<Rightarrow> rbind (check_reply_plan p) (\<lambda>_.
                   case rp_companions r of
                     None \<Rightarrow> Inr ()
                   | Some companions \<Rightarrow> check_companions fingerprint p companions)))"

definition reply_plans :: "planner_reply \<Rightarrow> plan list" where
  "reply_plans r =
     (case rp_plan r of None \<Rightarrow> [] | Some p \<Rightarrow> p # (case rp_companions r of None \<Rightarrow> [] | Some cs \<Rightarrow> cs))"

lemma checked_plan:
  assumes "check_reply_plan p = Inr ()"
  shows "set (set_reference_ids (on_plan q_filters p)) \<subseteq> set_id ` set (plan_sets p)"
    "s \<in> set (plan_sets p) \<Longrightarrow> plan_sets (set_plan s) = []"
  using assms
  by (auto simp: check_reply_plan_def declared_references_def plain_set_def filter_empty_conv
      rmap_eq_Inr list_all2_conv_all_nth in_set_conv_nth split: list.splits if_splits)

lemma companions_checked:
  "check_companions fingerprint p cs = Inr () \<Longrightarrow> c \<in> set cs \<Longrightarrow> check_reply_plan c = Inr ()"
  by (auto simp: check_companions_def dest: rmap_InrD split: if_splits)

text \<open>
  A reply that validates carries the payload of its action and no other, its plans have
  different fingerprints, and in each of them every set a filter names is one the plan
  declares, none of which declares sets of its own.
\<close>

theorem valid_reply_payload:
  assumes "exactly_one_payload fingerprint r = Inr ()"
  shows "(\<forall>f. payload_set r f \<longleftrightarrow> f = payload_of (rp_action r)) \<and>
         distinct (map fingerprint (reply_plans r)) \<and>
         (\<forall>p\<in>set (reply_plans r).
            set (set_reference_ids (on_plan q_filters p)) \<subseteq> set_id ` set (plan_sets p) \<and>
            (\<forall>s\<in>set (plan_sets p). plan_sets (set_plan s) = []))"
proof (intro conjI allI)
  fix f
  from assms have own: "payload_set r (payload_of (rp_action r))"
    by (simp add: exactly_one_payload_def split: if_splits)
  from assms have "filter (\<lambda>f. f \<noteq> payload_of (rp_action r) \<and> payload_set r f)
      [Plan_payload, Question_payload, Reason_payload] = []"
    by (simp only: exactly_one_payload_def split: if_splits list.splits) auto
  then have "f \<noteq> payload_of (rp_action r) \<Longrightarrow> \<not> payload_set r f"
    unfolding filter_empty_conv by (cases f) auto
  with own show "payload_set r f \<longleftrightarrow> f = payload_of (rp_action r)" by auto
next
  have plan: "rp_plan r = Some p \<Longrightarrow> check_reply_plan p = Inr () \<and>
      (\<forall>cs. rp_companions r = Some cs \<longrightarrow> check_companions fingerprint p cs = Inr ())" for p
    using assms by (auto simp: exactly_one_payload_def split: if_splits list.splits option.splits)
  show "distinct (map fingerprint (reply_plans r))"
    using plan by (auto simp: reply_plans_def check_companions_def split: option.splits if_splits)
  have "check_reply_plan p = Inr ()" if "p \<in> set (reply_plans r)" for p
    using that plan by (cases "rp_plan r"; cases "rp_companions r") (auto simp: reply_plans_def companions_checked)
  then show "\<forall>p\<in>set (reply_plans r).
            set (set_reference_ids (on_plan q_filters p)) \<subseteq> set_id ` set (plan_sets p) \<and>
            (\<forall>s\<in>set (plan_sets p). plan_sets (set_plan s) = [])"
    using checked_plan by blast
qed

definition demo_reply :: planner_reply where
  "demo_reply = \<lparr>rp_action = Clarify_action, rp_plan = None, rp_companions = None,
     rp_question = Some ''which year'', rp_choices = Some [(''1'', ''2023'')], rp_reason = None\<rparr>"

theorem valid_reply_payload_witness:
  "payload_set demo_reply Question_payload \<and> \<not> payload_set demo_reply Plan_payload"
  using valid_reply_payload [of "\<lambda>_. []" demo_reply]
  by (simp add: exactly_one_payload_def demo_reply_def)

end
