(* ===== verification/Plan_Patch.thy ===== *)
theory Plan_Patch
  imports Json
begin

text \<open>
  Patches of a stored plan (app/business_query/plan/plan_patch.py): JSON Pointer paths, and the
  operations add, remove and replace on the plan's JSON, applied in order to a copy of it. The code
  changes its copy in place; a value is a tree here, and each operation returns the new one. The
  plan's own dump and validation are parameters of \<open>apply_plan_patch\<close>.
\<close>

subsection \<open>Operations and refusals\<close>

datatype patch_op = Add_op string json | Remove_op string | Replace_op string json

datatype refusal = Unknown_path | Index_out_of_range | Invalid_plan

fun op_path :: "patch_op \<Rightarrow> string" where
  "op_path (Add_op p v) = p"
| "op_path (Remove_op p) = p"
| "op_path (Replace_op p v) = p"

record plan_patch =
  pp_subject :: string
  pp_ops :: "patch_op list"
  pp_mentions :: "string list"

definition wf_patch :: "plan_patch \<Rightarrow> bool" where
  "wf_patch p \<longleftrightarrow> 1 \<le> length (pp_ops p) \<and> length (pp_ops p) \<le> 8"

subsection \<open>Pointers\<close>

text \<open>\<open>s.split(c)\<close> and \<open>s.replace(ab, c)\<close> for a pattern of two characters.\<close>

fun split_char :: "char \<Rightarrow> string \<Rightarrow> string list" where
  "split_char c [] = [[]]"
| "split_char c (x # xs) =
     (if x = c then [] # split_char c xs
      else (x # hd (split_char c xs)) # tl (split_char c xs))"

fun replace_pair :: "char \<Rightarrow> char \<Rightarrow> string \<Rightarrow> string \<Rightarrow> string" where
  "replace_pair a b r (x # y # xs) =
     (if x = a \<and> y = b then r @ replace_pair a b r xs else x # replace_pair a b r (y # xs))"
| "replace_pair a b r xs = xs"

definition decode_segment :: "string \<Rightarrow> string" where
  "decode_segment s = replace_pair CHR ''~'' CHR ''0'' ''~'' (replace_pair CHR ''~'' CHR ''1'' ''/'' s)"

definition parse_pointer :: "string \<Rightarrow> refusal + string list" where
  "parse_pointer path =
     (if path = [] \<or> hd path \<noteq> CHR ''/'' then Inl Unknown_path
      else (let raw = tl (split_char CHR ''/'' path) in
            if raw = [] \<or> list_all (\<lambda>s. s = []) raw then Inl Unknown_path
            else Inr (map decode_segment raw)))"

definition parse_list_index :: "string \<Rightarrow> refusal + int" where
  "parse_list_index segment = (case py_int segment of None \<Rightarrow> Inl Unknown_path | Some i \<Rightarrow> Inr i)"

text \<open>An index, when it is below the bound.\<close>

definition index_below :: "int \<Rightarrow> string \<Rightarrow> refusal + nat" where
  "index_below bound segment =
     rbind (parse_list_index segment) (\<lambda>i.
       if i < 0 \<or> bound \<le> i then Inl Index_out_of_range else Inr (nat i))"

subsection \<open>Applying one operation\<close>

definition insert_at :: "nat \<Rightarrow> 'a \<Rightarrow> 'a list \<Rightarrow> 'a list" where
  "insert_at i v xs = take i xs @ v # drop i xs"

definition remove_at :: "nat \<Rightarrow> 'a list \<Rightarrow> 'a list" where
  "remove_at i xs = take i xs @ drop (Suc i) xs"

definition apply_add :: "json \<Rightarrow> json \<Rightarrow> string \<Rightarrow> refusal + json" where
  "apply_add v container key =
     (case container of
        JObj d \<Rightarrow> Inr (JObj (dict_set d key v))
      | JList xs \<Rightarrow>
          if key = ''-'' then Inr (JList (xs @ [v]))
          else rbind (index_below (int (length xs) + 1) key) (\<lambda>i. Inr (JList (insert_at i v xs)))
      | _ \<Rightarrow> Inl Unknown_path)"

definition apply_remove :: "json \<Rightarrow> string \<Rightarrow> refusal + json" where
  "apply_remove container key =
     (case container of
        JObj d \<Rightarrow> if dict_has d key then Inr (JObj (dict_del d key)) else Inl Unknown_path
      | JList xs \<Rightarrow> rbind (index_below (int (length xs)) key) (\<lambda>i. Inr (JList (remove_at i xs)))
      | _ \<Rightarrow> Inl Unknown_path)"

definition apply_replace :: "json \<Rightarrow> json \<Rightarrow> string \<Rightarrow> refusal + json" where
  "apply_replace v container key =
     (case container of
        JObj d \<Rightarrow> if dict_has d key then Inr (JObj (dict_set d key v)) else Inl Unknown_path
      | JList xs \<Rightarrow> rbind (index_below (int (length xs)) key) (\<lambda>i. Inr (JList (xs[i := v])))
      | _ \<Rightarrow> Inl Unknown_path)"

text \<open>\<open>_resolve_parent_container\<close>, and the change of the container it finds.\<close>

fun update_parent :: "(json \<Rightarrow> string \<Rightarrow> refusal + json) \<Rightarrow> string list \<Rightarrow> json \<Rightarrow> refusal + json" where
  "update_parent change [] v = Inl Unknown_path"
| "update_parent change [key] v = change v key"
| "update_parent change (segment # s # rest) v =
     (case v of
        JObj d \<Rightarrow>
          (case dict_get d segment of
             None \<Rightarrow> Inl Unknown_path
           | Some child \<Rightarrow> rbind (update_parent change (s # rest) child) (\<lambda>c. Inr (JObj (dict_set d segment c))))
      | JList xs \<Rightarrow>
          rbind (index_below (int (length xs)) segment) (\<lambda>i.
          rbind (update_parent change (s # rest) (xs ! i)) (\<lambda>c. Inr (JList (xs[i := c]))))
      | _ \<Rightarrow> Inl Unknown_path)"

fun op_change :: "patch_op \<Rightarrow> json \<Rightarrow> string \<Rightarrow> refusal + json" where
  "op_change (Add_op p v) = apply_add v"
| "op_change (Remove_op p) = apply_remove"
| "op_change (Replace_op p v) = apply_replace v"

definition apply_single_op :: "json \<Rightarrow> patch_op \<Rightarrow> refusal + json" where
  "apply_single_op payload op =
     rbind (parse_pointer (op_path op)) (\<lambda>segments. update_parent (op_change op) segments payload)"

definition apply_plan_patch ::
  "('p \<Rightarrow> json) \<Rightarrow> (json \<Rightarrow> 'p option) \<Rightarrow> 'p \<Rightarrow> patch_op list \<Rightarrow> refusal + 'p" where
  "apply_plan_patch dump validate plan ops =
     rbind (rfold apply_single_op (dump plan) ops) (\<lambda>payload.
       case validate payload of None \<Rightarrow> Inl Invalid_plan | Some p \<Rightarrow> Inr p)"

subsection \<open>Pointers read back\<close>

text \<open>A pointer as RFC 6901 writes it.\<close>

definition escape_char :: "char \<Rightarrow> string" where
  "escape_char c = (if c = CHR ''~'' then ''~0'' else if c = CHR ''/'' then ''~1'' else [c])"

definition escape_segment :: "string \<Rightarrow> string" where
  "escape_segment s = concat (map escape_char s)"

definition write_pointer :: "string list \<Rightarrow> string" where
  "write_pointer segments = concat (map (\<lambda>s. CHR ''/'' # escape_segment s) segments)"

lemma replace_pair_other: "x \<noteq> a \<Longrightarrow> replace_pair a b r (x # xs) = x # replace_pair a b r xs"
  by (cases xs) auto

lemma slashes_restored:
  "replace_pair CHR ''~'' CHR ''1'' ''/'' (escape_segment s) =
     concat (map (\<lambda>c. if c = CHR ''~'' then ''~0'' else [c]) s)"
  by (induction s) (auto simp: escape_segment_def escape_char_def replace_pair_other)

lemma tildes_restored:
  "replace_pair CHR ''~'' CHR ''0'' ''~'' (concat (map (\<lambda>c. if c = CHR ''~'' then ''~0'' else [c]) s)) = s"
  by (induction s) (auto simp: replace_pair_other)

lemma decode_escaped: "decode_segment (escape_segment s) = s"
  by (simp add: decode_segment_def slashes_restored tildes_restored)

lemma split_char_nonempty: "split_char c s \<noteq> []"
  by (cases s) auto

lemma split_escaped: "split_char CHR ''/'' (escape_segment s @ rest) =
    (escape_segment s @ hd (split_char CHR ''/'' rest)) # tl (split_char CHR ''/'' rest)"
proof (induction s)
  case Nil
  show ?case using split_char_nonempty [of "CHR ''/''" rest] by (simp add: escape_segment_def)
next
  case (Cons c s)
  then show ?case by (auto simp: escape_segment_def escape_char_def)
qed

lemma split_written: "split_char CHR ''/'' (write_pointer segments) = [] # map escape_segment segments"
  by (induction segments) (simp_all add: write_pointer_def split_escaped)

lemma escape_segment_Nil: "escape_segment s = [] \<longleftrightarrow> s = []"
  by (cases s) (auto simp: escape_segment_def escape_char_def)

text \<open>
  C34. Reading back a written pointer gives its segments, whatever tildes and slashes they contain; only
  the pointer without a single named segment is refused.
\<close>

theorem pointer_roundtrip:
  "parse_pointer (write_pointer segments) =
     (if list_all (\<lambda>s. s = []) segments then Inl Unknown_path else Inr segments)"
proof (cases segments)
  case Nil
  then show ?thesis by (simp add: parse_pointer_def write_pointer_def)
next
  case (Cons s rest)
  then have "write_pointer segments \<noteq> [] \<and> hd (write_pointer segments) = CHR ''/''"
    by (simp add: write_pointer_def)
  with Cons show ?thesis
    by (simp add: parse_pointer_def split_written Let_def list.pred_map comp_def escape_segment_Nil
        decode_escaped cong: list.pred_cong)
qed

subsection \<open>What an operation changes\<close>

text \<open>The value a path names.\<close>

fun value_at :: "string list \<Rightarrow> json \<Rightarrow> json option" where
  "value_at [] v = Some v"
| "value_at (s # rest) v =
     (case v of
        JObj d \<Rightarrow> (case dict_get d s of None \<Rightarrow> None | Some child \<Rightarrow> value_at rest child)
      | JList xs \<Rightarrow>
          (case index_below (int (length xs)) s of Inl _ \<Rightarrow> None | Inr i \<Rightarrow> value_at rest (xs ! i))
      | _ \<Rightarrow> None)"

lemma index_below_less: "index_below (int n) s = Inr i \<Longrightarrow> i < n"
  by (auto simp: index_below_def split: if_splits)

lemma index_below_mono: "index_below (int m) s = Inr i \<Longrightarrow> i < n \<Longrightarrow> index_below (int n) s = Inr i"
  by (auto simp: index_below_def split: if_splits)

text \<open>The container that holds the last segment, and what an operation makes of it.\<close>

lemma update_parent_Cons:
  "ss \<noteq> [] \<Longrightarrow> update_parent change (s # ss) v =
     (case v of
        JObj d \<Rightarrow>
          (case dict_get d s of
             None \<Rightarrow> Inl Unknown_path
           | Some child \<Rightarrow> rbind (update_parent change ss child) (\<lambda>c. Inr (JObj (dict_set d s c))))
      | JList xs \<Rightarrow>
          rbind (index_below (int (length xs)) s) (\<lambda>i.
          rbind (update_parent change ss (xs ! i)) (\<lambda>c. Inr (JList (xs[i := c]))))
      | _ \<Rightarrow> Inl Unknown_path)"
  by (cases ss; cases v; simp split: option.split)

lemma update_parent_ex:
  assumes "update_parent change (segs @ [key]) v = Inr w"
  shows "\<exists>c c'. value_at segs v = Some c \<and> change c key = Inr c' \<and> value_at segs w = Some c' \<and>
    (\<forall>change2 c2. change2 c' key = Inr c2 \<longrightarrow>
       (\<exists>u. update_parent change2 (segs @ [key]) w = Inr u \<and> (c2 = c \<longrightarrow> u = v)))"
  using assms
proof (induction segs arbitrary: v w)
  case Nil
  then show ?case by auto
next
  case (Cons s segs)
  show ?case
  proof (cases v)
    case (JObj d)
    with Cons.prems obtain child new where child: "dict_get d s = Some child"
      "update_parent change (segs @ [key]) child = Inr new" and w: "w = JObj (dict_set d s new)"
      by (auto simp: update_parent_Cons split: option.splits)
    have "dict_set (dict_set d s new) s child = d" using child(1) by (simp add: update_Some_same)
    with Cons.IH [OF child(2)] show ?thesis
      by (fastforce simp: JObj child(1) w update_parent_Cons update_conv')
  next
    case (JList xs)
    with Cons.prems obtain i new where i: "index_below (int (length xs)) s = Inr i"
      and new: "update_parent change (segs @ [key]) (xs ! i) = Inr new" and w: "w = JList (xs[i := new])"
      by (auto simp: update_parent_Cons)
    note less = index_below_less [OF i]
    from Cons.IH [OF new] less show ?thesis
      by (fastforce simp: JList i w update_parent_Cons)
  qed (use Cons.prems in \<open>simp_all add: update_parent_Cons\<close>)
qed

lemma update_parent_cases:
  assumes "update_parent change (segs @ [key]) v = Inr w"
  obtains c c' where "value_at segs v = Some c" "change c key = Inr c'" "value_at segs w = Some c'"
    "\<And>change2 c2. change2 c' key = Inr c2 \<Longrightarrow>
       \<exists>u. update_parent change2 (segs @ [key]) w = Inr u \<and> (c2 = c \<longrightarrow> u = v)"
  using update_parent_ex [OF assms] by blast

lemma value_at_append: "value_at (ss @ ts) v = (case value_at ss v of None \<Rightarrow> None | Some w \<Rightarrow> value_at ts w)"
  by (induction ss arbitrary: v) (auto split: json.split option.split sum.split)

lemma parsed_nonempty: "parse_pointer path = Inr segs \<Longrightarrow> segs \<noteq> []"
  by (auto simp: parse_pointer_def Let_def split: if_splits)

text \<open>
  After a replacement the path reads the new value, and it read some value before.
\<close>

theorem replaced_value_is_read:
  assumes "apply_single_op payload (Replace_op path v) = Inr result"
    and "parse_pointer path = Inr segs"
  shows "value_at segs result = Some v \<and> value_at segs payload \<noteq> None"
proof -
  obtain ss key where segs: "segs = ss @ [key]"
    using parsed_nonempty [OF assms(2)] by (metis append_butlast_last_id)
  from assms have "update_parent (apply_replace v) (ss @ [key]) payload = Inr result"
    by (simp add: apply_single_op_def segs)
  then obtain c c' where c: "value_at ss payload = Some c" "apply_replace v c key = Inr c'"
    "value_at ss result = Some c'"
    by (rule update_parent_cases) blast
  from c(2) have "value_at [key] c' = Some v \<and> value_at [key] c \<noteq> None"
    using index_below_less
    by (cases c) (auto simp: apply_replace_def update_conv' dict_has_iff intro!: nth_list_update_eq split: if_splits)
  with c show ?thesis by (simp add: segs value_at_append)
qed

text \<open>
  Removing what was just added gives the payload back, down to the order of its keys, provided the
  addition put something new in place: a key that was not there, or an element of a list.
\<close>

theorem add_then_remove:
  assumes "apply_single_op payload (Add_op path v) = Inr result"
    and "parse_pointer path = Inr (segs @ [key])" and "key \<noteq> ''-''"
    and "\<And>d. value_at segs payload = Some (JObj d) \<Longrightarrow> \<not> dict_has d key"
  shows "apply_single_op result (Remove_op path) = Inr payload"
proof -
  from assms have "update_parent (apply_add v) (segs @ [key]) payload = Inr result"
    by (simp add: apply_single_op_def)
  then obtain c c' where c: "value_at segs payload = Some c" "apply_add v c key = Inr c'" and
    undo: "\<And>change2 c2. change2 c' key = Inr c2 \<Longrightarrow>
       \<exists>u. update_parent change2 (segs @ [key]) result = Inr u \<and> (c2 = c \<longrightarrow> u = payload)"
    by (rule update_parent_cases) blast
  have "apply_remove c' key = Inr c"
  proof (cases c)
    case (JObj d)
    with c assms(4) show ?thesis by (auto simp: apply_add_def apply_remove_def dict_del_set_fresh)
  next
    case (JList xs)
    with c(2) assms(3) obtain i where i: "index_below (int (length xs) + 1) key = Inr i"
      and c': "c' = JList (insert_at i v xs)"
      by (auto simp: apply_add_def)
    have le: "i \<le> length xs" using index_below_less [of "length xs + 1" key i] i by (simp add: add.commute)
    then have "length (insert_at i v xs) = length xs + 1" by (simp add: insert_at_def)
    with i le show ?thesis
      by (simp add: JList c' apply_remove_def remove_at_def) (simp add: insert_at_def min_def add.commute)
  qed (use c in \<open>simp_all add: apply_add_def\<close>)
  from undo [of apply_remove, OF this] show ?thesis
    by (auto simp: apply_single_op_def assms(2))
qed

lemma op_keeps_other_fields:
  assumes "apply_single_op (JObj d) op = Inr w" and "parse_pointer (op_path op) = Inr segs"
    and "k \<noteq> hd segs"
  shows "\<exists>d'. w = JObj d' \<and> dict_get d' k = dict_get d k"
proof (cases "tl segs = []")
  case True
  then obtain key where segs: "segs = [key]"
    using parsed_nonempty [OF assms(2)] by (metis list.collapse)
  with assms show ?thesis
    by (cases op) (auto simp: apply_single_op_def apply_add_def apply_remove_def apply_replace_def
        update_conv' delete_conv' split: if_splits)
next
  case False
  then obtain s ss where segs: "segs = s # ss" "ss \<noteq> []" by (cases segs) auto
  with assms show ?thesis
    by (auto simp: apply_single_op_def update_parent_Cons update_conv' split: option.splits)
qed

text \<open>
  A patch of an object changes only the fields its paths begin with.
\<close>

theorem patch_keeps_other_fields:
  assumes "rfold apply_single_op (JObj d) ops = Inr result"
    and "\<forall>op\<in>set ops. \<forall>segs. parse_pointer (op_path op) = Inr segs \<longrightarrow> hd segs \<noteq> k"
  shows "\<exists>d'. result = JObj d' \<and> dict_get d' k = dict_get d k"
proof (rule rfold_invariant [OF assms(1)])
  show "\<exists>d'. JObj d = JObj d' \<and> dict_get d' k = dict_get d k" by simp
next
  fix v op w
  assume "\<exists>d'. v = JObj d' \<and> dict_get d' k = dict_get d k" and op: "op \<in> set ops"
    and step: "apply_single_op v op = Inr w"
  then obtain d' where v: "v = JObj d'" "dict_get d' k = dict_get d k" by auto
  from step obtain segs where segs: "parse_pointer (op_path op) = Inr segs"
    by (auto simp: apply_single_op_def)
  with assms(2) op have "k \<noteq> hd segs" by auto
  from op_keeps_other_fields [OF step [unfolded v(1)] segs this] v(2)
  show "\<exists>d'. w = JObj d' \<and> dict_get d' k = dict_get d k" by simp
qed

definition demo_plan_json :: jdict where
  "demo_plan_json = [(''measures'', JList [JStr ''sales.total'']), (''limit'', JInt 5)]"

lemmas patch_eval = apply_single_op_def parse_pointer_def decode_segment_def apply_add_def
  apply_remove_def apply_replace_def index_below_def parse_list_index_def py_int_def py_strip_def
  py_lstrip_def is_space_def code_of_def is_digit_def read_digits_def digit_val_def insert_at_def
  remove_at_def dict_has_def

lemma demo_replaced:
  "apply_single_op (JObj demo_plan_json) (Replace_op ''/measures/0'' (JStr ''sales.count'')) =
     Inr (JObj [(''measures'', JList [JStr ''sales.count'']), (''limit'', JInt 5)])"
  by (simp add: demo_plan_json_def patch_eval)

lemma demo_added:
  "apply_single_op (JObj demo_plan_json) (Add_op ''/measures/0'' (JStr ''sales.count'')) =
     Inr (JObj [(''measures'', JList [JStr ''sales.count'', JStr ''sales.total'']), (''limit'', JInt 5)])"
  by (simp add: demo_plan_json_def patch_eval)

lemma demo_path: "parse_pointer ''/measures/0'' = Inr [''measures'', ''0'']"
  by (simp add: patch_eval)

theorem replaced_value_is_read_witness:
  "value_at [''measures'', ''0'']
     (JObj [(''measures'', JList [JStr ''sales.count'']), (''limit'', JInt 5)]) = Some (JStr ''sales.count'')"
  using replaced_value_is_read [OF demo_replaced demo_path] by simp

theorem add_then_remove_witness:
  "apply_single_op (JObj [(''measures'', JList [JStr ''sales.count'', JStr ''sales.total'']), (''limit'', JInt 5)])
     (Remove_op ''/measures/0'') = Inr (JObj demo_plan_json)"
  by (rule add_then_remove [OF demo_added, of "[''measures'']" "''0''"])
     (simp_all add: demo_path demo_plan_json_def)

theorem patch_keeps_other_fields_witness:
  "\<exists>d'. JObj [(''measures'', JList [JStr ''sales.count'']), (''limit'', JInt 5)] = JObj d' \<and>
     dict_get d' ''limit'' = Some (JInt 5)"
  using patch_keeps_other_fields [of demo_plan_json "[Replace_op ''/measures/0'' (JStr ''sales.count'')]" _ "''limit''"]
    demo_replaced demo_path
  by (simp add: demo_plan_json_def)

end
