(* ===== verification/Bundle.thy ===== *)
theory Bundle
  imports Query_Plan Join_Paths
begin

text \<open>
  The signed definition bundle (app/business_query/definitions/schema.py, member_resolution.py,
  allowed_values.py), the verified caller (app/auth/principal.py), and what of the bundle a caller
  may name (app/business_query/authorize/capability.py). Records hold the fields this code reads.
\<close>

subsection \<open>The caller\<close>

text \<open>\<open>scope_values\<close> may be absent, or present without a department. A user id is kept as the text
  \<open>str\<close> gives, the only form in which it is compared.\<close>

record principal =
  pr_user :: string
  pr_role :: string
  pr_permissions :: "string list"
  pr_department :: "int option"
  pr_entity :: "int option"
  pr_cross :: "bool option"
  pr_manifest :: "string option"
  pr_scope :: "int option option"

definition cross_entity :: "principal \<Rightarrow> bool" where
  "cross_entity p \<longleftrightarrow> pr_cross p = Some True"

definition scope_department :: "principal \<Rightarrow> int option" where
  "scope_department p = (case pr_scope p of None \<Rightarrow> None | Some d \<Rightarrow> d)"

subsection \<open>Definitions\<close>

datatype department_mode = No_department | Filter_when_present | Required_match

record resource_binding =
  rb_name :: string
  rb_primary_key :: string
  rb_mode :: department_mode
  rb_predicates :: "(string, scalar) dict"
  rb_entity_column :: "string option"
  rb_department_column :: "string option"
  rb_label :: "string option"

record detail_definition =
  de_family :: string
  de_revision :: string
  de_owner :: string
  de_required :: "string list"
  de_current :: bool
  de_logical :: string
  de_family_aliases :: "string list"
  de_aliases :: "string list"
  de_values :: "(string, scalar) dict"

datatype expression_kind = Ratio_kind | Share_kind

record measure_definition =
  ms_name :: string
  ms_resource :: string
  ms_format :: "string option"
  ms_currency :: "string option"
  ms_kind :: "expression_kind option"

datatype dimension_type = Ty_string | Ty_number | Ty_time | Ty_boolean

record dimension_definition =
  dm_name :: string
  dm_resource :: string
  dm_sql :: string
  dm_type :: dimension_type
  dm_primary_key :: bool
  dm_allowed :: "string list"
  dm_kind :: "string option"
  dm_label :: "string option"

record bucket_definition =
  bk_name :: string
  bk_resource :: string
  bk_dated :: bool

record segment_definition =
  sg_name :: string
  sg_resource :: string

datatype capability_kind = Measure_kind | Dimension_kind | Bucket_kind | Segment_kind

datatype capability_state = Cap_enabled | Cap_pending | Cap_unsupported

record capability_entry =
  ca_name :: string
  ca_kind :: capability_kind
  ca_resolves :: string
  ca_title :: string
  ca_description :: string
  ca_permissions :: "string list"
  ca_state :: capability_state

record bundle_definitions =
  bd_hash :: string
  bd_resources :: "resource_binding list"
  bd_measures :: "measure_definition list"
  bd_dimensions :: "dimension_definition list"
  bd_joins :: "join list"
  bd_buckets :: "bucket_definition list"
  bd_segments :: "segment_definition list"
  bd_capabilities :: "capability_entry list"
  bd_combinations :: "string list list"
  bd_details :: "detail_definition list"

text \<open>The part of the bundle's own validation that later code leans on: revisions of a detail family
  are distinct, one of several is current, and their owners are declared.\<close>

definition wf_details :: "bundle_definitions \<Rightarrow> bool" where
  "wf_details b \<longleftrightarrow>
     (\<forall>d\<in>set (bd_details b). de_owner d \<in> rb_name ` set (bd_resources b)) \<and>
     distinct (map (\<lambda>d. (de_family d, de_revision d)) (bd_details b)) \<and>
     (\<forall>d\<in>set (bd_details b).
        (let revisions = filter (\<lambda>e. de_family e = de_family d) (bd_details b) in
         1 < length revisions \<longrightarrow> length (filter de_current revisions) = 1))"

text \<open>\<open>definition_for\<close>, by the resource that owns the definition; \<open>next\<close> takes the first.\<close>

definition definition_owner :: "bundle_definitions \<Rightarrow> capability_kind \<Rightarrow> string \<Rightarrow> string option" where
  "definition_owner b kind name =
     (case kind of
        Measure_kind \<Rightarrow> map_option ms_resource (List.find (\<lambda>m. ms_name m = name) (bd_measures b))
      | Dimension_kind \<Rightarrow> map_option dm_resource (List.find (\<lambda>d. dm_name d = name) (bd_dimensions b))
      | Bucket_kind \<Rightarrow> map_option bk_resource (List.find (\<lambda>k. bk_name k = name) (bd_buckets b))
      | Segment_kind \<Rightarrow> map_option sg_resource (List.find (\<lambda>s. sg_name s = name) (bd_segments b)))"

definition owning_resource :: "bundle_definitions \<Rightarrow> capability_entry \<Rightarrow> string option" where
  "owning_resource b e = definition_owner b (ca_kind e) (ca_resolves e)"

definition capability_named :: "bundle_definitions \<Rightarrow> string \<Rightarrow> capability_entry option" where
  "capability_named b member = List.find (\<lambda>e. ca_name e = member) (bd_capabilities b)"

definition member_owning_resource :: "bundle_definitions \<Rightarrow> string \<Rightarrow> string option" where
  "member_owning_resource b member =
     (case capability_named b member of None \<Rightarrow> None | Some e \<Rightarrow> owning_resource b e)"

definition measure_for_member :: "bundle_definitions \<Rightarrow> string \<Rightarrow> measure_definition option" where
  "measure_for_member b member =
     (let target = (case capability_named b member of Some e \<Rightarrow> ca_resolves e | None \<Rightarrow> member) in
      List.find (\<lambda>m. ms_name m = target) (bd_measures b))"

text \<open>\<open>resolve_detail_definition\<close>: a pinned revision, the only one, or the current one.\<close>

definition resolve_detail_definition ::
    "bundle_definitions \<Rightarrow> string \<Rightarrow> string option \<Rightarrow> detail_definition option" where
  "resolve_detail_definition b family revision =
     (case filter (\<lambda>d. de_family d = family \<and> (revision = None \<or> revision = Some (de_revision d)))
             (bd_details b) of
        [] \<Rightarrow> None
      | d # rest \<Rightarrow> if revision \<noteq> None \<or> rest = [] then Some d else List.find de_current (d # rest))"

subsection \<open>What a caller may name\<close>

definition permissions_satisfied :: "capability_entry \<Rightarrow> principal \<Rightarrow> bool" where
  "permissions_satisfied e p \<longleftrightarrow>
     ca_permissions e \<noteq> [] \<and> set (ca_permissions e) \<subseteq> set (pr_permissions p)"

definition visible_entries :: "principal \<Rightarrow> bundle_definitions \<Rightarrow> capability_entry list" where
  "visible_entries p b =
     filter (\<lambda>e. ca_state e = Cap_enabled \<and> permissions_satisfied e p) (bd_capabilities b)"

definition spaced :: "string \<Rightarrow> string" where
  "spaced s = map (\<lambda>c. if c = CHR ''_'' then CHR '' '' else c) s"

definition detail_permissions_satisfied :: "detail_definition \<Rightarrow> principal \<Rightarrow> bool" where
  "detail_permissions_satisfied d p \<longleftrightarrow>
     (let required = (if de_required d = [] then [''view '' @ spaced (de_owner d)] else de_required d) in
      pr_role p = ''superadmin'' \<or> set required \<subseteq> set (pr_permissions p))"

definition visible_members :: "principal \<Rightarrow> bundle_definitions \<Rightarrow> string set" where
  "visible_members p b =
     ca_name ` set (visible_entries p b) \<union>
     de_family ` set (filter (\<lambda>d. detail_permissions_satisfied d p) (bd_details b))"

text \<open>Record types the caller has no member for, and those with one.\<close>

definition outside_access_labels :: "principal \<Rightarrow> bundle_definitions \<Rightarrow> string list" where
  "outside_access_labels p b =
     (let visible = map ca_name (visible_entries p b);
          resolved = map ca_resolves (filter (\<lambda>e. ca_name e \<in> set visible) (bd_capabilities b));
          owners = map ms_resource (filter (\<lambda>m. ms_name m \<in> set resolved) (bd_measures b)) @
                   map dm_resource (filter (\<lambda>d. dm_name d \<in> set resolved) (bd_dimensions b)) in
      sort (kept (map (\<lambda>r. case rb_label r of
                Some l \<Rightarrow> if l \<noteq> [] \<and> rb_name r \<notin> set owners then Some l else None
              | None \<Rightarrow> None) (bd_resources b))))"

definition available_access_labels :: "principal \<Rightarrow> bundle_definitions \<Rightarrow> string list" where
  "available_access_labels p b =
     (let outside = outside_access_labels p b in
      sort (kept (map (\<lambda>r. case rb_label r of
                Some l \<Rightarrow> if l \<noteq> [] \<and> l \<notin> set outside then Some l else None
              | None \<Rightarrow> None) (bd_resources b))))"

definition time_dimension_members :: "bundle_definitions \<Rightarrow> string set" where
  "time_dimension_members b =
     ca_name ` {e \<in> set (bd_capabilities b). ca_kind e = Dimension_kind \<and>
        ca_resolves e \<in> dm_name ` {d \<in> set (bd_dimensions b). dm_type d = Ty_time}}"

definition visible_dimension_names :: "bundle_definitions \<Rightarrow> string set \<Rightarrow> string list \<Rightarrow> string list" where
  "visible_dimension_names b visible wanted =
     sort (map ca_name (filter (\<lambda>e. ca_kind e = Dimension_kind \<and> ca_resolves e \<in> set wanted \<and>
        ca_name e \<in> visible) (bd_capabilities b)))"

text \<open>The combinations of which every member is visible, each sorted.\<close>

definition visible_safe_combinations :: "string set \<Rightarrow> string list list \<Rightarrow> string list list" where
  "visible_safe_combinations visible combinations =
     map sort (filter (\<lambda>c. c \<noteq> [] \<and> set c \<subseteq> visible) combinations)"

end
