(* ===== verification/Visibility.thy ===== *)
theory Visibility
  imports Bundle
begin

text \<open>
  The preconditions of a plan over a bundle and a caller
  (app/business_query/authorize/preconditions.py), and the values a filter may compare with
  (allowed_filter_values_valid in capability.py, definitions/allowed_values.py).
\<close>

subsection \<open>Members\<close>

datatype visibility_violation = Unknown_members "string list" | Unauthorized_member

fun attribute_leaves :: "filter_node option \<Rightarrow> attribute_predicate list" where
  "attribute_leaves None = []"
| "attribute_leaves (Some g) =
     kept (map (\<lambda>l. case l of Attribute a \<Rightarrow> Some a | Plan_filter f \<Rightarrow> None) (iter_filter_leaves g))"

definition attribute_predicates :: "plan \<Rightarrow> attribute_predicate list" where
  "attribute_predicates p =
     on_plan q_attributes p @ attribute_leaves (on_plan q_filters p) @ attribute_leaves (on_plan q_having p)"

text \<open>A predicate that pins a revision needs the grants of that revision.\<close>

definition pinned_revision_denied :: "principal \<Rightarrow> bundle_definitions \<Rightarrow> attribute_predicate \<Rightarrow> bool" where
  "pinned_revision_denied who b a =
     (case at_revision a of
        None \<Rightarrow> False
      | Some revision \<Rightarrow>
          (case filter (\<lambda>d. de_family d = at_family a \<and> de_revision d = revision) (bd_details b) of
             [] \<Rightarrow> True
           | d # _ \<Rightarrow> \<not> detail_permissions_satisfied d who))"

definition selection_denied :: "principal \<Rightarrow> bundle_definitions \<Rightarrow> detail_selection \<Rightarrow> bool" where
  "selection_denied who b s =
     (if dt_mode s = ''as_of'' then True
      else if dt_mode s = ''exact'' \<and> dt_revision s = None then True
      else if dt_mode s \<noteq> ''exact'' \<and> dt_revision s \<noteq> None then True
      else
        (let family = filter (\<lambda>d. de_family d = dt_family s) (bd_details b);
             pinned = (case dt_revision s of None \<Rightarrow> family
                       | Some h \<Rightarrow> filter (\<lambda>d. de_revision d = h) family) in
         if pinned = [] then True
         else
           (let revisions = (if dt_revision s = None \<and> dt_mode s = ''current'' then filter de_current pinned
                             else pinned) in
            if dt_mode s \<in> {''current'', ''exact''} \<and> length revisions \<noteq> 1 then True
            else revisions = [] \<or> (\<exists>d\<in>set revisions. \<not> detail_permissions_satisfied d who))))"

definition known_members :: "bundle_definitions \<Rightarrow> string set" where
  "known_members b = ca_name ` set (bd_capabilities b) \<union> de_family ` set (bd_details b)"

definition check_member_visibility ::
    "plan \<Rightarrow> principal \<Rightarrow> bundle_definitions \<Rightarrow> visibility_violation option" where
  "check_member_visibility p who b =
     (let members = plan_member_names p in
      if members \<subseteq> visible_members who b then
        (if list_ex (pinned_revision_denied who b) (attribute_predicates p) \<or>
            list_ex (selection_denied who b) (on_plan q_details p)
         then Some Unauthorized_member else None)
      else if \<not> members \<subseteq> known_members b
        then Some (Unknown_members (sorted_list_of_set (members - known_members b)))
      else Some Unauthorized_member)"

subsection \<open>Currency\<close>

datatype currency_violation = Not_declared string | Alias_not_visible string | Not_constrained string

definition check_native_currency ::
    "string \<Rightarrow> string option \<Rightarrow> plan \<Rightarrow> string set \<Rightarrow> bundle_definitions \<Rightarrow> currency_violation option" where
  "check_native_currency member currency p allowed b =
     (case currency of
        None \<Rightarrow> Some (Not_declared member)
      | Some c \<Rightarrow>
          (let aliases = filter (\<lambda>n. n \<in> allowed) (map ca_name
                 (filter (\<lambda>e. ca_kind e = Dimension_kind \<and> ca_resolves e = c) (bd_capabilities b))) in
           if aliases = [] then Some (Alias_not_visible member)
           else if on_plan q_grain p = Grouped \<and> list_ex (\<lambda>n. n \<in> set (on_plan q_dimensions p)) aliases \<or>
                   list_ex (\<lambda>n. case on_plan q_filters p of None \<Rightarrow> False
                                | Some g \<Rightarrow> guaranteed_single_equality n g \<noteq> None) aliases
             then None
           else Some (Not_constrained member)))"

subsection \<open>The business date\<close>

definition business_date_missing :: "plan \<Rightarrow> bundle_definitions \<Rightarrow> bool" where
  "business_date_missing p b =
     ((case on_plan q_period p of
         None \<Rightarrow> False
       | Some period \<Rightarrow> bp_relative period \<noteq> None \<or> bp_since period \<noteq> None) \<or>
      (case on_plan q_bucket_set p of
         None \<Rightarrow> False
       | Some name \<Rightarrow>
           (case List.find (\<lambda>e. ca_name e = name \<and> ca_kind e = Bucket_kind) (bd_capabilities b) of
              None \<Rightarrow> False
            | Some e \<Rightarrow> list_ex (\<lambda>k. bk_name k = ca_resolves e \<and> bk_dated k) (bd_buckets b))))"

definition check_business_date :: "plan \<Rightarrow> bundle_definitions \<Rightarrow> 'd option \<Rightarrow> bool" where
  "check_business_date p b today = (today = None \<and> business_date_missing p b)"

subsection \<open>Allowed values\<close>

text \<open>\<open>str.split()\<close>: the words between whitespace.\<close>

fun py_words :: "string \<Rightarrow> string \<Rightarrow> string list" where
  "py_words w [] = (if w = [] then [] else [rev w])"
| "py_words w (c # cs) =
     (if is_space c then (if w = [] then py_words [] cs else rev w # py_words [] cs)
      else py_words (c # w) cs)"

definition normalise_value :: "string \<Rightarrow> string" where
  "normalise_value s = py_lower (py_join '' '' (py_words [] s))"

text \<open>The stored spelling by its normal form; two spellings with one normal form refuse.\<close>

fun by_normal_form :: "string list \<Rightarrow> (string, string) dict \<Rightarrow> (string, string) dict option" where
  "by_normal_form [] m = Some m"
| "by_normal_form (s # ss) m =
     (case dict_get m (normalise_value s) of
        Some prior \<Rightarrow> if prior \<noteq> s then None else by_normal_form ss (dict_set m (normalise_value s) s)
      | None \<Rightarrow> by_normal_form ss (dict_set m (normalise_value s) s))"

fun stored_values :: "(string, string) dict \<Rightarrow> scalar list \<Rightarrow> scalar list option" where
  "stored_values m [] = Some []"
| "stored_values m (v # vs) =
     (case dict_get m (normalise_value (py_str v)) of
        None \<Rightarrow> None
      | Some s \<Rightarrow> map_option (\<lambda>out. S_str s # out) (stored_values m vs))"

definition canonical_allowed_values :: "dimension_definition \<Rightarrow> scalar list \<Rightarrow> scalar list option" where
  "canonical_allowed_values d vs =
     (if dm_allowed d = [] then Some vs
      else case by_normal_form (dm_allowed d) [] of None \<Rightarrow> None | Some m \<Rightarrow> stored_values m vs)"

text \<open>A dict of the entries by name keeps the last one.\<close>

definition last_named :: "('a \<Rightarrow> string) \<Rightarrow> 'a list \<Rightarrow> string \<Rightarrow> 'a option" where
  "last_named name xs n = List.find (\<lambda>x. name x = n) (rev xs)"

definition leaf_values_allowed :: "bundle_definitions \<Rightarrow> filter_leaf \<Rightarrow> bool" where
  "leaf_values_allowed b l =
     (case l of
        Attribute a \<Rightarrow> True
      | Plan_filter f \<Rightarrow>
          pf_operator f \<in> {Op_in_set, Op_not_in_set} \<or>
          (case last_named ca_name (bd_capabilities b) (pf_member f) of
             None \<Rightarrow> True
           | Some e \<Rightarrow>
               (if ca_kind e \<noteq> Dimension_kind then True
                else case last_named dm_name (bd_dimensions b) (ca_resolves e) of
                  None \<Rightarrow> True
                | Some d \<Rightarrow> canonical_allowed_values d (pf_values f) \<noteq> None)))"

definition allowed_filter_values_valid :: "plan \<Rightarrow> bundle_definitions \<Rightarrow> bool" where
  "allowed_filter_values_valid p b =
     list_all (leaf_values_allowed b)
       (concat (map (\<lambda>g. case g of None \<Rightarrow> [] | Some n \<Rightarrow> iter_filter_leaves n)
          [on_plan q_filters p, on_plan q_having p]))"

subsection \<open>What a visible plan names\<close>

lemma visible_plan_members: "check_member_visibility p who b = None \<Longrightarrow> plan_member_names p \<subseteq> visible_members who b"
  by (auto simp: check_member_visibility_def Let_def split: if_splits)

lemma visible_plan_pinned:
  assumes "check_member_visibility p who b = None" and "a \<in> set (attribute_predicates p)"
    and "at_revision a = Some h"
  shows "\<exists>d\<in>set (bd_details b). de_family d = at_family a \<and> de_revision d = h \<and> detail_permissions_satisfied d who"
proof -
  from assms(1,2) have "\<not> pinned_revision_denied who b a"
    by (auto simp: check_member_visibility_def Let_def list_ex_iff split: if_splits)
  with assms(3) obtain d rest where
    found: "filter (\<lambda>d. de_family d = at_family a \<and> de_revision d = h) (bd_details b) = d # rest"
      and grants: "detail_permissions_satisfied d who"
    by (auto simp: pinned_revision_denied_def split: list.splits)
  from filter_ConsD [OF found] grants show ?thesis by auto
qed

end
