(* ===== verification/Role_Paths.thy ===== *)
theory Role_Paths
  imports Bundle
begin

text \<open>
  The join search of the authorization pass (\<open>_shortest_path\<close> and \<open>_resolve_join_tree\<close> of
  app/business_query/authorize/scoping.py). It decides which resources a plan may join, and so which
  of them get the caller's scope predicates; the compiler searches the same joins again
  (compile/join_paths.py, theory Join_Paths), in another order.
\<close>

subsection \<open>The search\<close>

definition scope_adjacency :: "join list \<Rightarrow> string \<Rightarrow> string list" where
  "scope_adjacency joins c =
     sort (remdups (map jn_to (filter (\<lambda>j. jn_from j = c) joins) @
                    map jn_from (filter (\<lambda>j. jn_to j = c) joins)))"

record hop_search =
  hs_parent :: "string \<rightharpoonup> string option"
  hs_depth :: "string \<rightharpoonup> nat"
  hs_queue :: "string list"

fun scan_hops :: "string \<Rightarrow> string \<Rightarrow> string list \<Rightarrow> hop_search \<Rightarrow> hop_search \<times> bool" where
  "scan_hops c goal [] s = (s, False)"
| "scan_hops c goal (n # ns) s =
     (if hs_parent s n \<noteq> None then scan_hops c goal ns s
      else
        (let s1 = s\<lparr>hs_parent := (hs_parent s)(n \<mapsto> Some c),
                    hs_depth := (hs_depth s)(n \<mapsto> the (hs_depth s c) + 1)\<rparr>
         in if n = goal then (s1, True)
            else scan_hops c goal ns (s1\<lparr>hs_queue := hs_queue s1 @ [n]\<rparr>)))"

text \<open>The way back to the start; the depth of a node bounds its length.\<close>

fun hops_back :: "nat \<Rightarrow> hop_search \<Rightarrow> string \<Rightarrow> string \<Rightarrow> string list" where
  "hops_back 0 s start node = [node]"
| "hops_back (Suc k) s start node =
     (if node = start then [node]
      else case hs_parent s node of
             Some (Some p) \<Rightarrow> node # hops_back k s start p
           | _ \<Rightarrow> [node])"

definition hop_unseen :: "join list \<Rightarrow> hop_search \<Rightarrow> nat" where
  "hop_unseen joins s = length (filter (\<lambda>n. hs_parent s n = None) (endpoints joins))"

lemma scope_adjacency_set:
  "set (scope_adjacency joins c) = {n. \<exists>j\<in>set joins. jn_from j = c \<and> jn_to j = n \<or> jn_to j = c \<and> jn_from j = n}"
  by (auto simp: scope_adjacency_def)

lemma scope_adjacency_distinct [simp]: "distinct (scope_adjacency joins c)"
  by (simp add: scope_adjacency_def)

lemma scope_adjacency_endpoints: "set (scope_adjacency joins c) \<subseteq> set (endpoints joins)"
  by (auto simp: scope_adjacency_set endpoints_def)

lemma scan_hops_measure:
  assumes "set ns \<subseteq> set (endpoints joins)" and "scan_hops c goal ns s = (s1, False)"
  shows "hop_unseen joins s1 + length (hs_queue s1) \<le> hop_unseen joins s + length (hs_queue s)"
  using assms
proof (induction c goal ns s rule: scan_hops.induct)
  case (2 c goal n ns s)
  have ns: "set ns \<subseteq> set (endpoints joins)" using "2.prems"(1) by simp
  show ?case
  proof (cases "hs_parent s n = None")
    case True
    have "n \<in> set (endpoints joins)" using "2.prems"(1) by simp
    from filter_unseen [OF this, of "hs_parent s" "Some c"] True
    show ?thesis
      using "2.IH"(2) [OF _ refl _ ns] "2.prems"(2) by (fastforce simp: hop_unseen_def Let_def split: if_splits)
  next
    case False
    then show ?thesis using "2.IH"(1) [OF _ ns] "2.prems"(2) by simp
  qed
qed simp

function hop_bfs :: "join list \<Rightarrow> string \<Rightarrow> string \<Rightarrow> hop_search \<Rightarrow> string list option" where
  "hop_bfs joins start goal s =
     (case hs_queue s of
        [] \<Rightarrow> None
      | c # rest \<Rightarrow>
          if MAX_JOIN_HOPS \<le> the (hs_depth s c) then hop_bfs joins start goal (s\<lparr>hs_queue := rest\<rparr>)
          else
            (let r = scan_hops c goal (scope_adjacency joins c) (s\<lparr>hs_queue := rest\<rparr>) in
             if snd r
             then Some (rev (hops_back (the (hs_depth (fst r) goal)) (fst r) start goal))
             else hop_bfs joins start goal (fst r)))"
  by pat_completeness auto

termination
proof (relation "measure (\<lambda>(joins, start, goal, s). hop_unseen joins s + length (hs_queue s))")
  fix joins start goal s c rest r
  assume queue: "hs_queue s = c # rest"
    and r: "r = scan_hops c goal (scope_adjacency joins c) (s\<lparr>hs_queue := rest\<rparr>)" and "\<not> snd r"
  then have "hop_unseen joins (fst r) + length (hs_queue (fst r))
      \<le> hop_unseen joins (s\<lparr>hs_queue := rest\<rparr>) + length (hs_queue (s\<lparr>hs_queue := rest\<rparr>))"
    by (intro scan_hops_measure [where ns = "scope_adjacency joins c" and c = c and goal = goal])
      (auto simp: scope_adjacency_endpoints prod_eq_iff)
  then show "((joins, start, goal, fst r), joins, start, goal, s)
      \<in> measure (\<lambda>(joins, start, goal, s). hop_unseen joins s + length (hs_queue s))"
    using queue by (simp add: hop_unseen_def)
qed (auto simp: hop_unseen_def)

declare hop_bfs.simps [simp del]

definition scope_path :: "join list \<Rightarrow> string \<Rightarrow> string \<Rightarrow> string list option" where
  "scope_path joins start goal =
     (if start = goal then Some [start]
      else hop_bfs joins start goal
             \<lparr>hs_parent = [start \<mapsto> None], hs_depth = [start \<mapsto> 0], hs_queue = [start]\<rparr>)"

subsection \<open>The resources of a plan\<close>

fun cover_pairs :: "join list \<Rightarrow> (string \<times> string) list \<Rightarrow> string set \<Rightarrow> string + string set" where
  "cover_pairs joins [] cover = Inr cover"
| "cover_pairs joins ((a, b) # ps) cover =
     (case scope_path joins a b of
        None \<Rightarrow> Inl ''no_join_path''
      | Some path \<Rightarrow> cover_pairs joins ps (cover \<union> set path))"

text \<open>\<open>_resolve_join_tree\<close> of the authorization pass: the required resources and those between them.\<close>

definition scope_resources :: "join list \<Rightarrow> string set \<Rightarrow> string + string list" where
  "scope_resources joins required =
     (let ordered = sorted_list_of_set required in
      case ordered of
        [] \<Rightarrow> Inl ''grain_unexpressible''
      | [r] \<Rightarrow> Inr [r]
      | _ \<Rightarrow> rbind (cover_pairs joins (pairs ordered) required) (\<lambda>cover. Inr (sorted_list_of_set cover)))"

subsection \<open>What the search finds\<close>

lemma scan_hops_spec:
  assumes "scan_hops c goal ns s = (s1, found)" and "hs_parent s goal = None"
    and "hs_parent s c \<noteq> None" and "distinct ns"
  shows "(found \<longleftrightarrow> goal \<in> set ns) \<and>
    (\<forall>n. hs_parent s n \<noteq> None \<longrightarrow> hs_parent s1 n = hs_parent s n \<and> hs_depth s1 n = hs_depth s n) \<and>
    (found \<longrightarrow> hs_parent s1 goal = Some (Some c) \<and> hs_depth s1 goal = Some (the (hs_depth s c) + 1)) \<and>
    (\<not> found \<longrightarrow> hs_parent s1 goal = None \<and>
       hs_queue s1 = hs_queue s @ filter (\<lambda>n. hs_parent s n = None) ns \<and>
       (\<forall>n\<in>set ns. hs_parent s n = None \<longrightarrow>
          hs_parent s1 n = Some (Some c) \<and> hs_depth s1 n = Some (the (hs_depth s c) + 1)))"
  using assms
proof (induction c goal ns s arbitrary: s1 found rule: scan_hops.induct)
  case (2 c goal n ns s)
  show ?case
  proof (cases "hs_parent s n = None")
    case False
    then have "n \<noteq> goal" using "2.prems"(2) by auto
    with False "2.IH"(1) [of s1 found] "2.prems" show ?thesis by auto
  next
    case True
    let ?s1 = "s\<lparr>hs_parent := (hs_parent s)(n \<mapsto> Some c),
                 hs_depth := (hs_depth s)(n \<mapsto> the (hs_depth s c) + 1)\<rparr>"
    let ?s2 = "?s1\<lparr>hs_queue := hs_queue ?s1 @ [n]\<rparr>"
    show ?thesis
    proof (cases "n = goal")
      case True
      with \<open>hs_parent s n = None\<close> "2.prems" show ?thesis by auto
    next
      case False
      have fresh: "c \<noteq> n" using True "2.prems"(3) by auto
      define s2 where "s2 = ?s2"
      have run: "scan_hops c goal ns s2 = (s1, found)"
        using "2.prems"(1) True False by (simp add: s2_def)
      have s2: "hs_parent s2 m = (if m = n then Some (Some c) else hs_parent s m)"
        "hs_depth s2 m = (if m = n then Some (the (hs_depth s c) + 1) else hs_depth s m)"
        "hs_queue s2 = hs_queue s @ [n]" for m
        by (simp_all add: s2_def)
      have n: "n \<notin> set ns" "distinct ns" using "2.prems"(4) by auto
      have same: "filter (\<lambda>m. hs_parent s2 m = None) ns = filter (\<lambda>m. hs_parent s m = None) ns"
        using n(1) by (auto simp: s2 intro!: filter_cong)
      have keep: "hs_parent s2 goal = None" "hs_parent s2 c \<noteq> None" "the (hs_depth s2 c) = the (hs_depth s c)"
        using "2.prems"(2,3) False fresh by (simp_all add: s2)
      have "\<not> hs_parent s n \<noteq> None" using True by simp
      note ih = "2.IH"(2) [OF this refl False, folded s2_def, OF run keep(1,2) n(2)]
      have old: "hs_parent s2 m = hs_parent s m" if "m \<in> set ns" for m
        using that n(1) by (auto simp: s2)
      have rest: "hs_parent s1 m = Some (Some c) \<and> hs_depth s1 m = Some (the (hs_depth s c) + 1)"
        if "\<not> found" "m \<in> set ns" "hs_parent s m = None" for m
        using ih that by (simp add: old keep(3))
      have kept: "hs_parent s1 m = hs_parent s2 m \<and> hs_depth s1 m = hs_depth s2 m"
        if "hs_parent s2 m \<noteq> None" for m
        using ih that by blast
      have now: "hs_parent s1 n = Some (Some c) \<and> hs_depth s1 n = Some (the (hs_depth s c) + 1)"
        using kept [of n] by (simp add: s2)
      have before: "hs_parent s1 m = hs_parent s m \<and> hs_depth s1 m = hs_depth s m"
        if "hs_parent s m \<noteq> None" for m
        using kept [of m] that True by (auto simp: s2)
      from ih rest now before True False show ?thesis
        unfolding same keep(3) s2(3) by auto
    qed
  qed
qed simp

text \<open>With only resources two joins away left, the search ends without a path.\<close>

lemma hop_bfs_far:
  "\<forall>q\<in>set (hs_queue s). hs_depth s q = Some 2 \<Longrightarrow> hop_bfs joins start goal s = None"
proof (induction "hs_queue s" arbitrary: s)
  case Nil
  then show ?case by (simp add: hop_bfs.simps [of _ _ _ s])
next
  case (Cons c rest)
  have "hop_bfs joins start goal (s\<lparr>hs_queue := rest\<rparr>) = None"
    by (rule Cons.hyps(1)) (use Cons.hyps(2) [symmetric] Cons.prems in auto)
  then show ?case
    using Cons.hyps(2) [symmetric] Cons.prems
    by (subst hop_bfs.simps) (simp add: MAX_JOIN_HOPS_def)
qed

definition middles :: "join list \<Rightarrow> string \<Rightarrow> string list \<Rightarrow> string list" where
  "middles joins goal near = filter (\<lambda>m. goal \<in> set (scope_adjacency joins m)) near"

text \<open>With the neighbours of the start in the queue, the first that is next to the goal is taken.\<close>

lemma hop_bfs_near:
  assumes "hs_queue s = near @ far" and "hs_parent s goal = None" and "goal \<noteq> start"
    and "\<forall>m\<in>set near. m \<noteq> start \<and> hs_parent s m = Some (Some start) \<and> hs_depth s m = Some 1"
    and "\<forall>m\<in>set far. hs_parent s m \<noteq> None \<and> hs_depth s m = Some 2"
  shows "hop_bfs joins start goal s =
     (case middles joins goal near of [] \<Rightarrow> None | m # _ \<Rightarrow> Some [start, m, goal])"
  using assms
proof (induction near arbitrary: s far)
  case Nil
  then show ?case by (simp add: hop_bfs_far middles_def)
next
  case (Cons c near)
  let ?s = "s\<lparr>hs_queue := near @ far\<rparr>"
  obtain s1 found where scan: "scan_hops c goal (scope_adjacency joins c) ?s = (s1, found)" by force
  note spec = scan_hops_spec [OF scan]
  have c: "c \<noteq> start" "hs_parent s c = Some (Some start)" "hs_depth s c = Some 1" "c \<noteq> goal"
    using Cons.prems(2,4) by auto
  have bfs: "hop_bfs joins start goal s =
     (if found then Some (rev (hops_back (the (hs_depth s1 goal)) s1 start goal)) else hop_bfs joins start goal s1)"
    using Cons.prems(1) c scan by (subst hop_bfs.simps) (simp add: MAX_JOIN_HOPS_def)
  show ?case
  proof (cases "goal \<in> set (scope_adjacency joins c)")
    case True
    with spec c Cons.prems(2) have "found" "hs_parent s1 goal = Some (Some c)" "hs_depth s1 goal = Some 2"
      "hs_parent s1 c = Some (Some start)" by auto
    then show ?thesis
      using True c Cons.prems(3) by (simp add: bfs middles_def numeral_2_eq_2)
  next
    case False
    let ?new = "filter (\<lambda>n. hs_parent s n = None) (scope_adjacency joins c)"
    have s1: "\<not> found" "hs_parent s1 goal = None" "hs_queue s1 = near @ far @ ?new"
      "\<forall>n. hs_parent s n \<noteq> None \<longrightarrow> hs_parent s1 n = hs_parent s n \<and> hs_depth s1 n = hs_depth s n"
      "\<forall>n\<in>set ?new. hs_parent s1 n = Some (Some c) \<and> hs_depth s1 n = Some 2"
      using spec False c Cons.prems(2) by auto
    have "hop_bfs joins start goal s1 =
       (case middles joins goal near of [] \<Rightarrow> None | m # _ \<Rightarrow> Some [start, m, goal])"
      by (rule Cons.IH [of s1 "far @ ?new"]) (use s1 Cons.prems in auto)
    with s1(1) False show ?thesis by (simp add: bfs middles_def)
  qed
qed

text \<open>What \<open>_shortest_path\<close> returns.\<close>

lemma scope_path_spec:
  "scope_path joins start goal =
     (if start = goal then Some [start]
      else if goal \<in> set (scope_adjacency joins start) then Some [start, goal]
      else case middles joins goal (filter (\<lambda>m. m \<noteq> start) (scope_adjacency joins start)) of
             [] \<Rightarrow> None | m # _ \<Rightarrow> Some [start, m, goal])"
proof (cases "start = goal")
  case False
  let ?s = "\<lparr>hs_parent = [start \<mapsto> None], hs_depth = [start \<mapsto> 0], hs_queue = []\<rparr> :: hop_search"
  obtain s1 found where scan: "scan_hops start goal (scope_adjacency joins start) ?s = (s1, found)" by force
  note spec = scan_hops_spec [OF scan, simplified]
  have bfs: "scope_path joins start goal =
     (if found then Some (rev (hops_back (the (hs_depth s1 goal)) s1 start goal)) else hop_bfs joins start goal s1)"
    using False scan unfolding scope_path_def by (subst hop_bfs.simps) (simp add: MAX_JOIN_HOPS_def)
  show ?thesis
  proof (cases "goal \<in> set (scope_adjacency joins start)")
    case True
    with spec False have "found" "hs_parent s1 goal = Some (Some start)" "hs_depth s1 goal = Some 1" by auto
    then show ?thesis using True False by (simp add: bfs)
  next
    case not_near: False
    have filt: "filter (\<lambda>n. n \<noteq> start) ns = filter (\<lambda>n. hs_parent ?s n = None) ns" for ns
      by (auto intro!: filter_cong)
    have "hop_bfs joins start goal s1 =
       (case middles joins goal (filter (\<lambda>m. m \<noteq> start) (scope_adjacency joins start)) of
          [] \<Rightarrow> None | m # _ \<Rightarrow> Some [start, m, goal])"
      by (rule hop_bfs_near [of s1 _ "[]"]) (use spec False not_near in \<open>auto simp: filt\<close>)
    with spec False not_near show ?thesis by (simp add: bfs)
  qed
qed (simp add: scope_path_def)

lemma adjacent_join:
  "n \<in> set (scope_adjacency joins c) \<longleftrightarrow> (\<exists>j\<in>set (join_adjacency joins c). neighbor j c = n)"
  by (auto simp: scope_adjacency_set adjacency_set neighbor_def)

lemma short_path_iff:
  "(\<exists>p. join_path joins a p b \<and> length p \<le> 2) \<longleftrightarrow>
     a = b \<or> b \<in> set (scope_adjacency joins a) \<or>
     (\<exists>m\<in>set (scope_adjacency joins a). b \<in> set (scope_adjacency joins m))"
    (is "?l \<longleftrightarrow> ?r")
proof
  assume ?l
  then obtain p where p: "join_path joins a p b" "length p \<le> 2" by blast
  then consider "p = []" | j where "p = [j]" | j k where "p = [j, k]"
    by (cases p rule: remdups_adj.cases) auto
  then show ?r
  proof cases
    case 3
    then have "neighbor j a \<in> set (scope_adjacency joins a)" "b \<in> set (scope_adjacency joins (neighbor j a))"
      using p(1) by (auto simp: adjacent_join)
    then show ?thesis by blast
  qed (use p(1) in \<open>auto simp: adjacent_join\<close>)
next
  assume ?r
  then consider "a = b" | "b \<in> set (scope_adjacency joins a)"
    | m where "m \<in> set (scope_adjacency joins a)" "b \<in> set (scope_adjacency joins m)" by blast
  then show ?l
  proof cases
    case 1
    then show ?thesis by (intro exI [of _ "[]"]) simp
  next
    case 2
    then obtain j where "j \<in> set (join_adjacency joins a)" "neighbor j a = b" by (auto simp: adjacent_join)
    then show ?thesis by (intro exI [of _ "[j]"]) simp
  next
    case 3
    then obtain j k where "j \<in> set (join_adjacency joins a)" "neighbor j a = m"
      "k \<in> set (join_adjacency joins m)" "neighbor k m = b" by (auto simp: adjacent_join)
    then show ?thesis by (intro exI [of _ "[j, k]"]) simp
  qed
qed

lemma scope_path_None:
  "scope_path joins a b = None \<longleftrightarrow> \<not> (\<exists>p. join_path joins a p b \<and> length p \<le> 2)"
  unfolding short_path_iff
  by (auto simp: scope_path_spec middles_def filter_empty_conv dest!: filter_ConsD split: list.splits)

lemma compiler_path_None:
  "shortest_join_path joins a b = None \<longleftrightarrow> \<not> (\<exists>p. join_path joins a p b \<and> length p \<le> 2)"
  using shortest_path_Some [of joins a b] shortest_path_None [of joins a b]
  by (cases "shortest_join_path joins a b") (auto simp: not_less [symmetric])

lemma scope_path_connects:
  assumes "scope_path joins a b = Some path"
  shows "hd path = a \<and> last path = b \<and> length path \<le> 3 \<and>
    (\<forall>i. Suc i < length path \<longrightarrow> path ! Suc i \<in> set (scope_adjacency joins (path ! i)))"
proof -
  consider "a = b" "path = [a]" | "path = [a, b]" "b \<in> set (scope_adjacency joins a)"
    | m where "path = [a, m, b]" "m \<in> set (scope_adjacency joins a)" "b \<in> set (scope_adjacency joins m)"
    using assms
    by (auto simp: scope_path_spec middles_def split: if_splits list.splits dest!: filter_ConsD)
  then show ?thesis
    by cases (auto simp: less_Suc_eq nth_Cons split: nat.splits)
qed

text \<open>
  C31. The authorization pass and the compiler agree on which two resources can be joined: the one finds
  a path exactly when the other does.
\<close>

theorem scope_and_compiler_agree_on_paths:
  "scope_path joins a b = None \<longleftrightarrow> shortest_join_path joins a b = None"
  by (simp only: scope_path_None compiler_path_None)

lemma cover_pairs_spec:
  "case cover_pairs joins ps cover of
      Inl e \<Rightarrow> e = ''no_join_path'' \<and> (\<exists>(a, b)\<in>set ps. scope_path joins a b = None)
    | Inr c \<Rightarrow> cover \<subseteq> c \<and> (\<forall>(a, b)\<in>set ps. \<exists>path. scope_path joins a b = Some path \<and> set path \<subseteq> c) \<and>
        finite (c - cover)"
proof (induction joins ps cover rule: cover_pairs.induct)
  case (2 joins a b ps cover)
  show ?case
  proof (cases "scope_path joins a b")
    case None
    then show ?thesis by auto
  next
    case (Some path)
    from "2.IH" [OF Some] have ih: "case cover_pairs joins ps (cover \<union> set path) of
        Inl e \<Rightarrow> e = ''no_join_path'' \<and> (\<exists>(a, b)\<in>set ps. scope_path joins a b = None)
      | Inr c \<Rightarrow> cover \<union> set path \<subseteq> c \<and>
          (\<forall>(a, b)\<in>set ps. \<exists>path. scope_path joins a b = Some path \<and> set path \<subseteq> c) \<and>
          finite (c - (cover \<union> set path))" .
    show ?thesis
    proof (cases "cover_pairs joins ps (cover \<union> set path)")
      case (Inl e)
      with ih Some show ?thesis by auto
    next
      case (Inr c)
      have "c - cover \<subseteq> (c - (cover \<union> set path)) \<union> set path" by auto
      moreover have "finite ((c - (cover \<union> set path)) \<union> set path)" using ih Inr by simp
      ultimately have "finite (c - cover)" by (rule finite_subset)
      with ih Inr Some show ?thesis by auto
    qed
  qed
qed simp

definition chain_within :: "join list \<Rightarrow> string set \<Rightarrow> string \<Rightarrow> string \<Rightarrow> bool" where
  "chain_within joins rs a b \<longleftrightarrow>
     (\<exists>path. path \<noteq> [] \<and> hd path = a \<and> last path = b \<and> length path \<le> 3 \<and> set path \<subseteq> rs \<and>
        (\<forall>i. Suc i < length path \<longrightarrow> path ! Suc i \<in> set (scope_adjacency joins (path ! i))))"

lemma scope_path_nonempty: "scope_path joins a b = Some path \<Longrightarrow> path \<noteq> []"
  by (auto simp: scope_path_spec split: if_splits list.splits)

lemma chain_of_path:
  "scope_path joins a b = Some path \<Longrightarrow> set path \<subseteq> rs \<Longrightarrow> chain_within joins rs a b"
  using scope_path_connects [of joins a b path] scope_path_nonempty [of joins a b path]
  unfolding chain_within_def by blast

lemma scope_resources_spec:
  assumes "finite required"
  shows "case scope_resources joins required of
      Inl e \<Rightarrow> (required = {} \<and> e = ''grain_unexpressible'') \<or>
        (e = ''no_join_path'' \<and>
         (\<exists>a\<in>required. \<exists>b\<in>required. \<not> (\<exists>p. join_path joins a p b \<and> length p \<le> 2)))
    | Inr rs \<Rightarrow> distinct rs \<and> required \<subseteq> set rs \<and>
        (\<forall>a\<in>required. \<forall>b\<in>required. chain_within joins (set rs) a b \<or> chain_within joins (set rs) b a)"
proof -
  have set: "set (sorted_list_of_set required) = required" "distinct (sorted_list_of_set required)"
    using assms by simp_all
  have self: "chain_within joins rs a a" if "a \<in> rs" for rs a
    using that by (intro chain_of_path [of joins a a "[a]"]) (simp_all add: scope_path_spec)
  show ?thesis
  proof (cases "sorted_list_of_set required" rule: remdups_adj.cases)
    case 1
    with set show ?thesis by (auto simp: scope_resources_def)
  next
    case (2 r)
    with set have "required = {r}" by auto
    with 2 self [of r "{r}"] show ?thesis by (simp add: scope_resources_def)
  next
    case (3 x y zs)
    let ?ps = "pairs (sorted_list_of_set required)"
    have res: "scope_resources joins required =
       rbind (cover_pairs joins ?ps required) (\<lambda>cover. Inr (sorted_list_of_set cover))"
      by (simp add: scope_resources_def 3)
    note spec = cover_pairs_spec [where joins = joins and ps = ?ps and cover = required]
    show ?thesis
    proof (cases "cover_pairs joins ?ps required")
      case (Inl e)
      then obtain a b where ab: "(a, b) \<in> set ?ps" "scope_path joins a b = None" "e = ''no_join_path''"
        using spec by auto
      then have "a \<in> required" "b \<in> required" using pairs_subset [OF ab(1)] set(1) by simp_all
      moreover have "scope_resources joins required = Inl e" by (simp add: res Inl)
      ultimately show ?thesis using ab(2,3) unfolding scope_path_None by auto
    next
      case (Inr c)
      with spec have c: "required \<subseteq> c" "finite (c - required)"
        "\<And>a b. (a, b) \<in> set ?ps \<Longrightarrow> \<exists>path. scope_path joins a b = Some path \<and> set path \<subseteq> c" by auto
      have "finite c" using c(2) assms by (metis finite_Diff2)
      moreover have "chain_within joins c a b \<or> chain_within joins c b a" if ab: "a \<in> required" "b \<in> required" for a b
      proof (cases "a = b")
        case True
        with self c(1) ab show ?thesis by blast
      next
        case False
        with pairs_set [of a "sorted_list_of_set required" b] ab set(1)
        have "(a, b) \<in> set ?ps \<or> (b, a) \<in> set ?ps" by simp
        with c(3) chain_of_path show ?thesis by blast
      qed
      ultimately show ?thesis using c(1) Inr by (simp add: res)
    qed
  qed
qed

lemma scope_resources_cover:
  assumes "scope_resources joins required = Inr rs" and "finite required"
  shows "required \<subseteq> set rs"
  using scope_resources_spec [OF assms(2), of joins] assms(1) by simp

text \<open>
  The resources of a plan are connected: when the authorization pass accepts, every required
  resource is among them, and between any two required ones there is a chain of at most two joins
  whose resources are all among them; it refuses exactly a plan without members or with two
  resources that no such chain connects.
\<close>

theorem scope_resources_connect:
  assumes "finite required"
  shows "case scope_resources joins required of
      Inl e \<Rightarrow> (required = {} \<and> e = ''grain_unexpressible'') \<or>
        (e = ''no_join_path'' \<and>
         (\<exists>a\<in>required. \<exists>b\<in>required. \<not> (\<exists>p. join_path joins a p b \<and> length p \<le> 2)))
    | Inr rs \<Rightarrow> distinct rs \<and> required \<subseteq> set rs \<and>
        (\<forall>a\<in>required. \<forall>b\<in>required. chain_within joins (set rs) a b \<or> chain_within joins (set rs) b a)"
  by (rule scope_resources_spec [OF assms])

subsection \<open>Where the two searches differ\<close>

definition link :: "string \<Rightarrow> string \<Rightarrow> join" where
  "link a b = \<lparr>jn_from = a, jn_to = b, jn_rel = Many_to_one, jn_sql = a @ b, jn_optional = False\<rparr>"

definition diamond :: "join list" where
  "diamond = [link ''a'' ''y'', link ''y'' ''b'', link ''a'' ''x'', link ''x'' ''b'']"

lemma sorted_names:
  "sorted_list_of_set (set xs) = sort (remdups xs)" for xs :: "string list"
  by (rule sorted_list_of_set_sort_remdups)

lemma diamond_adjacency:
  "scope_adjacency diamond ''a'' = [''x'', ''y'']" "scope_adjacency diamond ''b'' = [''x'', ''y'']"
  "scope_adjacency diamond ''x'' = [''a'', ''b'']" "scope_adjacency diamond ''y'' = [''a'', ''b'']"
  by (code_simp, code_simp, code_simp, code_simp)

lemma diamond_scope: "scope_resources diamond {''a'', ''b''} = Inr [''a'', ''b'', ''x'']"
proof -
  have sorts: "sort (remdups [''a'', ''b'']) = [''a'', ''b'']"
    "sort (remdups [''a'', ''b'', ''x'']) = [''a'', ''b'', ''x'']"
    by (code_simp, code_simp)
  have names: "sorted_list_of_set {''a'', ''b''} = [''a'', ''b'']"
    "sorted_list_of_set {''a'', ''b'', ''x''} = [''a'', ''b'', ''x'']"
    using sorted_names [of "[''a'', ''b'']"] sorted_names [of "[''a'', ''b'', ''x'']"]
    unfolding sorts by simp_all
  have "scope_path diamond ''a'' ''b'' = Some [''a'', ''x'', ''b'']"
    by (simp add: scope_path_spec diamond_adjacency middles_def)
  then show ?thesis by (simp add: scope_resources_def names insert_commute)
qed

theorem scope_resources_connect_witness:
  "\<forall>r\<in>{''a'', ''b''}. chain_within diamond {''a'', ''b'', ''x''} ''a'' r \<or> chain_within diamond {''a'', ''b'', ''x''} r ''a''"
  using scope_resources_connect [of "{''a'', ''b''}" diamond] by (simp add: diamond_scope)

lemma tree_of_pairs:
  assumes "distinct (map join_key joins)" and "1 < length resources"
  shows "(\<exists>es. resolve_join_tree joins resources = Inr es) \<longleftrightarrow>
      (\<forall>(a, b)\<in>set (pairs (sort resources)). scope_path joins a b \<noteq> None)"
    "resolve_join_tree joins resources = Inr es \<Longrightarrow> (a, b) \<in> set (pairs (sort resources)) \<Longrightarrow>
       shortest_join_path joins a b = Some p \<Longrightarrow> set p \<subseteq> set es"
proof -
  have tree: "resolve_join_tree joins resources = join_pairs joins (pairs (sort resources)) ({}, [])"
    using assms(2) by (simp add: resolve_join_tree_def)
  note spec = join_pairs_spec [OF assms(1), of "{}" "[]" "pairs (sort resources)", simplified]
  have same: "scope_path joins a b = None \<longleftrightarrow> shortest_join_path joins a b = None" for a b
    by (simp only: scope_path_None compiler_path_None)
  show "(\<exists>es. resolve_join_tree joins resources = Inr es) \<longleftrightarrow>
      (\<forall>(a, b)\<in>set (pairs (sort resources)). scope_path joins a b \<noteq> None)"
    using spec unfolding same tree by (cases "join_pairs joins (pairs (sort resources)) ({}, [])") fastforce+
  show "set p \<subseteq> set es" if "resolve_join_tree joins resources = Inr es"
    "(a, b) \<in> set (pairs (sort resources))" "shortest_join_path joins a b = Some p"
    using spec that unfolding tree by (auto, metis option.inject subsetD)
qed

text \<open>
  The joins the compiler takes can leave the resources the authorization pass scoped: where two
  resources are joined by way of either of two others, the pass takes the first by name and the
  compiler the first in the bundle, so a join of the compiled statement reaches a resource that has
  no scope predicates and no table.
\<close>

theorem compiled_joins_leave_the_scope:
  "\<exists>resources es. scope_resources diamond {''a'', ''b''} = Inr resources \<and>
     resolve_join_tree diamond resources = Inr es \<and>
     (\<exists>j\<in>set es. jn_from j \<notin> set resources \<or> jn_to j \<notin> set resources)"
proof -
  let ?rs = "[''a'', ''b'', ''x'']"
  have keys: "distinct (map join_key diamond)"
    by (simp add: diamond_def link_def join_key_def)
  have ps: "pairs (sort ?rs) = [(''a'', ''b''), (''a'', ''x''), (''b'', ''x'')]" by code_simp
  have "\<exists>es. resolve_join_tree diamond ?rs = Inr es"
    unfolding tree_of_pairs(1) [OF keys, of ?rs, simplified] ps
    by (simp add: scope_path_spec diamond_adjacency middles_def)
  then obtain es where es: "resolve_join_tree diamond ?rs = Inr es" by blast
  have "shortest_join_path diamond ''a'' ''b'' = Some [link ''a'' ''y'', link ''y'' ''b'']"
    unfolding shortest_join_path_def
    by (simp, subst bfs.simps, simp add: diamond_def link_def MAX_JOIN_HOPS_def join_adjacency_def neighbor_def Let_def,
        subst bfs.simps, simp add: MAX_JOIN_HOPS_def join_adjacency_def neighbor_def Let_def numeral_2_eq_2)
  then have "link ''a'' ''y'' \<in> set es"
    using tree_of_pairs(2) [OF keys _ es, of "''a''" "''b''"] by (simp add: ps)
  then have "\<exists>j\<in>set es. jn_from j \<notin> set ?rs \<or> jn_to j \<notin> set ?rs"
    by (rule bexI [rotated]) (simp add: link_def)
  with es diamond_scope show ?thesis by blast
qed

definition corners :: "join list" where
  "corners = [link ''a'' ''x'', link ''x'' ''b'', link ''a'' ''z'', link ''z'' ''c'', link ''b'' ''w'', link ''w'' ''c'']"

text \<open>
  The authorization pass can accept a plan whose resources the compiler cannot join: of three
  resources joined pairwise by way of three others, a resource between two of them may be three
  joins away from the third, and the compiler asks for a path between every two of all six.
\<close>

theorem compiler_refuses_a_scoped_plan:
  "\<exists>resources. scope_resources corners {''a'', ''b'', ''c''} = Inr resources \<and>
     (\<exists>e. resolve_join_tree corners resources = Inl e)"
proof -
  let ?rs = "[''a'', ''b'', ''c'', ''w'', ''x'', ''z'']"
  have keys: "distinct (map join_key corners)"
    by (simp add: corners_def link_def join_key_def)
  have adj: "scope_adjacency corners ''a'' = [''x'', ''z'']" "scope_adjacency corners ''b'' = [''w'', ''x'']"
    "scope_adjacency corners ''c'' = [''w'', ''z'']" "scope_adjacency corners ''x'' = [''a'', ''b'']"
    "scope_adjacency corners ''z'' = [''a'', ''c'']" "scope_adjacency corners ''w'' = [''b'', ''c'']"
    by (code_simp, code_simp, code_simp, code_simp, code_simp, code_simp)
  have sorts: "sort (remdups [''a'', ''b'', ''c'']) = [''a'', ''b'', ''c'']" "sort (remdups ?rs) = ?rs"
    by (code_simp, code_simp)
  have names: "sorted_list_of_set {''a'', ''b'', ''c''} = [''a'', ''b'', ''c'']"
    "sorted_list_of_set {''a'', ''b'', ''c'', ''w'', ''x'', ''z''} = ?rs"
    using sorted_names [of "[''a'', ''b'', ''c'']"] sorted_names [of ?rs]
    unfolding sorts by simp_all
  have cover: "{''c'', ''w'', ''b'', ''z'', ''a'', ''x''} = {''a'', ''b'', ''c'', ''w'', ''x'', ''z''}" by auto
  have "cover_pairs corners (pairs [''a'', ''b'', ''c'']) {''a'', ''b'', ''c''} =
      Inr {''a'', ''b'', ''c'', ''w'', ''x'', ''z''}"
    by (simp add: scope_path_spec adj middles_def) auto
  then have "scope_resources corners {''a'', ''b'', ''c''} = Inr ?rs"
    by (simp add: scope_resources_def names)
  moreover have "(''c'', ''x'') \<in> set (pairs (sort ?rs))" by code_simp
  moreover have "scope_path corners ''c'' ''x'' = None"
    by (simp add: scope_path_spec adj middles_def)
  ultimately show ?thesis
    using tree_of_pairs(1) [OF keys, of ?rs] by (cases "resolve_join_tree corners ?rs") fastforce+
qed

end
