(* ===== verification/Set_Keys.thy ===== *)
theory Set_Keys
  imports Visibility
begin

text \<open>
  Whether a filter may use a derived set (app/business_query/authorize/set_keys.py): the member and
  the set's key name the same record, through the declared joins, or the same calendar bucket; and a
  set over amounts is of one currency.
\<close>

datatype scope_error = Scope_denied | Plan_refused string string

abbreviation unexpressible :: "string \<Rightarrow> scope_error" where
  "unexpressible site \<equiv> Plan_refused ''grain_unexpressible'' site"

definition require :: "bool \<Rightarrow> scope_error \<Rightarrow> scope_error + unit" where
  "require b e = (if b then Inr () else Inl e)"

lemma require_Inr [simp]: "require b e = Inr u \<longleftrightarrow> b"
  by (simp add: require_def)

subsection \<open>Dimensions and keys\<close>

definition resolve_dimension :: "string \<Rightarrow> bundle_definitions \<Rightarrow> scope_error + dimension_definition" where
  "resolve_dimension member b =
     (case capability_named b member of
        None \<Rightarrow> Inl (Plan_refused ''member_not_found'' [])
      | Some e \<Rightarrow>
          if ca_kind e \<noteq> Dimension_kind then Inl (unexpressible ''set_key_identity'')
          else case List.find (\<lambda>d. dm_name d = ca_resolves e) (bd_dimensions b) of
            None \<Rightarrow> Inl (unexpressible ''set_key_identity'')
          | Some d \<Rightarrow> Inr d)"

fun is_identifier :: "string \<Rightarrow> bool" where
  "is_identifier [] = False"
| "is_identifier (c # cs) = ((is_upper c \<or> is_lower c \<or> c = CHR ''_'') \<and> list_all is_word cs)"

text \<open>The two columns of \<open>on_sql\<close>, split at the first equals sign.\<close>

definition join_columns :: "join \<Rightarrow> (string \<times> string) option" where
  "join_columns j =
     (if CHR ''='' \<notin> set (jn_sql j) then None
      else (let from_col = py_strip (takeWhile (\<lambda>c. c \<noteq> CHR ''='') (jn_sql j));
                to_col = py_strip (tl (dropWhile (\<lambda>c. c \<noteq> CHR ''='') (jn_sql j))) in
            if is_identifier from_col \<and> is_identifier to_col then Some (from_col, to_col) else None))"

text \<open>Where a column leads by one join, toward the side that has one row.\<close>

definition key_hop :: "string \<times> string \<Rightarrow> join \<Rightarrow> (string \<times> string) option" where
  "key_hop here j =
     (case join_columns j of
        None \<Rightarrow> None
      | Some (from_col, to_col) \<Rightarrow>
          (if jn_rel j \<in> {Many_to_one, One_to_one} \<and> here = (jn_from j, from_col)
           then Some (jn_to j, to_col)
           else if jn_rel j \<in> {One_to_many, One_to_one} \<and> here = (jn_to j, to_col)
           then Some (jn_from j, from_col)
           else None))"

definition MAX_KEY_HOPS :: nat where "MAX_KEY_HOPS = 2"

definition last_resource :: "bundle_definitions \<Rightarrow> string \<Rightarrow> resource_binding option" where
  "last_resource b name = last_named rb_name (bd_resources b) name"

definition is_declared_key :: "bundle_definitions \<Rightarrow> string \<times> string \<Rightarrow> bool" where
  "is_declared_key b here =
     (case last_resource b (fst here) of None \<Rightarrow> False | Some r \<Rightarrow> rb_primary_key r = snd here)"

record key_search =
  ks_visited :: "(string \<times> string) list"
  ks_queue :: "((string \<times> string) \<times> nat) list"
  ks_reached :: "(string \<times> string) list"

fun scan_keys :: "bundle_definitions \<Rightarrow> string \<times> string \<Rightarrow> nat \<Rightarrow> join list \<Rightarrow> key_search \<Rightarrow> key_search" where
  "scan_keys b here hops [] s = s"
| "scan_keys b here hops (j # js) s =
     (case key_hop here j of
        None \<Rightarrow> scan_keys b here hops js s
      | Some n \<Rightarrow>
          if n \<in> set (ks_visited s) then scan_keys b here hops js s
          else
            (let s1 = s\<lparr>ks_visited := n # ks_visited s\<rparr> in
             if is_declared_key b n
             then scan_keys b here hops js (s1\<lparr>ks_reached := n # ks_reached s1\<rparr>)
             else scan_keys b here hops js (s1\<lparr>ks_queue := ks_queue s1 @ [(n, hops + 1)]\<rparr>)))"

text \<open>Columns at most two joins away: every round takes one from the queue.\<close>

definition key_sites :: "bundle_definitions \<Rightarrow> (string \<times> string) list" where
  "key_sites b = remdups (concat (map (\<lambda>j. case join_columns j of
       None \<Rightarrow> [] | Some (f, t) \<Rightarrow> [(jn_from j, f), (jn_to j, t)]) (bd_joins b)))"

definition unvisited :: "bundle_definitions \<Rightarrow> key_search \<Rightarrow> nat" where
  "unvisited b s = length (filter (\<lambda>n. n \<notin> set (ks_visited s)) (key_sites b))"

lemma key_hop_site: "key_hop here j = Some n \<Longrightarrow> j \<in> set (bd_joins b) \<Longrightarrow> n \<in> set (key_sites b)"
  by (force simp: key_hop_def key_sites_def split: option.splits if_splits)

lemma filter_visit:
  assumes "n \<in> set xs" and "n \<notin> V"
  shows "length (filter (\<lambda>m. m \<notin> insert n V) xs) < length (filter (\<lambda>m. m \<notin> V) xs)"
proof -
  have "filter (\<lambda>m. m \<notin> insert n V) xs = filter (\<lambda>m. m \<noteq> n) (filter (\<lambda>m. m \<notin> V) xs)"
    by (induction xs) auto
  moreover have "n \<in> set (filter (\<lambda>m. m \<notin> V) xs)" using assms by simp
  ultimately show ?thesis by (metis (mono_tags, lifting) length_filter_less)
qed

lemma scan_keys_measure:
  "set js \<subseteq> set (bd_joins b) \<Longrightarrow>
     unvisited b (scan_keys b here hops js s) + length (ks_queue (scan_keys b here hops js s))
       \<le> unvisited b s + length (ks_queue s)"
proof (induction b here hops js s rule: scan_keys.induct)
  case (2 b here hops j js s)
  show ?case
  proof (cases "key_hop here j")
    case None
    with 2 show ?thesis by simp
  next
    case (Some n)
    show ?thesis
    proof (cases "n \<in> set (ks_visited s)")
      case True
      with Some 2 show ?thesis by simp
    next
      case False
      have "n \<in> set (key_sites b)" using key_hop_site [OF Some] "2.prems" by auto
      from filter_visit [OF this False]
      have "unvisited b (s\<lparr>ks_visited := n # ks_visited s\<rparr>) < unvisited b s"
        by (simp add: unvisited_def)
      then show ?thesis
        using "2.IH"(3,4) [OF Some False refl] "2.prems" Some False
        by (cases "is_declared_key b n") (fastforce simp: unvisited_def Let_def)+
    qed
  qed
qed simp

function key_bfs :: "bundle_definitions \<Rightarrow> key_search \<Rightarrow> (string \<times> string) list" where
  "key_bfs b s =
     (case ks_queue s of
        [] \<Rightarrow> ks_reached s
      | (here, hops) # rest \<Rightarrow>
          if MAX_KEY_HOPS \<le> hops then key_bfs b (s\<lparr>ks_queue := rest\<rparr>)
          else key_bfs b (scan_keys b here hops (bd_joins b) (s\<lparr>ks_queue := rest\<rparr>)))"
  by pat_completeness auto

termination
proof (relation "measure (\<lambda>(b, s). unvisited b s + length (ks_queue s))", goal_cases)
  case (3 b s p rest here hops)
  then show ?case
    using scan_keys_measure [of "bd_joins b" b here hops "s\<lparr>ks_queue := rest\<rparr>"]
    by (simp add: unvisited_def)
qed (auto simp: unvisited_def)

declare key_bfs.simps [simp del]

definition resolve_pk_identity ::
    "string \<Rightarrow> string \<Rightarrow> bundle_definitions \<Rightarrow> scope_error + string \<times> string" where
  "resolve_pk_identity resource column b =
     (if \<not> is_identifier column then Inl (unexpressible ''set_key_identity'')
      else if last_resource b resource = None then Inl (unexpressible ''set_key_identity'')
      else if is_declared_key b (resource, column) then Inr (resource, column)
      else case key_bfs b \<lparr>ks_visited = [(resource, column)], ks_queue = [((resource, column), 0)],
                           ks_reached = []\<rparr> of
          [k] \<Rightarrow> Inr k
        | _ \<Rightarrow> Inl (unexpressible ''set_key_identity''))"

subsection \<open>Currency\<close>

text \<open>One measure of a set: an amount needs one equality on its currency.\<close>

definition measure_partition :: "plan \<Rightarrow> bundle_definitions \<Rightarrow> string \<Rightarrow> scope_error + unit" where
  "measure_partition inner b name =
     (let target = (case last_named ca_name (bd_capabilities b) name of
                      Some e \<Rightarrow> ca_resolves e | None \<Rightarrow> name) in
      case last_named ms_name (bd_measures b) target of
        None \<Rightarrow> Inr ()
      | Some m \<Rightarrow>
          if ms_currency m = None \<and> ms_format m \<noteq> Some ''currency'' then Inr ()
          else case ms_currency m of
            None \<Rightarrow> Inl (Plan_refused ''capability_disabled'' [])
          | Some c \<Rightarrow>
              require (list_ex (\<lambda>e. ca_kind e = Dimension_kind \<and> ca_resolves e = c \<and>
                        (case on_plan q_filters inner of None \<Rightarrow> False
                         | Some g \<Rightarrow> guaranteed_single_equality (ca_name e) g \<noteq> None))
                       (bd_capabilities b))
                (unexpressible ''set_currency_partition''))"

definition monetary_partition :: "plan \<Rightarrow> bundle_definitions \<Rightarrow> scope_error + unit" where
  "monetary_partition inner b =
     rbind (rmap (measure_partition inner b) (on_plan q_measures inner)) (\<lambda>_. Inr ())"

subsection \<open>Compatibility\<close>

definition pick_shape :: "derived_set \<Rightarrow> bundle_definitions \<Rightarrow> scope_error + unit" where
  "pick_shape d b =
     (let inner = set_plan d; measures = on_plan q_measures inner in
      case on_plan q_order inner of
        [] \<Rightarrow> Inl (unexpressible ''set_grain'')
      | clause # _ \<Rightarrow>
          if on_plan q_grain inner = Grouped
          then require (measures = [oc_member clause]) (unexpressible ''set_grain'')
          else rbind (require (measures = []) (unexpressible ''set_grain'')) (\<lambda>_.
            rbind (resolve_dimension (set_key d) b) (\<lambda>key_dim.
            rbind (resolve_dimension (oc_member clause) b) (\<lambda>basis_dim.
            require (dm_resource basis_dim = dm_resource key_dim) (unexpressible ''pick_basis_resource'')))))"

definition time_group_compatible ::
    "string \<Rightarrow> derived_set \<Rightarrow> bundle_definitions \<Rightarrow> bool \<Rightarrow> scope_error + unit" where
  "time_group_compatible outer d b exclude =
     rbind (require (\<not> exclude) (unexpressible ''time_group_exclusion'')) (\<lambda>_.
     rbind (require (outer = set_key d) (unexpressible ''time_group_member_mismatch'')) (\<lambda>_.
     rbind (resolve_dimension outer b) (\<lambda>dim.
     rbind (require (dm_type dim = Ty_time) (unexpressible ''set_key_type_mismatch'')) (\<lambda>_.
     rbind (if set_mode d = Pick_set then pick_shape d b else Inr ()) (\<lambda>_.
     monetary_partition (set_plan d) b)))))"

definition mode_shape :: "derived_set \<Rightarrow> bundle_definitions \<Rightarrow> scope_error + unit" where
  "mode_shape d b =
     (let inner = set_plan d; measures = on_plan q_measures inner in
      case set_mode d of
        Ranked_set \<Rightarrow> require (on_plan q_grain inner = Grouped \<and> length measures = 1) (unexpressible ''set_grain'')
      | Pick_set \<Rightarrow> pick_shape d b
      | Complete_set \<Rightarrow>
          require (\<not> (on_plan q_grain inner = Entity_rows \<and> measures \<noteq> [])) (unexpressible ''set_grain''))"

definition kinds_agree :: "string option \<Rightarrow> string option \<Rightarrow> bool" where
  "kinds_agree a b \<longleftrightarrow> a = None \<or> b = None \<or> a = b"

definition entity_key_compatible :: "string \<Rightarrow> derived_set \<Rightarrow> bundle_definitions \<Rightarrow> scope_error + unit" where
  "entity_key_compatible outer d b =
     rbind (mode_shape d b) (\<lambda>_.
     rbind (resolve_dimension outer b) (\<lambda>outer_dim.
     rbind (resolve_dimension (set_key d) b) (\<lambda>inner_dim.
     rbind (require (dm_type outer_dim = dm_type inner_dim) (unexpressible ''set_key_type_mismatch'')) (\<lambda>_.
     rbind (require (kinds_agree (dm_kind outer_dim) (dm_kind inner_dim))
              (unexpressible ''set_key_type_mismatch'')) (\<lambda>_.
     rbind (monetary_partition (set_plan d) b) (\<lambda>_.
     rbind (resolve_pk_identity (dm_resource outer_dim) (dm_sql outer_dim) b) (\<lambda>outer_pk.
     rbind (resolve_pk_identity (dm_resource inner_dim) (dm_sql inner_dim) b) (\<lambda>inner_pk.
     require (outer_pk = inner_pk) (unexpressible ''set_key_identity'')))))))))"

definition set_key_compatible ::
    "string \<Rightarrow> derived_set \<Rightarrow> bundle_definitions \<Rightarrow> bool \<Rightarrow> scope_error + unit" where
  "set_key_compatible outer d b exclude =
     (let inner = set_plan d in
      if on_plan q_dimensions inner \<noteq> [set_key d] then Inl (unexpressible ''set_grain'')
      else if on_plan q_grain inner \<notin> {Grouped, Entity_rows} then Inl (unexpressible ''set_grain'')
      else if plan_sets inner \<noteq> [] then Inl (unexpressible ''set_grain'')
      else if time_group_for (set_key d) inner \<noteq> None then time_group_compatible outer d b exclude
      else entity_key_compatible outer d b)"

subsection \<open>What a compatible set shares with the filter\<close>

lemma scan_keys_reached:
  "(\<forall>k\<in>set (ks_reached s). is_declared_key b k) \<Longrightarrow>
     k \<in> set (ks_reached (scan_keys b here hops js s)) \<Longrightarrow> is_declared_key b k"
proof (induction b here hops js s rule: scan_keys.induct)
  case (2 b here hops j js s)
  then show ?case by (auto simp: Let_def split: option.splits if_splits)
qed simp

lemma key_bfs_reached:
  "(\<forall>k\<in>set (ks_reached s). is_declared_key b k) \<Longrightarrow> k \<in> set (key_bfs b s) \<Longrightarrow> is_declared_key b k"
proof (induction b s rule: key_bfs.induct)
  case (1 b s)
  show ?case
  proof (cases "ks_queue s")
    case Nil
    with 1 show ?thesis by (simp add: key_bfs.simps [of b s])
  next
    case (Cons p rest)
    obtain here hops where p: "p = (here, hops)" by (cases p)
    have "\<forall>k\<in>set (ks_reached (scan_keys b here hops (bd_joins b) (s\<lparr>ks_queue := rest\<rparr>))). is_declared_key b k"
      using scan_keys_reached [of "s\<lparr>ks_queue := rest\<rparr>" b] "1.prems"(1) by simp
    with 1 Cons p show ?thesis
      by (auto simp: key_bfs.simps [of b s] split: if_splits)
  qed
qed

lemma pk_identity_declared: "resolve_pk_identity r c b = Inr k \<Longrightarrow> is_declared_key b k"
  using key_bfs_reached [of "\<lparr>ks_visited = [(r, c)], ks_queue = [((r, c), 0)], ks_reached = []\<rparr>" b k]
  by (auto simp: resolve_pk_identity_def split: if_splits list.splits)

text \<open>
  C29. A filter uses a set only when both name the same record: the set projects its key alone, and either
  it selects calendar periods of the filter's own time member, which it keeps, or the filter's
  member and the key lead to one and the same declared primary key.
\<close>

theorem compatible_set_shares_key:
  assumes "set_key_compatible outer d b exclude = Inr ()"
  shows "on_plan q_dimensions (set_plan d) = [set_key d] \<and> plan_sets (set_plan d) = [] \<and>
    (if time_group_for (set_key d) (set_plan d) \<noteq> None
     then \<not> exclude \<and> outer = set_key d \<and> (\<exists>dim. resolve_dimension outer b = Inr dim \<and> dm_type dim = Ty_time)
     else \<exists>outer_dim inner_dim k.
            resolve_dimension outer b = Inr outer_dim \<and> resolve_dimension (set_key d) b = Inr inner_dim \<and>
            dm_type outer_dim = dm_type inner_dim \<and>
            resolve_pk_identity (dm_resource outer_dim) (dm_sql outer_dim) b = Inr k \<and>
            resolve_pk_identity (dm_resource inner_dim) (dm_sql inner_dim) b = Inr k \<and> is_declared_key b k)"
  using assms
  by (auto simp: set_key_compatible_def time_group_compatible_def entity_key_compatible_def Let_def
      split: if_splits intro: pk_identity_declared)

lemma measure_partition_spec:
  "measure_partition inner b name = Inr u \<Longrightarrow>
   last_named ms_name (bd_measures b) (case last_named ca_name (bd_capabilities b) name of
                      Some e \<Rightarrow> ca_resolves e | None \<Rightarrow> name) = Some m \<Longrightarrow>
   ms_currency m = Some c \<Longrightarrow>
   \<exists>e\<in>set (bd_capabilities b). ca_resolves e = c \<and>
     (\<exists>g v. on_plan q_filters inner = Some g \<and> guaranteed_single_equality (ca_name e) g = Some v)"
  by (auto simp: measure_partition_def Let_def list_ex_iff split: option.splits if_splits)

end
