(* ===== verification/Role_Scope.thy ===== *)
theory Role_Scope
  imports Set_Keys Role_Paths
begin

text \<open>
  The mandatory authorization pass over a plan (app/business_query/authorize/scoping.py,
  forced_predicate.py): the members a caller may name, the resources they need, and the predicates
  the server forces on every one of these resources. \<open>scope_plan\<close> either refuses or returns the plan with
  its resources, its forced predicates and its scoped sets.
\<close>

subsection \<open>Forced predicates\<close>

datatype forced_source = Principal_scope | Record_referent

datatype forced_operator = Forced_eq | Forced_in

record forced_predicate =
  fp_resource :: string
  fp_column :: string
  fp_operator :: forced_operator
  fp_values :: "scalar list"
  fp_source :: forced_source

definition scope_predicate :: "string \<Rightarrow> string \<Rightarrow> scalar \<Rightarrow> forced_predicate" where
  "scope_predicate resource column v =
     \<lparr>fp_resource = resource, fp_column = column, fp_operator = Forced_eq, fp_values = [v],
      fp_source = Principal_scope\<rparr>"

text \<open>\<open>_forced_for_resource\<close>: the entity, the department, the record predicates.\<close>

definition entity_predicate :: "resource_binding \<Rightarrow> principal \<Rightarrow> scope_error + forced_predicate list" where
  "entity_predicate r who =
     (if cross_entity who then Inr []
      else case (rb_entity_column r, pr_entity who) of
        (Some column, Some entity) \<Rightarrow> Inr [scope_predicate (rb_name r) column (S_int entity)]
      | _ \<Rightarrow> Inl Scope_denied)"

definition department_predicate :: "resource_binding \<Rightarrow> principal \<Rightarrow> scope_error + forced_predicate list" where
  "department_predicate r who =
     (case rb_department_column r of
        None \<Rightarrow> if rb_mode r = Required_match then Inl Scope_denied else Inr []
      | Some column \<Rightarrow>
          (if rb_mode r = No_department then Inr []
           else case scope_department who of
             None \<Rightarrow> if rb_mode r = Required_match then Inl Scope_denied else Inr []
           | Some department \<Rightarrow> Inr [scope_predicate (rb_name r) column (S_int department)]))"

definition forced_for_resource :: "resource_binding \<Rightarrow> principal \<Rightarrow> scope_error + forced_predicate list" where
  "forced_for_resource r who =
     rbind (entity_predicate r who) (\<lambda>entity.
     rbind (department_predicate r who) (\<lambda>department.
     Inr (entity @ department @ map (\<lambda>(column, v). scope_predicate (rb_name r) column v) (rb_predicates r))))"

subsection \<open>Scoped plans\<close>

datatype response_policy = Allow_partial | Strict_policy

text \<open>What \<open>bind_scope_context\<close> binds.\<close>

record scope_context =
  sx_principal :: "principal option"
  sx_date :: "date option"
  sx_hash :: "string option"
  sx_policy :: response_policy

datatype scoped_plan =
    Scoped_plan (sc_plan: plan) (sc_resources: "string list") (sc_forced: "forced_predicate list")
      (sc_derived: "scoped_set list") (sc_context: scope_context)
  and scoped_set =
    Scoped_set (ss_id: string) (ss_key: string) (ss_mode: set_mode) (ss_scoped: scoped_plan)

definition as_derived :: "scoped_set \<Rightarrow> derived_set" where
  "as_derived s = Derived_set (ss_id s) (ss_mode s) (ss_key s) (sc_plan (ss_scoped s))"

text \<open>The owner of a member: its definition's resource, or the owner of the detail family.\<close>

definition required_owner :: "bundle_definitions \<Rightarrow> string \<Rightarrow> string option" where
  "required_owner b member =
     (case member_owning_resource b member of
        Some r \<Rightarrow> Some r
      | None \<Rightarrow> map_option de_owner (resolve_detail_definition b member None))"

definition required_resources :: "bundle_definitions \<Rightarrow> plan \<Rightarrow> scope_error + string set" where
  "required_resources b p =
     (if \<exists>m\<in>local_plan_member_names p. required_owner b m = None then Inl Scope_denied
      else Inr ((\<lambda>m. the (required_owner b m)) ` local_plan_member_names p))"

definition forced_on :: "bundle_definitions \<Rightarrow> principal \<Rightarrow> string \<Rightarrow> scope_error + forced_predicate list" where
  "forced_on b who name =
     (case last_resource b name of None \<Rightarrow> Inl Scope_denied | Some r \<Rightarrow> forced_for_resource r who)"

definition set_filter_compatible ::
    "bundle_definitions \<Rightarrow> scoped_set list \<Rightarrow> filter_leaf \<Rightarrow> scope_error + unit" where
  "set_filter_compatible b in_scope l =
     (case l of
        Attribute a \<Rightarrow> Inr ()
      | Plan_filter f \<Rightarrow>
          if pf_operator f \<notin> {Op_in_set, Op_not_in_set} then Inr ()
          else case last_named ss_id in_scope (py_str (hd (pf_values f))) of
            None \<Rightarrow> Inl (Plan_refused ''member_not_found'' [])
          | Some s \<Rightarrow> set_key_compatible (pf_member f) (as_derived s) b (pf_operator f = Op_not_in_set))"

definition set_filters_compatible :: "plan \<Rightarrow> scoped_set list \<Rightarrow> bundle_definitions \<Rightarrow> scope_error + unit" where
  "set_filters_compatible p in_scope b =
     rbind (rmap (set_filter_compatible b in_scope)
              (case on_plan q_filters p of None \<Rightarrow> [] | Some g \<Rightarrow> iter_filter_leaves g)) (\<lambda>_. Inr ())"

text \<open>The visibility of the members, then the resources and what is forced on them.\<close>

definition scope_members ::
    "principal \<Rightarrow> bundle_definitions \<Rightarrow> plan \<Rightarrow> scope_error + string list \<times> forced_predicate list" where
  "scope_members who b p =
     (case check_member_visibility p who b of
        Some (Unknown_members _) \<Rightarrow> Inl (Plan_refused ''member_not_found'' [])
      | Some Unauthorized_member \<Rightarrow> Inl Scope_denied
      | None \<Rightarrow>
          rbind (required_resources b p) (\<lambda>required.
          case scope_resources (bd_joins b) required of
            Inl reason \<Rightarrow> Inl (Plan_refused reason (if required = {} then ''empty_join_cover'' else []))
          | Inr resources \<Rightarrow>
              rbind (rmap (forced_on b who) resources) (\<lambda>forced. Inr (resources, concat forced))))"

lemma size_plan_sets: "size_list size (plan_sets p) < size p"
  by (cases p) simp

text \<open>\<open>_apply_role_scope_impl\<close>, with the sets that were scoped before.\<close>

function (sequential) scope_plan ::
    "principal \<Rightarrow> bundle_definitions \<Rightarrow> date option \<Rightarrow> scoped_set list \<Rightarrow> plan \<Rightarrow> scope_error + scoped_plan"
  and scope_sets ::
    "principal \<Rightarrow> bundle_definitions \<Rightarrow> date option \<Rightarrow> scoped_set list \<Rightarrow> derived_set list \<Rightarrow>
       scope_error + scoped_set list" where
  "scope_plan who b today earlier p =
     rbind (scope_members who b p) (\<lambda>(resources, forced).
     rbind (scope_sets who b today [] (plan_sets p)) (\<lambda>derived.
     rbind (set_filters_compatible p (earlier @ derived) b) (\<lambda>_.
     Inr (Scoped_plan p resources forced (earlier @ derived)
            \<lparr>sx_principal = Some who, sx_date = today, sx_hash = Some (bd_hash b), sx_policy = Allow_partial\<rparr>))))"
| "scope_sets who b today done_sets [] = Inr done_sets"
| "scope_sets who b today done_sets (Derived_set i mode key p # rest) =
     rbind (scope_plan who b today done_sets p) (\<lambda>inner.
     scope_sets who b today (done_sets @ [Scoped_set i key mode inner]) rest)"
  by pat_completeness auto

termination
  by (relation "measure (\<lambda>x. case x of Inl (who, b, today, earlier, p) \<Rightarrow> size p
                             | Inr (who, b, today, earlier, ds) \<Rightarrow> size_list size ds)")
     (auto simp: size_plan_sets)

declare scope_plan.simps [simp del]

definition apply_role_scope ::
    "plan \<Rightarrow> principal \<Rightarrow> bundle_definitions \<Rightarrow> date option \<Rightarrow> scope_error + scoped_plan" where
  "apply_role_scope p who b today = scope_plan who b today [] p"


subsection \<open>The nodes of a scoped plan\<close>

lemma finite_local_members [simp]: "finite (local_plan_member_names p)"
  by (auto simp: local_plan_member_names_def filter_members_def collect_filter_members_leaves split: option.split)

primrec scoped_nodes :: "scoped_plan \<Rightarrow> scoped_plan list"
  and set_nodes :: "scoped_set \<Rightarrow> scoped_plan list" where
  "scoped_nodes (Scoped_plan p rs fs ds cx) = Scoped_plan p rs fs ds cx # concat (map set_nodes ds)"
| "set_nodes (Scoped_set i key mode s) = scoped_nodes s"

text \<open>A node was let through by the checks that \<open>scope_members\<close> makes of one plan.\<close>

definition good_node :: "principal \<Rightarrow> bundle_definitions \<Rightarrow> scoped_plan \<Rightarrow> bool" where
  "good_node who b n \<longleftrightarrow> scope_members who b (sc_plan n) = Inr (sc_resources n, sc_forced n)"

definition good_sets :: "principal \<Rightarrow> bundle_definitions \<Rightarrow> scoped_set list \<Rightarrow> bool" where
  "good_sets who b ds \<longleftrightarrow> (\<forall>s\<in>set ds. \<forall>n\<in>set (set_nodes s). good_node who b n)"

lemma scope_good:
  "scope_plan who b today earlier p = Inr sp \<Longrightarrow> good_sets who b earlier \<Longrightarrow>
     \<forall>n\<in>set (scoped_nodes sp). good_node who b n"
  "scope_sets who b today earlier ds = Inr out \<Longrightarrow> good_sets who b earlier \<Longrightarrow> good_sets who b out"
proof (induction who b today earlier p and who b today earlier ds arbitrary: sp and out
    rule: scope_plan_scope_sets.induct)
  case (1 who b today earlier p)
  from "1.prems"(1) obtain resources forced derived where
    members: "scope_members who b p = Inr (resources, forced)"
    and derived: "scope_sets who b today [] (plan_sets p) = Inr derived"
    and sp: "sp = Scoped_plan p resources forced (earlier @ derived)
       \<lparr>sx_principal = Some who, sx_date = today, sx_hash = Some (bd_hash b), sx_policy = Allow_partial\<rparr>"
    by (auto simp: scope_plan.simps)
  have "good_sets who b derived"
    by (rule "1.IH" [OF members refl derived]) (simp add: good_sets_def)
  with "1.prems"(2) members show ?case by (auto simp: sp good_node_def good_sets_def)
next
  case (2 who b today earlier)
  then show ?case by simp
next
  case (3 who b today earlier i mode key p rest)
  from "3.prems"(1) obtain inner where
    inner: "scope_plan who b today earlier p = Inr inner"
    and rest: "scope_sets who b today (earlier @ [Scoped_set i key mode inner]) rest = Inr out"
    by auto
  have "good_sets who b (earlier @ [Scoped_set i key mode inner])"
    using "3.IH"(1) [OF inner "3.prems"(2)] "3.prems"(2) by (auto simp: good_sets_def)
  from "3.IH"(2) [OF inner rest this] show ?case .
qed

lemma scoped_good: "apply_role_scope p who b today = Inr sp \<Longrightarrow> n \<in> set (scoped_nodes sp) \<Longrightarrow> good_node who b n"
  using scope_good(1) [of who b today "[]" p sp] by (simp add: apply_role_scope_def good_sets_def)

lemma good_nodeE:
  assumes "good_node who b n"
  obtains required where "check_member_visibility (sc_plan n) who b = None"
    and "required_resources b (sc_plan n) = Inr required"
    and "scope_resources (bd_joins b) required = Inr (sc_resources n)"
    and "\<exists>forced. rmap (forced_on b who) (sc_resources n) = Inr forced \<and> sc_forced n = concat forced"
proof -
  have "scope_members who b (sc_plan n) = Inr (sc_resources n, sc_forced n)"
    using assms by (simp add: good_node_def)
  then obtain required where required: "required_resources b (sc_plan n) = Inr required"
      and visible: "check_member_visibility (sc_plan n) who b = None"
      and rest: "(case scope_resources (bd_joins b) required of
            Inl reason \<Rightarrow> Inl (Plan_refused reason (if required = {} then ''empty_join_cover'' else []))
          | Inr resources \<Rightarrow>
              rbind (rmap (forced_on b who) resources) (\<lambda>forced. Inr (resources, concat forced)))
        = Inr (sc_resources n, sc_forced n)"
    by (auto simp: scope_members_def split: option.splits visibility_violation.splits)
  from rest have "scope_resources (bd_joins b) required = Inr (sc_resources n)"
    and "\<exists>forced. rmap (forced_on b who) (sc_resources n) = Inr forced \<and> sc_forced n = concat forced"
    by (cases "scope_resources (bd_joins b) required"; auto)+
  with visible required show ?thesis by (rule that)
qed

lemma good_node_forced:
  assumes "good_node who b n" and "r \<in> set (sc_resources n)"
  shows "\<exists>binding ps. last_resource b r = Some binding \<and> rb_name binding = r \<and>
    forced_for_resource binding who = Inr ps \<and> set ps \<subseteq> set (sc_forced n)"
proof -
  from assms(1) obtain forced where
    "rmap (forced_on b who) (sc_resources n) = Inr forced" and all: "sc_forced n = concat forced"
    by (auto elim: good_nodeE)
  with rmap_Inr_nth [OF this(1) assms(2)] obtain ps where
    ps: "ps \<in> set forced" "forced_on b who r = Inr ps" by auto
  from ps(2) obtain binding where
    "last_resource b r = Some binding" "forced_for_resource binding who = Inr ps"
    by (auto simp: forced_on_def split: option.splits)
  moreover from this(1) have "rb_name binding = r"
    by (auto simp: last_resource_def last_named_def find_Some_iff)
  ultimately show ?thesis using ps(1) all by auto
qed

subsection \<open>What the pass guarantees\<close>

text \<open>A row of a resource, by the value of each column; null is \<open>None\<close>. A forced predicate keeps a row
  whose column has one of its values, as \<open>=\<close> and \<open>IN\<close> do.\<close>

type_synonym row = "string \<Rightarrow> scalar option"

definition keeps_row :: "forced_predicate list \<Rightarrow> string \<Rightarrow> row \<Rightarrow> bool" where
  "keeps_row fs r row \<longleftrightarrow>
     (\<forall>f\<in>set fs. fp_resource f = r \<longrightarrow> (\<exists>v\<in>set (fp_values f). row (fp_column f) = Some v))"

lemma keeps_row_scope:
  "keeps_row fs r row \<Longrightarrow> scope_predicate r column v \<in> set fs \<Longrightarrow> row column = Some v"
  by (fastforce simp: keeps_row_def scope_predicate_def)

text \<open>
  C5. Rows of one entity: unless the caller may cross entities, every resource a scoped plan reads, in its
  sets too, has an entity column, the caller has an entity, and a row the forced predicates keep belongs to
  that entity.
\<close>

theorem scoped_rows_of_one_entity:
  assumes "apply_role_scope p who b today = Inr sp" and "\<not> cross_entity who"
    and "n \<in> set (scoped_nodes sp)" and "r \<in> set (sc_resources n)"
  shows "\<exists>binding column entity. last_resource b r = Some binding \<and>
    rb_entity_column binding = Some column \<and> pr_entity who = Some entity \<and>
    (\<forall>row. keeps_row (sc_forced n) r row \<longrightarrow> row column = Some (S_int entity))"
proof -
  from good_node_forced [OF scoped_good [OF assms(1,3)] assms(4)] obtain binding ps where
    binding: "last_resource b r = Some binding" "rb_name binding = r"
    and ps: "forced_for_resource binding who = Inr ps" "set ps \<subseteq> set (sc_forced n)" by blast
  from ps(1) assms(2) obtain column entity where
    "rb_entity_column binding = Some column" "pr_entity who = Some entity"
    "scope_predicate (rb_name binding) column (S_int entity) \<in> set ps"
    by (auto simp: forced_for_resource_def entity_predicate_def split: option.splits)
  with binding ps(2) keeps_row_scope show ?thesis by blast
qed

text \<open>
  C40. Rows of the department: where a resource is scoped by department, a row the forced predicates keep
  belongs to the caller's department when there is one; where a match is required, the resource has the column
  and the caller the department, or nothing was scoped.
\<close>

theorem scoped_rows_of_the_department:
  assumes "apply_role_scope p who b today = Inr sp" and "n \<in> set (scoped_nodes sp)"
    and "r \<in> set (sc_resources n)" and "last_resource b r = Some binding"
    and "rb_mode binding \<noteq> No_department"
  shows "(rb_mode binding = Required_match \<longrightarrow> rb_department_column binding \<noteq> None \<and> scope_department who \<noteq> None) \<and>
    (\<forall>column department row. rb_department_column binding = Some column \<longrightarrow>
       scope_department who = Some department \<longrightarrow> keeps_row (sc_forced n) r row \<longrightarrow>
       row column = Some (S_int department))"
proof -
  from good_node_forced [OF scoped_good [OF assms(1,2)] assms(3)] assms(4) obtain ps where
    ps: "forced_for_resource binding who = Inr ps" "set ps \<subseteq> set (sc_forced n)" "rb_name binding = r" by auto
  then obtain department where
    dep: "department_predicate binding who = Inr department" "set department \<subseteq> set (sc_forced n)"
    by (auto simp: forced_for_resource_def)
  show ?thesis
  proof (cases "rb_department_column binding")
    case None
    with dep(1) show ?thesis by (auto simp: department_predicate_def split: if_splits)
  next
    case (Some column)
    with dep assms(5) ps(3) keeps_row_scope [of "sc_forced n" r]
    show ?thesis by (auto simp: department_predicate_def split: if_splits option.splits)
  qed
qed

text \<open>
  C6. Every member any node names was granted, and its resource is one the node was scoped on.\<close>

theorem scoped_members_granted:
  assumes "apply_role_scope p who b today = Inr sp" and "n \<in> set (scoped_nodes sp)"
  shows "plan_member_names (sc_plan n) \<subseteq> visible_members who b \<and>
    (\<forall>m\<in>local_plan_member_names (sc_plan n). \<exists>r\<in>set (sc_resources n). required_owner b m = Some r)"
proof -
  from scoped_good [OF assms] obtain required where
    visible: "check_member_visibility (sc_plan n) who b = None"
    and required: "required_resources b (sc_plan n) = Inr required"
    and resources: "scope_resources (bd_joins b) required = Inr (sc_resources n)"
    by (auto elim: good_nodeE)
  have "finite required" using required by (auto simp: required_resources_def split: if_splits)
  then have "required \<subseteq> set (sc_resources n)" by (rule scope_resources_cover [OF resources])
  then have owners: "\<exists>r\<in>set (sc_resources n). required_owner b m = Some r"
    if "m \<in> local_plan_member_names (sc_plan n)" for m
    using required that by (cases "required_owner b m") (auto simp: required_resources_def split: if_splits)
  show ?thesis using visible_plan_members [OF visible] owners by blast
qed


text \<open>Erasing the scope gives the plan and its sets back, in their order.\<close>

lemma scope_keeps_plan:
  "scope_plan who b today earlier p = Inr sp \<Longrightarrow>
     sc_plan sp = p \<and> map as_derived (sc_derived sp) = map as_derived earlier @ plan_sets p"
  "scope_sets who b today earlier ds = Inr out \<Longrightarrow> map as_derived out = map as_derived earlier @ ds"
proof (induction who b today earlier p and who b today earlier ds arbitrary: sp and out
    rule: scope_plan_scope_sets.induct)
  case (1 who b today earlier p)
  then show ?case by (fastforce simp: scope_plan.simps)
next
  case (2 who b today earlier)
  then show ?case by simp
next
  case (3 who b today earlier i mode key p rest)
  from "3.prems"(1) obtain inner where
    inner: "scope_plan who b today earlier p = Inr inner"
    and rest: "scope_sets who b today (earlier @ [Scoped_set i key mode inner]) rest = Inr out"
    by auto
  from "3.IH"(1) [OF inner] have "sc_plan inner = p" by simp
  with "3.IH"(2) [OF inner rest] show ?case by (simp add: as_derived_def)
qed

text \<open>
  The scoped plan holds the plan it was asked for, unchanged, and its scoped sets are the plan's sets in
  their order.
\<close>

theorem scope_erases_to_the_plan:
  assumes "apply_role_scope p who b today = Inr sp"
  shows "sc_plan sp = p \<and> map as_derived (sc_derived sp) = plan_sets p"
  using scope_keeps_plan(1) [of who b today "[]" p sp] assms by (simp add: apply_role_scope_def)

text \<open>What a refusal tells: a name nothing answers to is a limit, a granted-to-others one a plain denial.\<close>

lemma scope_of_invisible:
  assumes "\<not> plan_member_names p \<subseteq> visible_members who b"
  shows "apply_role_scope p who b today =
    (if plan_member_names p \<subseteq> known_members b then Inl Scope_denied
     else Inl (Plan_refused ''member_not_found'' []))"
  using assms
  by (simp add: apply_role_scope_def scope_plan.simps scope_members_def check_member_visibility_def Let_def)

subsection \<open>A bundle with two resources\<close>

definition demo_bundle :: bundle_definitions where
  "demo_bundle = \<lparr>bd_hash = ''h'',
     bd_resources =
       [\<lparr>rb_name = ''orders'', rb_primary_key = ''id'', rb_mode = Required_match, rb_predicates = [],
         rb_entity_column = Some ''entity_id'', rb_department_column = Some ''dept_id'', rb_label = None\<rparr>,
        \<lparr>rb_name = ''customers'', rb_primary_key = ''id'', rb_mode = No_department,
         rb_predicates = [(''kind'', S_str ''buyer'')],
         rb_entity_column = Some ''entity_id'', rb_department_column = None, rb_label = None\<rparr>],
     bd_measures = [],
     bd_dimensions =
       [\<lparr>dm_name = ''d_customer'', dm_resource = ''customers'', dm_sql = ''id'', dm_type = Ty_string, dm_primary_key = False,
         dm_allowed = [], dm_kind = None, dm_label = None\<rparr>,
        \<lparr>dm_name = ''d_buyer'', dm_resource = ''orders'', dm_sql = ''customer_id'', dm_type = Ty_string, dm_primary_key = False,
         dm_allowed = [], dm_kind = None, dm_label = None\<rparr>],
     bd_joins = [\<lparr>jn_from = ''orders'', jn_to = ''customers'', jn_rel = Many_to_one,
                  jn_sql = ''customer_id = id'', jn_optional = False\<rparr>],
     bd_buckets = [], bd_segments = [],
     bd_capabilities =
       [\<lparr>ca_name = ''customer'', ca_kind = Dimension_kind, ca_resolves = ''d_customer'', ca_title = [],
         ca_description = [], ca_permissions = [''view''], ca_state = Cap_enabled\<rparr>,
        \<lparr>ca_name = ''buyer'', ca_kind = Dimension_kind, ca_resolves = ''d_buyer'', ca_title = [],
         ca_description = [], ca_permissions = [''view''], ca_state = Cap_enabled\<rparr>],
     bd_combinations = [],
     bd_details =
       [\<lparr>de_family = ''finish'', de_revision = ''r1'', de_owner = ''orders'', de_required = [''view''],
         de_current = False, de_logical = ''orders.finish'', de_family_aliases = [], de_aliases = [], de_values = []\<rparr>,
        \<lparr>de_family = ''finish'', de_revision = ''r2'', de_owner = ''orders'', de_required = [''audit''],
         de_current = True, de_logical = ''orders.finish'', de_family_aliases = [], de_aliases = [], de_values = []\<rparr>]\<rparr>"

definition demo_caller :: principal where
  "demo_caller = \<lparr>pr_user = ''u'', pr_role = ''clerk'', pr_permissions = [''view''], pr_department = None,
     pr_entity = Some 7, pr_cross = None, pr_manifest = Some ''m'', pr_scope = Some (Some 3)\<rparr>"

definition rows_of :: "string list \<Rightarrow> filter_node option \<Rightarrow> clauses" where
  "rows_of dims g = \<lparr>q_measures = [], q_dimensions = dims, q_bucket_set = None, q_anchor = None,
     q_filters = g, q_having = None, q_period = None, q_compare_to = None, q_grain = Entity_rows,
     q_order = [], q_attributes = [], q_details = [], q_limit = 20\<rparr>"

definition demo_set :: derived_set where
  "demo_set = Derived_set ''s'' Complete_set ''customer'' (Plan (rows_of [''customer''] None) [])"

definition demo_plan :: plan where
  "demo_plan = Plan (rows_of [''buyer'', ''customer'']
     (Some (Group [Leaf (Plan_filter \<lparr>pf_member = ''buyer'', pf_operator = Op_in_set,
                                       pf_values = [S_str ''s'']\<rparr>)] []))) [demo_set]"

lemmas demo_defs = demo_bundle_def demo_caller_def rows_of_def demo_set_def demo_plan_def

lemma demo_key: "set_key_compatible ''buyer'' demo_set demo_bundle False = Inr ()"
proof -
  let ?j = "\<lparr>jn_from = ''orders'', jn_to = ''customers'', jn_rel = Many_to_one,
              jn_sql = ''customer_id = id'', jn_optional = False\<rparr>"
  have cols: "join_columns ?j = Some (''customer_id'', ''id'')" by code_simp
  have ids: "is_identifier ''customer_id''" "is_identifier ''id''" by (code_simp, code_simp)
  have keys: "is_declared_key demo_bundle (''customers'', ''id'')" "\<not> is_declared_key demo_bundle (''orders'', ''customer_id'')"
    by (simp_all add: is_declared_key_def last_resource_def last_named_def demo_bundle_def)
  have joins: "bd_joins demo_bundle = [?j]" by (simp add: demo_bundle_def)
  have resources: "last_resource demo_bundle ''orders'' \<noteq> None" "last_resource demo_bundle ''customers'' \<noteq> None"
    by (simp_all add: last_resource_def last_named_def demo_bundle_def)
  have "key_bfs demo_bundle \<lparr>ks_visited = [(''orders'', ''customer_id'')],
       ks_queue = [((''orders'', ''customer_id''), 0)], ks_reached = []\<rparr> = [(''customers'', ''id'')]"
    by (subst key_bfs.simps) (simp add: MAX_KEY_HOPS_def joins key_hop_def cols keys key_bfs.simps)
  with keys resources ids have pk: "resolve_pk_identity ''orders'' ''customer_id'' demo_bundle = Inr (''customers'', ''id'')"
    "resolve_pk_identity ''customers'' ''id'' demo_bundle = Inr (''customers'', ''id'')"
    by (auto simp: resolve_pk_identity_def)
  have dims: "resolve_dimension ''buyer'' demo_bundle = Inr \<lparr>dm_name = ''d_buyer'', dm_resource = ''orders'',
        dm_sql = ''customer_id'', dm_type = Ty_string, dm_primary_key = False, dm_allowed = [], dm_kind = None, dm_label = None\<rparr>"
    "resolve_dimension ''customer'' demo_bundle = Inr \<lparr>dm_name = ''d_customer'', dm_resource = ''customers'',
        dm_sql = ''id'', dm_type = Ty_string, dm_primary_key = False, dm_allowed = [], dm_kind = None, dm_label = None\<rparr>"
    by (simp_all add: resolve_dimension_def capability_named_def demo_bundle_def)
  show ?thesis
    by (simp add: set_key_compatible_def entity_key_compatible_def demo_set_def rows_of_def
        time_group_for_def mode_shape_def monetary_partition_def dims pk kinds_agree_def require_def)
qed

lemma demo_visible: "visible_members demo_caller demo_bundle = {''customer'', ''buyer'', ''finish''}"
  by (auto simp: visible_members_def visible_entries_def permissions_satisfied_def
      detail_permissions_satisfied_def demo_defs)

lemma demo_owners:
  "required_owner demo_bundle ''customer'' = Some ''customers''" "required_owner demo_bundle ''buyer'' = Some ''orders''"
  "required_owner demo_bundle ''finish'' = Some ''orders''"
  by (simp_all add: required_owner_def member_owning_resource_def capability_named_def owning_resource_def
      definition_owner_def resolve_detail_definition_def demo_bundle_def)

lemma demo_resources:
  "scope_resources (bd_joins demo_bundle) {''orders'', ''customers''} = Inr [''customers'', ''orders'']"
  "scope_resources js {x} = Inr [x]"
proof -
  have sorts: "sort (remdups [''customers'', ''orders'']) = [''customers'', ''orders'']" by code_simp
  have names: "sorted_list_of_set {''orders'', ''customers''} = [''customers'', ''orders'']"
    using sorted_names [of "[''customers'', ''orders'']"] unfolding sorts by (simp add: insert_commute)
  have adj: "scope_adjacency (bd_joins demo_bundle) ''customers'' = [''orders'']"
    by code_simp
  show "scope_resources (bd_joins demo_bundle) {''orders'', ''customers''} = Inr [''customers'', ''orders'']"
    by (simp add: scope_resources_def names scope_path_spec adj insert_commute)
  show "scope_resources js {x} = Inr [x]" by (simp add: scope_resources_def)
qed

lemma demo_forced:
  "forced_on demo_bundle demo_caller ''orders'' =
     Inr [scope_predicate ''orders'' ''entity_id'' (S_int 7), scope_predicate ''orders'' ''dept_id'' (S_int 3)]"
  "forced_on demo_bundle demo_caller ''customers'' =
     Inr [scope_predicate ''customers'' ''entity_id'' (S_int 7), scope_predicate ''customers'' ''kind'' (S_str ''buyer'')]"
  by (simp_all add: forced_on_def last_resource_def last_named_def forced_for_resource_def entity_predicate_def
      department_predicate_def cross_entity_def scope_department_def demo_bundle_def demo_caller_def)

lemma demo_scoped:
  "\<exists>sp. apply_role_scope demo_plan demo_caller demo_bundle None = Inr sp \<and>
     sc_resources sp = [''customers'', ''orders'']"
proof -
  let ?p = "Plan (rows_of [''customer''] None) []"
  have inner_names: "local_plan_member_names ?p = {''customer''}"
    by (simp add: local_plan_member_names_def rows_of_def filter_members_def)
  have names: "local_plan_member_names demo_plan = {''buyer'', ''customer''}"
    by (auto simp: local_plan_member_names_def demo_plan_def rows_of_def filter_members_def)
  have "attribute_predicates ?p = []" "on_plan q_details ?p = []"
    by (simp_all add: attribute_predicates_def rows_of_def)
  then have inner: "scope_members demo_caller demo_bundle ?p =
      Inr ([''customers''], [scope_predicate ''customers'' ''entity_id'' (S_int 7),
             scope_predicate ''customers'' ''kind'' (S_str ''buyer'')])"
    by (simp add: scope_members_def check_member_visibility_def demo_visible inner_names required_resources_def
        demo_owners demo_resources demo_forced)
  have outer: "scope_members demo_caller demo_bundle demo_plan =
      Inr ([''customers'', ''orders''], [scope_predicate ''customers'' ''entity_id'' (S_int 7),
             scope_predicate ''customers'' ''kind'' (S_str ''buyer''),
             scope_predicate ''orders'' ''entity_id'' (S_int 7), scope_predicate ''orders'' ''dept_id'' (S_int 3)])"
  proof -
    have "plan_member_names demo_plan = {''buyer'', ''customer''}"
      using names inner_names by (auto simp: demo_plan_def demo_set_def)
    moreover have "attribute_predicates demo_plan = []" "on_plan q_details demo_plan = []"
      by (simp_all add: attribute_predicates_def demo_plan_def rows_of_def kept_def)
    ultimately show ?thesis
      by (simp add: scope_members_def check_member_visibility_def demo_visible names required_resources_def
        demo_owners demo_resources demo_forced)
  qed
  have "set_filters_compatible ?p [] demo_bundle = Inr ()"
    by (simp add: set_filters_compatible_def rows_of_def)
  then obtain inner_sp where inner_sp: "scope_plan demo_caller demo_bundle None [] ?p = Inr inner_sp"
    and inner_plan: "sc_plan inner_sp = ?p" by (simp add: scope_plan.simps inner)
  have set: "as_derived (Scoped_set ''s'' ''customer'' Complete_set inner_sp) = demo_set"
    by (simp add: as_derived_def inner_plan demo_set_def)
  have "set_filters_compatible demo_plan [Scoped_set ''s'' ''customer'' Complete_set inner_sp] demo_bundle = Inr ()"
    using demo_key set
    by (simp add: set_filters_compatible_def set_filter_compatible_def demo_plan_def rows_of_def last_named_def)
  moreover have "plan_sets demo_plan = [Derived_set ''s'' Complete_set ''customer'' ?p]"
    by (simp add: demo_plan_def demo_set_def)
  ultimately show ?thesis
    by (simp add: apply_role_scope_def scope_plan.simps [of _ _ _ _ demo_plan] outer inner_sp)
qed


text \<open>
  A predicate that pins no revision can read one the caller was not granted: its family is visible by
  a grant on any revision, the check of grants looks at pinned revisions only, and the compiler
  reads the current revision.
\<close>

definition finish_predicate :: attribute_predicate where
  "finish_predicate = \<lparr>at_family = ''finish'', at_attribute = None, at_revision = None,
     at_definition_revision = None, at_value_kind = ''integer'', at_operator = Op_gt,
     at_values = [S_int 5], at_quantifier = ''any''\<rparr>"

definition finish_plan :: plan where
  "finish_plan = Plan (rows_of [''buyer''] None \<lparr>q_attributes := [finish_predicate]\<rparr>) []"

theorem unpinned_predicate_reads_ungranted_revision:
  "\<exists>p who b sp a d. wf_details b \<and> apply_role_scope p who b None = Inr sp \<and> a \<in> set (attribute_predicates p) \<and>
     resolve_detail_definition b (at_family a) (at_revision a) = Some d \<and> \<not> detail_permissions_satisfied d who"
proof -
  have names: "local_plan_member_names finish_plan = {''buyer'', ''finish''}"
    by (auto simp: local_plan_member_names_def finish_plan_def rows_of_def filter_members_def finish_predicate_def)
  have attributes: "attribute_predicates finish_plan = [finish_predicate]" "on_plan q_details finish_plan = []"
    by (simp_all add: attribute_predicates_def finish_plan_def rows_of_def)
  have "plan_member_names finish_plan = {''buyer'', ''finish''}"
    using names by (simp add: finish_plan_def)
  then have "scope_members demo_caller demo_bundle finish_plan =
      Inr ([''orders''], [scope_predicate ''orders'' ''entity_id'' (S_int 7), scope_predicate ''orders'' ''dept_id'' (S_int 3)])"
    by (simp add: scope_members_def check_member_visibility_def demo_visible names attributes
        pinned_revision_denied_def finish_predicate_def required_resources_def demo_owners demo_resources demo_forced)
  then have "\<exists>sp. apply_role_scope finish_plan demo_caller demo_bundle None = Inr sp"
    by (simp add: apply_role_scope_def scope_plan.simps finish_plan_def rows_of_def set_filters_compatible_def)
  moreover have "wf_details demo_bundle"
    by (simp add: wf_details_def demo_bundle_def)
  moreover have "\<exists>d. resolve_detail_definition demo_bundle (at_family finish_predicate) (at_revision finish_predicate) = Some d \<and>
      \<not> detail_permissions_satisfied d demo_caller"
    by (simp add: resolve_detail_definition_def finish_predicate_def demo_bundle_def detail_permissions_satisfied_def
        demo_caller_def)
  ultimately show ?thesis using attributes by (metis list.set_intros(1))
qed

subsection \<open>The guarantees on that bundle\<close>

lemma scoped_nodes_self: "sp \<in> set (scoped_nodes sp)"
  by (cases sp) simp

theorem compatible_set_shares_key_witness:
  "on_plan q_dimensions (set_plan demo_set) = [set_key demo_set]"
  using compatible_set_shares_key [OF demo_key] by simp

theorem scoped_rows_of_one_entity_witness:
  "\<exists>sp. apply_role_scope demo_plan demo_caller demo_bundle None = Inr sp \<and>
     (\<forall>r\<in>{''customers'', ''orders''}. \<exists>binding column entity. last_resource demo_bundle r = Some binding \<and>
        rb_entity_column binding = Some column \<and> pr_entity demo_caller = Some entity \<and>
        (\<forall>row. keeps_row (sc_forced sp) r row \<longrightarrow> row column = Some (S_int entity)))"
proof -
  obtain sp where sp: "apply_role_scope demo_plan demo_caller demo_bundle None = Inr sp"
    "sc_resources sp = [''customers'', ''orders'']" using demo_scoped by blast
  have "\<not> cross_entity demo_caller" by (simp add: cross_entity_def demo_caller_def)
  from scoped_rows_of_one_entity [OF sp(1) this scoped_nodes_self] sp show ?thesis by simp
qed

theorem scoped_rows_of_the_department_witness:
  "\<exists>sp. apply_role_scope demo_plan demo_caller demo_bundle None = Inr sp \<and>
     (\<forall>row. keeps_row (sc_forced sp) ''orders'' row \<longrightarrow> row ''dept_id'' = Some (S_int 3))"
proof -
  obtain sp where sp: "apply_role_scope demo_plan demo_caller demo_bundle None = Inr sp"
    "sc_resources sp = [''customers'', ''orders'']" using demo_scoped by blast
  have "\<exists>r. last_resource demo_bundle ''orders'' = Some r \<and> rb_mode r \<noteq> No_department \<and>
      rb_department_column r = Some ''dept_id''"
    by (simp add: last_resource_def last_named_def demo_bundle_def)
  then obtain r where r: "last_resource demo_bundle ''orders'' = Some r" "rb_mode r \<noteq> No_department"
    "rb_department_column r = Some ''dept_id''" by blast
  have "scope_department demo_caller = Some 3" by (simp add: scope_department_def demo_caller_def)
  with scoped_rows_of_the_department [OF sp(1) scoped_nodes_self _ r(1,2)] sp r(3) show ?thesis by simp
qed

theorem scoped_members_granted_witness:
  "\<exists>sp. apply_role_scope demo_plan demo_caller demo_bundle None = Inr sp \<and>
     plan_member_names (sc_plan sp) \<subseteq> {''customer'', ''buyer'', ''finish''}"
  using demo_scoped scoped_members_granted [OF _ scoped_nodes_self, of demo_plan demo_caller demo_bundle None]
  unfolding demo_visible by blast

theorem scope_erases_to_the_plan_witness:
  "\<exists>sp. apply_role_scope demo_plan demo_caller demo_bundle None = Inr sp \<and>
     sc_plan sp = demo_plan \<and> map as_derived (sc_derived sp) = [demo_set]"
  using demo_scoped scope_erases_to_the_plan [of demo_plan demo_caller demo_bundle None]
  by (fastforce simp: demo_plan_def)

end
