(* ===== verification/Detail_Family.thy ===== *)
theory Detail_Family
  imports Visibility
begin

text \<open>
  Detail families and the aliases of their values (app/business_query/plan/detail_family.py): the
  canonical family of a label, the index of selection aliases, and the typed value of an alias.
\<close>

subsection \<open>Normal forms\<close>

definition normalize_alias :: "string \<Rightarrow> string" where
  "normalize_alias raw = py_join '' '' (py_words [] (py_lower (py_strip raw)))"

definition normalize_family_alias :: "string \<Rightarrow> string" where
  "normalize_family_alias raw =
     py_join '' '' (py_words []
       (map (\<lambda>c. if c \<in> {CHR ''.'', CHR ''_'', CHR ''-''} then CHR '' '' else c) (py_lower (py_strip raw))))"

subsection \<open>Family labels\<close>

definition signed_family_aliases :: "detail_definition \<Rightarrow> string list" where
  "signed_family_aliases d =
     filter (\<lambda>a. py_strip a \<noteq> [])
       ([de_family d, de_logical d] @
        (let owner = de_owner d @ ''.'' in
         if take (length owner) (de_logical d) = owner then [drop (length owner) (de_logical d)] else []) @
        de_family_aliases d @
        (if de_values d = [] then de_aliases d else []))"

definition signed_families :: "bundle_definitions \<Rightarrow> string \<Rightarrow> string list" where
  "signed_families b normal =
     remdups (map de_family
       (filter (\<lambda>d. normal \<in> normalize_family_alias ` set (signed_family_aliases d)) (bd_details b)))"

definition normalize_detail_family :: "bundle_definitions \<Rightarrow> string \<Rightarrow> string option" where
  "normalize_detail_family b family =
     (if family \<in> de_family ` set (bd_details b) then Some family
      else case signed_families b (normalize_family_alias family) of [f] \<Rightarrow> Some f | _ \<Rightarrow> None)"

definition canonical_family :: "bundle_definitions \<Rightarrow> string \<Rightarrow> string" where
  "canonical_family b family =
     (case normalize_detail_family b family of None \<Rightarrow> family | Some f \<Rightarrow> if f = [] then family else f)"

text \<open>A map over the attribute leaves of a filter group that may refuse.\<close>

fun rmap_attributes :: "(attribute_predicate \<Rightarrow> 'e + attribute_predicate) \<Rightarrow> filter_node \<Rightarrow> 'e + filter_node" where
  "rmap_attributes f (Leaf (Plan_filter l)) = Inr (Leaf (Plan_filter l))"
| "rmap_attributes f (Leaf (Attribute a)) = rbind (f a) (\<lambda>a'. Inr (Leaf (Attribute a')))"
| "rmap_attributes f (Group xs ys) =
     rbind (rmap (rmap_attributes f) xs) (\<lambda>xs'.
     rbind (rmap (rmap_attributes f) ys) (\<lambda>ys'. Inr (Group xs' ys')))"

definition rmap_group ::
    "(attribute_predicate \<Rightarrow> 'e + attribute_predicate) \<Rightarrow> filter_node option \<Rightarrow> 'e + filter_node option" where
  "rmap_group f g = (case g of None \<Rightarrow> Inr None | Some n \<Rightarrow> rbind (rmap_attributes f n) (\<lambda>n'. Inr (Some n')))"

definition rmap_predicates :: "(attribute_predicate \<Rightarrow> 'e + attribute_predicate) \<Rightarrow> plan \<Rightarrow> 'e + plan" where
  "rmap_predicates f p =
     rbind (rmap f (on_plan q_attributes p)) (\<lambda>attributes.
     rbind (rmap_group f (on_plan q_filters p)) (\<lambda>filters.
     rbind (rmap_group f (on_plan q_having p)) (\<lambda>having.
     Inr (Plan ((plan_clauses p)\<lparr>q_attributes := attributes, q_filters := filters, q_having := having\<rparr>)
            (plan_sets p)))))"

definition canonicalize_detail_families :: "bundle_definitions \<Rightarrow> plan \<Rightarrow> plan" where
  "canonicalize_detail_families b p =
     (let details = map (\<lambda>s. s\<lparr>dt_family := canonical_family b (dt_family s)\<rparr>) (on_plan q_details p) in
      case rmap_predicates (\<lambda>a. Inr (a\<lparr>at_family := canonical_family b (at_family a)\<rparr>) :: unit + attribute_predicate)
             (Plan ((plan_clauses p)\<lparr>q_details := details\<rparr>) (plan_sets p)) of
        Inl e \<Rightarrow> p | Inr p' \<Rightarrow> p')"

subsection \<open>The alias index of selections\<close>

definition put_default :: "('k, 'v) dict \<Rightarrow> 'k \<Rightarrow> 'v \<Rightarrow> ('k, 'v) dict" where
  "put_default d k v = (if dict_has d k then d else dict_set d k v)"

definition index_alias :: "string \<Rightarrow> string \<Rightarrow> (string, string) dict \<Rightarrow> (string, string) dict" where
  "index_alias family alias m =
     dict_set (dict_set (dict_set m (normalize_alias alias) family) (py_lower alias) family) alias family"

definition index_family_alias :: "string \<Rightarrow> (string, string) dict \<Rightarrow> string \<Rightarrow> (string, string) dict" where
  "index_family_alias family m alias =
     foldl (\<lambda>m token. put_default m (py_lower token) family) (index_alias family alias m) (py_words [] alias)"

definition index_selection_alias :: "(string, string) dict \<Rightarrow> detail_definition \<Rightarrow> (string, string) dict" where
  "index_selection_alias m d =
     (let family = de_family d;
          m1 = dict_set (dict_set m (py_lower family) family) family family;
          m2 = put_default m1 (py_lower (takeWhile (\<lambda>c. c \<noteq> CHR ''.'') family)) family;
          m3 = foldl (index_family_alias family) m2 (de_family_aliases d)
      in foldl (\<lambda>m alias. index_alias family alias m) m3 (de_aliases d))"

definition selection_aliases :: "bundle_definitions \<Rightarrow> (string, string) dict" where
  "selection_aliases b = foldl index_selection_alias [] (bd_details b)"

definition resolve_selection_family :: "bundle_definitions \<Rightarrow> string \<Rightarrow> string" where
  "resolve_selection_family b family =
     (let m = selection_aliases b in
      case str_or (dict_get m family)
             (str_or (dict_get m (py_lower family))
               (str_or (dict_get m (normalize_alias family)) (Some family))) of
        Some f \<Rightarrow> f | None \<Rightarrow> family)"

definition canonicalize_detail_selections :: "bundle_definitions \<Rightarrow> plan \<Rightarrow> plan" where
  "canonicalize_detail_selections b p =
     Plan ((plan_clauses p)\<lparr>q_details :=
        map (\<lambda>s. s\<lparr>dt_family := resolve_selection_family b (dt_family s)\<rparr>) (on_plan q_details p)\<rparr>) (plan_sets p)"

text \<open>\<open>families_mentioned_in\<close>: the families of which a signed phrase stands in the question as whole words.\<close>

definition question_phrases :: "bundle_definitions \<Rightarrow> (string \<times> string) list" where
  "question_phrases b =
     concat (map (\<lambda>d. map (\<lambda>phrase. (phrase, de_family d))
        (filter (\<lambda>phrase. phrase \<noteq> []) (map normalize_family_alias (de_family_aliases d)))) (bd_details b))"

definition families_mentioned_in :: "bundle_definitions \<Rightarrow> string \<Rightarrow> string list" where
  "families_mentioned_in b question =
     remdups (map snd (filter (\<lambda>(phrase, family).
        sublist ('' '' @ phrase @ '' '') ('' '' @ normalize_family_alias question @ '' '')) (question_phrases b)))"

subsection \<open>The values of an attribute predicate\<close>

text \<open>The signed aliases of one revision; a canonical value stands for itself when no alias is that text.\<close>

definition definition_value_mapping :: "detail_definition \<Rightarrow> (string, scalar) dict" where
  "definition_value_mapping d =
     (let mapping = foldl (\<lambda>m (alias, v). dict_set m (normalize_alias alias) v) [] (de_values d) in
      foldl (\<lambda>m v. put_default m (normalize_alias (py_str v)) v) mapping (map snd mapping))"

definition definitions_for :: "bundle_definitions \<Rightarrow> string \<Rightarrow> detail_definition list" where
  "definitions_for b family = filter (\<lambda>d. de_family d = family) (bd_details b)"

definition family_keys :: "bundle_definitions \<Rightarrow> string list" where
  "family_keys b = sort (remdups (map de_family (bd_details b)))"

definition alias_matches ::
    "bundle_definitions \<Rightarrow> string \<Rightarrow> detail_definition list \<Rightarrow> string \<Rightarrow> (scalar \<times> detail_definition) list" where
  "alias_matches b family candidates alias =
     kept (map (\<lambda>signed.
        case resolve_detail_definition b family (Some (de_revision signed)) of
          None \<Rightarrow> None
        | Some d \<Rightarrow> map_option (\<lambda>v. (v, signed)) (dict_get (definition_value_mapping d) (normalize_alias alias)))
       candidates)"

text \<open>One value: a text resolves to the first match when all matches are of one value.\<close>

datatype unresolved = Member_not_found

definition canonical_value ::
    "bundle_definitions \<Rightarrow> string \<Rightarrow> detail_definition list \<Rightarrow> scalar \<Rightarrow> unresolved + scalar \<times> string option" where
  "canonical_value b family candidates v =
     (case v of
        S_str alias \<Rightarrow>
          (case alias_matches b family candidates alias of
             [] \<Rightarrow> Inl Member_not_found
           | (typed, signed) # rest \<Rightarrow>
               if \<forall>m\<in>set rest. fst m = typed then Inr (typed, Some (de_revision signed))
               else Inl Member_not_found)
      | _ \<Rightarrow> Inr (v, None))"

definition candidate_revisions :: "bundle_definitions \<Rightarrow> attribute_predicate \<Rightarrow> detail_definition list" where
  "candidate_revisions b a =
     filter (\<lambda>d. at_revision a = None \<or> at_revision a = Some (de_revision d)) (definitions_for b (at_family a))"

definition pin_revision :: "detail_definition list \<Rightarrow> string list \<Rightarrow> attribute_predicate \<Rightarrow> attribute_predicate" where
  "pin_revision candidates revisions a =
     (case revisions of
        [r] \<Rightarrow>
          if at_revision a = None \<and> 1 < length candidates
          then a\<lparr>at_revision := Some r, at_definition_revision := Some r\<rparr> else a
      | _ \<Rightarrow> a)"

definition canonical_predicate ::
    "bundle_definitions \<Rightarrow> attribute_predicate \<Rightarrow> unresolved + attribute_predicate" where
  "canonical_predicate b a =
     (let candidates = candidate_revisions b a in
      if definitions_for b (at_family a) = [] \<or> at_operator a \<notin> {Op_eq, Op_neq, Op_in, Op_not_in} then Inr a
      else if candidates = [] then Inr a
      else
        rbind (rmap (canonical_value b (at_family a) candidates) (at_values a)) (\<lambda>resolved.
          Inr (pin_revision candidates (remdups (kept (map snd resolved))) (a\<lparr>at_values := map fst resolved\<rparr>))))"

definition canonicalize_attribute_predicates :: "bundle_definitions \<Rightarrow> plan \<Rightarrow> unresolved + plan" where
  "canonicalize_attribute_predicates b p = rmap_predicates (canonical_predicate b) p"

definition resolve_alias_to_value ::
    "bundle_definitions \<Rightarrow> string \<Rightarrow> string \<Rightarrow> string option \<Rightarrow> (scalar \<times> detail_definition) option" where
  "resolve_alias_to_value b family alias revision =
     (let candidates = filter (\<lambda>d. revision = None \<or> revision = Some (de_revision d)) (definitions_for b family);
          matches = kept (map (\<lambda>signed.
             case resolve_detail_definition b family (Some (de_revision signed)) of
               None \<Rightarrow> None
             | Some d \<Rightarrow> map_option (\<lambda>v. (v, d)) (dict_get (definition_value_mapping d) (normalize_alias alias)))
            candidates)
      in case matches of
           [] \<Rightarrow> None
         | m # rest \<Rightarrow> if \<forall>n\<in>set rest. fst n = fst m then Some m else None)"

definition known_detail_definitions :: "bundle_definitions \<Rightarrow> detail_definition list" where
  "known_detail_definitions b = kept (map (\<lambda>f. resolve_detail_definition b f None) (family_keys b))"


subsection \<open>The predicates of a canonical plan\<close>

declare kept_append [simp]

lemma kept_simps [simp]: "kept [] = []" "kept (Some x # xs) = x # kept xs" "kept (None # xs) = kept xs"
  by (simp_all add: kept_def)

lemma rmap_concat:
  "list_all2 (\<lambda>x y. rmap f (g x) = Inr (g y)) xs ys \<Longrightarrow>
     rmap f (concat (map g xs)) = Inr (concat (map g ys))"
  by (induction rule: list_all2_induct) (auto simp: rmap_append)

abbreviation leaves_of :: "filter_node \<Rightarrow> attribute_predicate list" where
  "leaves_of n \<equiv> attribute_leaves (Some n)"

lemma leaves_of_Group: "leaves_of (Group xs ys) = concat (map leaves_of (xs @ ys))"
  by (simp add: map_concat kept_concat comp_def)

lemma rmap_attributes_leaves:
  "rmap_attributes f n = Inr n' \<Longrightarrow> rmap f (leaves_of n) = Inr (leaves_of n')"
proof (induction n arbitrary: n')
  case (Leaf l)
  then show ?case by (cases l) auto
next
  case (Group xs ys)
  from Group.prems obtain xs' ys' where n': "n' = Group xs' ys'"
    and all: "list_all2 (\<lambda>x y. rmap_attributes f x = Inr y) xs xs'"
      "list_all2 (\<lambda>x y. rmap_attributes f x = Inr y) ys ys'"
    by (auto simp: rmap_eq_Inr)
  have "list_all2 (\<lambda>x y. rmap f (leaves_of x) = Inr (leaves_of y)) (xs @ ys) (xs' @ ys')"
    by (intro list_all2_appendI list.rel_mono_strong [OF all(1)] list.rel_mono_strong [OF all(2)] Group.IH)
       auto
  from rmap_concat [OF this] show ?case unfolding n' leaves_of_Group .
qed

lemma rmap_group_leaves:
  "rmap_group f g = Inr g' \<Longrightarrow> rmap f (attribute_leaves g) = Inr (attribute_leaves g')"
  by (cases g) (auto simp: rmap_group_def simp del: attribute_leaves.simps(2) intro: rmap_attributes_leaves)

lemma rmap_predicates_all:
  assumes "rmap_predicates f p = Inr p'"
  shows "rmap f (attribute_predicates p) = Inr (attribute_predicates p') \<and> plan_sets p' = plan_sets p"
  using assms
  by (auto simp: rmap_predicates_def attribute_predicates_def rmap_append dest!: rmap_group_leaves
      simp del: attribute_leaves.simps)

subsection \<open>No text an operator compares is left unresolved\<close>

definition signed_value :: "bundle_definitions \<Rightarrow> string \<Rightarrow> string option \<Rightarrow> scalar \<Rightarrow> bool" where
  "signed_value b family revision v \<longleftrightarrow>
     (\<exists>d\<in>set (bd_details b). de_family d = family \<and> (revision = None \<or> revision = Some (de_revision d)) \<and>
        v \<in> snd ` set (definition_value_mapping d))"

lemma alias_matches_signed:
  assumes "(v, signed) \<in> set (alias_matches b family candidates alias)"
  shows "signed \<in> set candidates \<and> (\<exists>d\<in>set (bd_details b). de_family d = family \<and>
    de_revision d = de_revision signed \<and> dict_get (definition_value_mapping d) (normalize_alias alias) = Some v)"
  using assms
  by (fastforce simp: alias_matches_def resolve_detail_definition_def eq_commute [of "Some (v, signed)"]
      split: option.splits list.splits if_splits dest!: filter_ConsD)

lemma canonical_value_signed:
  assumes "canonical_value b family candidates v = Inr (v', r)"
    and "\<forall>d\<in>set candidates. revision = None \<or> revision = Some (de_revision d)"
  shows "(r = None \<and> v' = v \<and> (\<forall>s. v \<noteq> S_str s)) \<or>
    ((\<exists>s. v = S_str s) \<and> (\<exists>signed\<in>set candidates. r = Some (de_revision signed)) \<and>
     signed_value b family revision v')"
proof (cases v)
  case (S_str word)
  with assms(1) obtain signed rest where
    hit: "alias_matches b family candidates word = (v', signed) # rest" "r = Some (de_revision signed)"
    by (auto simp: canonical_value_def split: list.splits if_splits)
  then have "(v', signed) \<in> set (alias_matches b family candidates word)" by simp
  from alias_matches_signed [OF this] obtain d where
    d: "signed \<in> set candidates" "d \<in> set (bd_details b)" "de_family d = family" "de_revision d = de_revision signed"
      "dict_get (definition_value_mapping d) (normalize_alias word) = Some v'" by blast
  from d(5) have "v' \<in> snd ` set (definition_value_mapping d)" by (force dest: map_of_SomeD)
  with d assms(2) S_str hit(2) show ?thesis unfolding signed_value_def by metis
qed (use assms(1) in \<open>auto simp: canonical_value_def\<close>)

definition compared_exactly :: "attribute_predicate \<Rightarrow> bool" where
  "compared_exactly a \<longleftrightarrow> at_operator a \<in> {Op_eq, Op_neq, Op_in, Op_not_in}"

lemma pin_revision_same [simp]:
  "at_family (pin_revision cs rs a) = at_family a" "at_operator (pin_revision cs rs a) = at_operator a"
  "at_values (pin_revision cs rs a) = at_values a"
  by (simp_all add: pin_revision_def split: list.split)

lemma canonical_predicate_same:
  assumes "canonical_predicate b a = Inr a'"
  shows "at_family a' = at_family a \<and> at_operator a' = at_operator a"
  using assms by (auto simp: canonical_predicate_def Let_def split: if_splits)

lemma canonical_predicate_values:
  assumes "canonical_predicate b a = Inr a'" and "compared_exactly a" and "candidate_revisions b a \<noteq> []"
  shows "\<exists>resolved. rmap (canonical_value b (at_family a) (candidate_revisions b a)) (at_values a) = Inr resolved \<and>
    at_values a' = map fst resolved"
proof -
  have "definitions_for b (at_family a) \<noteq> []" using assms(3) by (auto simp: candidate_revisions_def)
  then have "canonical_predicate b a =
      rbind (rmap (canonical_value b (at_family a) (candidate_revisions b a)) (at_values a)) (\<lambda>resolved.
        Inr (pin_revision (candidate_revisions b a) (remdups (kept (map snd resolved))) (a\<lparr>at_values := map fst resolved\<rparr>)))"
    using assms(2,3) by (simp add: canonical_predicate_def compared_exactly_def Let_def)
  with assms(1) show ?thesis by auto
qed

lemma canonical_predicate_signed:
  assumes "canonical_predicate b a = Inr a'" and "compared_exactly a" and "candidate_revisions b a \<noteq> []"
    and "S_str s \<in> set (at_values a')"
  shows "signed_value b (at_family a) (at_revision a) (S_str s)"
proof -
  from canonical_predicate_values [OF assms(1-3)] obtain resolved where
    resolved: "rmap (canonical_value b (at_family a) (candidate_revisions b a)) (at_values a) = Inr resolved"
    and vals: "at_values a' = map fst resolved" by blast
  from vals assms(4) obtain r where r: "(S_str s, r) \<in> set resolved" by auto
  from rmap_source [OF resolved r] obtain v where
    "canonical_value b (at_family a) (candidate_revisions b a) v = Inr (S_str s, r)" by blast
  from canonical_value_signed [OF this, of "at_revision a"] show ?thesis
    by (auto simp: candidate_revisions_def)
qed



subsection \<open>What the alias index may answer\<close>

lemma get_index_alias:
  "dict_get (index_alias family word m) k =
     (if k \<in> {normalize_alias word, py_lower word, word} then Some family else dict_get m k)"
  by (auto simp: index_alias_def update_conv')

lemma get_set_default:
  "dict_get (put_default d k v) k' = (if k' = k \<and> dict_get d k = None then Some v else dict_get d k')"
  by (auto simp: put_default_def dict_has_iff update_conv')

lemma get_tokens:
  "dict_get (foldl (\<lambda>m token. put_default m (py_lower token) family) m tokens) k \<in> {Some family, dict_get m k}"
  "dict_get m k \<noteq> None \<Longrightarrow>
     dict_get (foldl (\<lambda>m token. put_default m (py_lower token) family) m tokens) k = dict_get m k"
  by (induction tokens arbitrary: m) (fastforce simp: get_set_default split: if_splits)+

definition alias_keys :: "string list \<Rightarrow> string set" where
  "alias_keys words = (\<Union>w\<in>set words. {normalize_alias w, py_lower w, w})"

lemma get_family_alias:
  "dict_get (index_family_alias family m word) k \<in> {Some family, dict_get m k}"
  "k \<notin> alias_keys [word] \<Longrightarrow> dict_get m k \<noteq> None \<Longrightarrow> dict_get (index_family_alias family m word) k = dict_get m k"
  using get_tokens [where family = family and m = "index_alias family word m" and tokens = "py_words [] word" and k = k]
  by (auto simp: index_family_alias_def get_index_alias alias_keys_def split: if_splits)

lemma get_family_aliases:
  "dict_get (foldl (index_family_alias family) m words) k \<in> {Some family, dict_get m k}"
  "k \<notin> alias_keys words \<Longrightarrow> dict_get m k \<noteq> None \<Longrightarrow>
     dict_get (foldl (index_family_alias family) m words) k = dict_get m k"
proof (induction words arbitrary: m)
  case (Cons word words)
  {
    case 1
    show ?case using Cons.IH(1) [of "index_family_alias family m word"] get_family_alias(1) [where family = family and m = m and word = word and k = k]
      by auto
  next
    case 2
    then show ?case
      using Cons.IH(2) [of "index_family_alias family m word"] get_family_alias(2) [where family = family and m = m and word = word and k = k]
      by (simp add: alias_keys_def)
  }
qed simp_all

lemma get_aliases:
  "dict_get (foldl (\<lambda>m word. index_alias family word m) m words) k \<in> {Some family, dict_get m k}"
  "k \<notin> alias_keys words \<Longrightarrow>
     dict_get (foldl (\<lambda>m word. index_alias family word m) m words) k = dict_get m k"
  by (induction words arbitrary: m) (fastforce simp: get_index_alias alias_keys_def split: if_splits)+

text \<open>The keys a definition writes over.\<close>

definition overwritten :: "detail_definition \<Rightarrow> string set" where
  "overwritten d = {py_lower (de_family d), de_family d} \<union> alias_keys (de_family_aliases d @ de_aliases d)"

lemma get_selection_alias:
  "dict_get (index_selection_alias m d) k \<in> {Some (de_family d), dict_get m k}"
  "k \<notin> overwritten d \<Longrightarrow> dict_get m k \<noteq> None \<Longrightarrow> dict_get (index_selection_alias m d) k = dict_get m k"
  "dict_get (index_selection_alias m d) (de_family d) = Some (de_family d)"
proof -
  define m2 where "m2 = put_default (dict_set (dict_set m (py_lower (de_family d)) (de_family d)) (de_family d) (de_family d))
      (py_lower (takeWhile (\<lambda>c. c \<noteq> CHR ''.'') (de_family d))) (de_family d)"
  define m3 where "m3 = foldl (index_family_alias (de_family d)) m2 (de_family_aliases d)"
  have result: "index_selection_alias m d = foldl (\<lambda>m word. index_alias (de_family d) word m) m3 (de_aliases d)"
    by (simp add: index_selection_alias_def m2_def m3_def Let_def)
  have m2: "dict_get m2 k \<in> {Some (de_family d), dict_get m k}" "dict_get m2 (de_family d) = Some (de_family d)"
    "k \<notin> overwritten d \<Longrightarrow> dict_get m k \<noteq> None \<Longrightarrow> dict_get m2 k = dict_get m k" for k
    by (auto simp: m2_def get_set_default update_conv' overwritten_def)
  have m3: "dict_get m3 k \<in> {Some (de_family d), dict_get m2 k}"
    "k \<notin> overwritten d \<Longrightarrow> dict_get m2 k \<noteq> None \<Longrightarrow> dict_get m3 k = dict_get m2 k" for k
    using get_family_aliases [where family = "de_family d" and m = m2 and words = "de_family_aliases d" and k = k]
    by (auto simp: m3_def overwritten_def alias_keys_def)
  note last = get_aliases [where family = "de_family d" and m = m3 and words = "de_aliases d", folded result]
  show "dict_get (index_selection_alias m d) k \<in> {Some (de_family d), dict_get m k}"
    using last(1) [where k = k] m3(1) [of k] m2(1) [of k] by auto
  show "k \<notin> overwritten d \<Longrightarrow> dict_get m k \<noteq> None \<Longrightarrow> dict_get (index_selection_alias m d) k = dict_get m k"
    using last(2) [where k = k] m3(2) [of k] m2(3) [of k] by (simp add: overwritten_def alias_keys_def)
  show "dict_get (index_selection_alias m d) (de_family d) = Some (de_family d)"
    using last(1) [where k = "de_family d"] m3(1) [of "de_family d"] m2(2) by auto
qed

lemma selection_aliases_declared:
  "dict_get (foldl index_selection_alias [] ds) k = Some f \<Longrightarrow> f \<in> de_family ` set ds"
proof (induction ds rule: rev_induct)
  case (snoc d ds)
  then show ?case using get_selection_alias(1) [where m = "foldl index_selection_alias [] ds" and d = d and k = k] by auto
qed simp

lemma selection_aliases_own:
  assumes "f \<in> de_family ` set ds" and "\<forall>d\<in>set ds. de_family d \<noteq> f \<longrightarrow> f \<notin> overwritten d"
  shows "dict_get (foldl index_selection_alias [] ds) f = Some f"
  using assms
proof (induction ds rule: rev_induct)
  case (snoc d ds)
  show ?case
  proof (cases "de_family d = f")
    case True
    then show ?thesis using get_selection_alias(3) [where m = "foldl index_selection_alias [] ds" and d = d] by simp
  next
    case False
    with snoc have "dict_get (foldl index_selection_alias [] ds) f = Some f" by auto
    with False snoc.prems get_selection_alias(2) [where k = f and d = d and m = "foldl index_selection_alias [] ds"] show ?thesis by simp
  qed
qed simp

text \<open>The family a selection is given is one the bundle declares, or the one it named.\<close>

theorem selection_family_declared:
  "resolve_selection_family b family = family \<or>
   resolve_selection_family b family \<in> de_family ` set (bd_details b)"
  using selection_aliases_declared [of "bd_details b"]
  by (auto simp: resolve_selection_family_def selection_aliases_def str_or_def truthy_str_def Let_def
      split: option.splits)

text \<open>
  A selection that names a declared family keeps it, provided no other family has that name among
  the labels it writes to the index.
\<close>

theorem declared_family_is_kept:
  assumes "family \<in> de_family ` set (bd_details b)"
    and "\<forall>d\<in>set (bd_details b). de_family d \<noteq> family \<longrightarrow> family \<notin> overwritten d"
  shows "resolve_selection_family b family = family"
proof (cases "family = []")
  case True
  then have "py_lower family = family" "normalize_alias family = family"
    by (simp_all add: py_lower_def normalize_alias_def py_strip_def py_lstrip_def)
  with True selection_aliases_own [OF assms] show ?thesis
    by (simp add: resolve_selection_family_def selection_aliases_def str_or_def truthy_str_def Let_def)
next
  case False
  with selection_aliases_own [OF assms] show ?thesis
    by (simp add: resolve_selection_family_def selection_aliases_def str_or_def truthy_str_def Let_def)
qed

definition detail_of :: "string \<Rightarrow> string \<Rightarrow> bool \<Rightarrow> string list \<Rightarrow> (string, scalar) dict \<Rightarrow> detail_definition" where
  "detail_of family revision current labels vals =
     \<lparr>de_family = family, de_revision = revision, de_owner = ''orders'', de_required = [], de_current = current,
      de_logical = family, de_family_aliases = [], de_aliases = labels, de_values = vals\<rparr>"

definition details_bundle :: "detail_definition list \<Rightarrow> bundle_definitions" where
  "details_bundle ds = \<lparr>bd_hash = ''h'',
     bd_resources = [\<lparr>rb_name = ''orders'', rb_primary_key = ''id'', rb_mode = No_department, rb_predicates = [],
         rb_entity_column = None, rb_department_column = None, rb_label = None\<rparr>],
     bd_measures = [], bd_dimensions = [], bd_joins = [], bd_buckets = [], bd_segments = [],
     bd_capabilities = [], bd_combinations = [], bd_details = ds\<rparr>"

theorem declared_family_is_kept_witness:
  "resolve_selection_family (details_bundle [detail_of ''finish'' ''r'' True [] []]) ''finish'' = ''finish''"
  by (rule declared_family_is_kept) (simp_all add: details_bundle_def detail_of_def)

text \<open>
  The label of an enumeration value can take over a declared family: a selection that names the
  family exactly reads another one, whose list of value labels holds that word.
\<close>

theorem value_label_takes_over_a_family:
  "\<exists>b family. wf_details b \<and> family \<in> de_family ` set (bd_details b) \<and>
     (\<exists>d\<in>set (bd_details b). de_family d \<noteq> family \<and> de_values d \<noteq> [] \<and> family \<in> set (de_aliases d)) \<and>
     resolve_selection_family b family \<noteq> family"
proof -
  let ?b = "details_bundle [detail_of ''gloss'' ''r'' True [] [],
       detail_of ''finish'' ''s'' True [''gloss''] [(''gloss'', S_str ''g'')]]"
  have "resolve_selection_family ?b ''gloss'' = ''finish''" by code_simp
  moreover have "wf_details ?b" by (simp add: wf_details_def details_bundle_def detail_of_def)
  ultimately show ?thesis
    by (intro exI [of _ ?b] exI [of _ "''gloss''"]) (simp add: details_bundle_def detail_of_def)
qed

text \<open>
  A text that two revisions know pins the predicate to the one listed first, also when the other is
  the current one: the unpinned predicate would have read the current revision.
\<close>

theorem shared_alias_pins_the_first_revision:
  "\<exists>b a a' d. wf_details b \<and> at_revision a = None \<and> canonical_predicate b a = Inr a' \<and>
     resolve_detail_definition b (at_family a) None = Some d \<and> de_current d \<and>
     at_revision a' \<noteq> None \<and> at_revision a' \<noteq> Some (de_revision d)"
proof -
  let ?vs = "[(''satin'', S_str ''sat'')]"
  let ?old = "detail_of ''finish'' ''r1'' False [] ?vs" and ?new = "detail_of ''finish'' ''r2'' True [] ?vs"
  let ?b = "details_bundle [?old, ?new]"
  let ?a = "\<lparr>at_family = ''finish'', at_attribute = None, at_revision = None, at_definition_revision = None,
     at_value_kind = ''enum'', at_operator = Op_eq, at_values = [S_str ''satin''], at_quantifier = ''any''\<rparr>"
  let ?c = "?a\<lparr>at_values := [S_str ''sat''], at_revision := Some ''r1'', at_definition_revision := Some ''r1''\<rparr>"
  have "canonical_predicate ?b ?a = Inr ?c" by code_simp
  moreover have "resolve_detail_definition ?b ''finish'' None = Some ?new"
    by (simp add: resolve_detail_definition_def details_bundle_def detail_of_def)
  moreover have "wf_details ?b" by (simp add: wf_details_def details_bundle_def detail_of_def)
  ultimately show ?thesis
    by (intro exI [of _ ?b] exI [of _ ?a] exI [of _ ?c] exI [of _ ?new] conjI) (simp_all add: detail_of_def)
qed


end
