(* ===== verification/Plan_Store.thy ===== *)
theory Plan_Store
  imports Role_Scope Plan_Patch
begin

text \<open>
  Stored plans (app/business_query/compile/pagination/plan_store.py, plan_payload.py) and the canonical
  form of forced predicates (authorize/forced_predicate.py). Both stores, the one in memory and the one in
  Postgres, keep the first plan of an id until it expires; the interface is the locale \<open>plan_store\<close>. What
  pydantic does to the JSON of a plan is a pair of parameters, the dump and the validation.
\<close>

subsection \<open>The canonical form of forced predicates\<close>

text \<open>\<open>json.dumps\<close> of a string of ASCII characters.\<close>

definition hex_char :: "nat \<Rightarrow> char" where
  "hex_char d = (if d < 10 then digit_char d else char_of (87 + d))"

definition json_char :: "char \<Rightarrow> string" where
  "json_char c =
     (let n = code_of c; escape = char_of (92 :: nat); quote = char_of (34 :: nat) in
      if c = quote \<or> c = escape then [escape, c]
      else if n = 10 then [escape, CHR ''n'']
      else if n = 13 then [escape, CHR ''r'']
      else if n = 9 then [escape, CHR ''t'']
      else if n = 8 then [escape, CHR ''b'']
      else if n = 12 then [escape, CHR ''f'']
      else if n < 32 then [escape, CHR ''u'', CHR ''0'', CHR ''0'', hex_char (n div 16), hex_char (n mod 16)]
      else [c])"

definition json_string :: "string \<Rightarrow> string" where
  "json_string s = (let quote = [char_of (34 :: nat)] in quote @ concat (map json_char s) @ quote)"

fun scalar_json :: "scalar \<Rightarrow> string" where
  "scalar_json (S_str s) = json_string s"
| "scalar_json (S_int n) = show_int n"
| "scalar_json (S_float s) = s"
| "scalar_json (S_bool b) = (if b then ''true'' else ''false'')"

fun operator_name :: "forced_operator \<Rightarrow> string" where
  "operator_name Forced_eq = ''eq''"
| "operator_name Forced_in = ''in''"

fun source_name :: "forced_source \<Rightarrow> string" where
  "source_name Principal_scope = ''principal_scope''"
| "source_name Record_referent = ''record_referent''"

definition json_field :: "string \<Rightarrow> string \<Rightarrow> string" where
  "json_field k v = json_string k @ '':'' @ v"

definition forced_json :: "forced_predicate \<Rightarrow> string" where
  "forced_json f =
     ''{'' @ py_join '',''
       [json_field ''column'' (json_string (fp_column f)),
        json_field ''operator'' (json_string (operator_name (fp_operator f))),
        json_field ''resource'' (json_string (fp_resource f)),
        json_field ''source'' (json_string (source_name (fp_source f))),
        json_field ''values'' (''['' @ py_join '','' (map scalar_json (fp_values f)) @ '']'')] @ ''}''"

definition canonical_forced :: "forced_predicate list \<Rightarrow> forced_predicate list" where
  "canonical_forced fs = sort_key forced_json fs"

text \<open>Python compares a number, also a truth value, by its value. A float is read from its text; a text
  without a number (an infinity) is equal to itself.\<close>

definition read_float :: "string \<Rightarrow> rat option" where
  "read_float text =
     (let body = py_lower (unsigned_part text);
          (mantissa, exponent) = split_when (\<lambda>c. c = CHR ''e'') body;
          (whole, fraction) = split_when (\<lambda>c. c = CHR ''.'') mantissa;
          digits = whole @ (case fraction of None \<Rightarrow> [] | Some f \<Rightarrow> f);
          places = (case fraction of None \<Rightarrow> 0 | Some f \<Rightarrow> int (length f));
          shift = (case exponent of None \<Rightarrow> Some 0 | Some e \<Rightarrow> py_int e) in
      if digits = [] \<or> \<not> list_all is_digit digits then None
      else case shift of
          None \<Rightarrow> None
        | Some e \<Rightarrow>
            (let n = e - places; v = of_nat (read_digits digits) * (if n < 0 then 1 / 10 ^ nat (- n) else 10 ^ nat n) in
             Some (if text \<noteq> [] \<and> hd text = CHR ''-'' then - v else v)))"

fun scalar_number :: "scalar \<Rightarrow> rat option" where
  "scalar_number (S_str s) = None"
| "scalar_number (S_int n) = Some (of_int n)"
| "scalar_number (S_float s) = read_float s"
| "scalar_number (S_bool b) = Some (if b then 1 else 0)"

definition same_scalar :: "scalar \<Rightarrow> scalar \<Rightarrow> bool" where
  "same_scalar a b \<longleftrightarrow> a = b \<or> (scalar_number a \<noteq> None \<and> scalar_number a = scalar_number b)"

definition same_forced :: "forced_predicate \<Rightarrow> forced_predicate \<Rightarrow> bool" where
  "same_forced f g \<longleftrightarrow>
     fp_resource f = fp_resource g \<and> fp_column f = fp_column g \<and> fp_operator f = fp_operator g \<and>
     fp_source f = fp_source g \<and> list_all2 same_scalar (fp_values f) (fp_values g)"

definition same_canonical :: "forced_predicate list \<Rightarrow> forced_predicate list \<Rightarrow> bool" where
  "same_canonical fs gs \<longleftrightarrow> list_all2 same_forced (canonical_forced fs) (canonical_forced gs)"

lemma same_scalar_trans: "same_scalar a b \<Longrightarrow> same_scalar b c \<Longrightarrow> same_scalar a c"
  by (auto simp: same_scalar_def)

lemma same_scalar_refl [simp]: "same_scalar a a"
  by (simp add: same_scalar_def)

lemma same_canonical_refl [simp]: "same_canonical fs fs"
  by (simp add: same_canonical_def same_forced_def list_all2_same)

lemma same_canonicalD:
  assumes "same_canonical fs gs" and "g \<in> set gs"
  shows "\<exists>f\<in>set fs. same_forced f g"
proof -
  have "g \<in> set (canonical_forced gs)" using assms(2) by (simp add: canonical_forced_def)
  then obtain i where i: "i < length (canonical_forced gs)" "canonical_forced gs ! i = g"
    by (auto simp: in_set_conv_nth)
  with assms(1) have "same_forced (canonical_forced fs ! i) g" "i < length (canonical_forced fs)"
    by (auto simp: same_canonical_def list_all2_conv_all_nth)
  moreover from this(2) have "canonical_forced fs ! i \<in> set fs"
    using nth_mem [of i "canonical_forced fs"] by (simp add: canonical_forced_def)
  ultimately show ?thesis by blast
qed

subsection \<open>Stored plans\<close>

text \<open>The envelope of a plan with sets.\<close>

record derived_payload =
  dp_version :: int
  dp_plan :: plan
  dp_forced :: "forced_predicate list"
  dp_derived :: "(string \<times> forced_predicate list) list"
  dp_date :: "date option"
  dp_policy :: response_policy
  dp_question :: "string option"

definition payload_ok :: "derived_payload \<Rightarrow> bool" where
  "payload_ok p \<longleftrightarrow>
     dp_version p \<in> {2, 3} \<and> plan_sets (dp_plan p) \<noteq> [] \<and> distinct (map fst (dp_derived p)) \<and>
     set (map fst (dp_derived p)) = set_id ` set (plan_sets (dp_plan p))"

definition derived_plan_payload :: "scoped_plan \<Rightarrow> string option \<Rightarrow> derived_payload" where
  "derived_plan_payload scoped question =
     \<lparr>dp_version = 3, dp_plan = sc_plan scoped, dp_forced = sc_forced scoped,
      dp_derived = map (\<lambda>s. (ss_id s, sc_forced (ss_scoped s))) (sc_derived scoped),
      dp_date = sx_date (sc_context scoped), dp_policy = sx_policy (sc_context scoped), dp_question = question\<rparr>"

datatype hint_source = Hint_page | Hint_binding

record owner_hint =
  oh_resource :: string
  oh_record :: scalar
  oh_member :: "string option"
  oh_source :: hint_source

text \<open>An id of a caller, an entity or a department is kept as the text \<open>str\<close> gives, the only form in which
  these fields are compared.\<close>

record stored_plan =
  sp_id :: string
  sp_plan :: plan
  sp_fingerprint :: string
  sp_created :: rat
  sp_expires :: rat
  sp_principal :: "string option"
  sp_project :: "string option"
  sp_entity :: "string option"
  sp_department :: "string option"
  sp_bundle :: "string option"
  sp_policy_hash :: "string option"
  sp_total :: "int option"
  sp_forced :: "forced_predicate list"
  sp_response :: response_policy
  sp_question :: "string option"
  sp_payload :: "derived_payload option"
  sp_hint :: "owner_hint option"
  sp_display :: "string list"

text \<open>\<open>_validate_derived_payload_contract\<close>.\<close>

definition stored_ok :: "stored_plan \<Rightarrow> bool" where
  "stored_ok s \<longleftrightarrow>
     (case sp_payload s of
        None \<Rightarrow> plan_sets (sp_plan s) = []
      | Some p \<Rightarrow> plan_sets (sp_plan s) \<noteq> [] \<and> payload_ok p \<and> dp_plan p = sp_plan s \<and>
          dp_forced p = sp_forced s \<and> dp_policy p = sp_response s \<and> dp_question p = sp_question s)"

text \<open>\<open>stored_plan_fingerprint\<close>: the canonical payload that is hashed, and the hash a parameter.\<close>

record fingerprint_payload =
  fg_plan :: json
  fg_forced :: "forced_predicate list"
  fg_policy :: response_policy
  fg_sets :: "(date option \<times> (string \<times> forced_predicate list) list) option"

definition stored_plan_fingerprint ::
    "(plan \<Rightarrow> json) \<Rightarrow> (fingerprint_payload \<Rightarrow> string) \<Rightarrow> stored_plan \<Rightarrow> string" where
  "stored_plan_fingerprint dump hash s =
     hash (case sp_payload s of
        Some p \<Rightarrow>
          \<lparr>fg_plan = dump (dp_plan p), fg_forced = canonical_forced (dp_forced p), fg_policy = dp_policy p,
           fg_sets = Some (dp_date p, map (\<lambda>(i, fs). (i, canonical_forced fs)) (sort_key fst (dp_derived p)))\<rparr>
      | None \<Rightarrow>
          \<lparr>fg_plan = dump (sp_plan s), fg_forced = canonical_forced (sp_forced s), fg_policy = sp_response s,
           fg_sets = None\<rparr>)"

text \<open>\<open>scoped_plan_fingerprint\<close>, the fingerprint of the plan before it is stored.\<close>

definition scoped_plan_fingerprint ::
    "(plan \<Rightarrow> json) \<Rightarrow> (fingerprint_payload \<Rightarrow> string) \<Rightarrow> scoped_plan \<Rightarrow> string" where
  "scoped_plan_fingerprint dump hash sp =
     hash \<lparr>fg_plan = dump (sc_plan sp), fg_forced = canonical_forced (sc_forced sp),
           fg_policy = sx_policy (sc_context sp),
           fg_sets = (if sc_derived sp = [] then None
             else Some (sx_date (sc_context sp),
               map (\<lambda>s. (ss_id s, canonical_forced (sc_forced (ss_scoped s)))) (sort_key ss_id (sc_derived sp))))\<rparr>"

subsection \<open>The interface\<close>

datatype store_error = Bad_row

text \<open>What a store promises: the plan held under an id is the first one saved under it, as the store
  keeps it, and it is read until it expires.\<close>

locale plan_store =
  fixes save :: "'s \<Rightarrow> stored_plan \<Rightarrow> (store_error + stored_plan) \<times> 's"
    and get :: "'s \<Rightarrow> string \<Rightarrow> rat \<Rightarrow> store_error + stored_plan option"
    and held :: "'s \<Rightarrow> string \<Rightarrow> store_error + stored_plan option"
    and kept_of :: "stored_plan \<Rightarrow> stored_plan"
    and storable :: "stored_plan \<Rightarrow> bool"
  assumes save_first: "held s (sp_id p) = Inr None \<Longrightarrow> storable p \<Longrightarrow>
      fst (save s p) = Inr (kept_of p) \<and> held (snd (save s p)) (sp_id p) = Inr (Some (kept_of p))"
    and save_again: "held s (sp_id p) = Inr (Some q) \<Longrightarrow>
      fst (save s p) = Inr q \<and> held (snd (save s p)) (sp_id p) = Inr (Some q)"
    and save_other: "i \<noteq> sp_id p \<Longrightarrow> held (snd (save s p)) i = held s i"
    and get_held: "held s i = Inr x \<Longrightarrow> get s i now =
      Inr (case x of None \<Rightarrow> None | Some p \<Rightarrow> if sp_expires p \<le> now then None else Some p)"
begin

definition saves :: "'s \<Rightarrow> stored_plan list \<Rightarrow> 's" where
  "saves s ps = foldl (\<lambda>s p. snd (save s p)) s ps"

lemma saves_Cons: "saves s (p # ps) = saves (snd (save s p)) ps"
  by (simp add: saves_def)

lemma held_stays: "held s i = Inr (Some q) \<Longrightarrow> held (saves s ps) i = Inr (Some q)"
proof (induction ps arbitrary: s)
  case Nil
  then show ?case by (simp add: saves_def)
next
  case (Cons p ps)
  have "held (snd (save s p)) i = Inr (Some q)"
    using Cons.prems save_again [of s p] save_other [of i p s] by (cases "i = sp_id p") auto
  then show ?case by (simp add: saves_Cons Cons.IH)
qed

lemma first_saved:
  "held s i = Inr None \<Longrightarrow> \<forall>p\<in>set ps. storable p \<Longrightarrow>
     held (saves s ps) i = Inr (map_option kept_of (List.find (\<lambda>p. sp_id p = i) ps))"
proof (induction ps arbitrary: s)
  case Nil
  then show ?case by (simp add: saves_def)
next
  case (Cons p ps)
  show ?case
  proof (cases "sp_id p = i")
    case True
    with Cons.prems save_first [of s p] have "held (snd (save s p)) i = Inr (Some (kept_of p))" by auto
    with True show ?thesis by (simp add: saves_Cons held_stays)
  next
    case False
    with Cons.prems save_other [of i p s] have "held (snd (save s p)) i = Inr None" by auto
    with Cons.IH [of "snd (save s p)"] Cons.prems False show ?thesis by (simp add: saves_Cons)
  qed
qed

text \<open>The plan a cursor points at never changes: whatever is saved, it is the first one, until it expires.\<close>

lemma get_first_saved:
  assumes "held s i = Inr None" and "\<forall>p\<in>set ps. storable p"
  shows "get (saves s ps) i now = Inr
    (case List.find (\<lambda>p. sp_id p = i) ps of
       None \<Rightarrow> None
     | Some p \<Rightarrow> if sp_expires (kept_of p) \<le> now then None else Some (kept_of p))"
  using get_held [OF first_saved [OF assms]] by (simp split: option.split)

end

subsection \<open>In memory\<close>

type_synonym memory_plans = "(string, stored_plan) dict"

definition mem_save_plan :: "memory_plans \<Rightarrow> stored_plan \<Rightarrow> (store_error + stored_plan) \<times> memory_plans" where
  "mem_save_plan plans stored =
     (case dict_get plans (sp_id stored) of
        Some existing \<Rightarrow> (Inr existing, plans)
      | None \<Rightarrow> (Inr stored, dict_set plans (sp_id stored) stored))"

definition mem_get_plan :: "memory_plans \<Rightarrow> string \<Rightarrow> rat \<Rightarrow> store_error + stored_plan option" where
  "mem_get_plan plans i now =
     Inr (case dict_get plans i of
        None \<Rightarrow> None
      | Some stored \<Rightarrow> if sp_expires stored \<le> now then None else Some stored)"

definition mem_held :: "memory_plans \<Rightarrow> string \<Rightarrow> store_error + stored_plan option" where
  "mem_held plans i = Inr (dict_get plans i)"

interpretation memory: plan_store mem_save_plan mem_get_plan mem_held id "\<lambda>p. True"
  by unfold_locales (auto simp: mem_save_plan_def mem_get_plan_def mem_held_def update_conv' split: option.split)

subsection \<open>In Postgres\<close>

text \<open>The decoded JSON of a row: the envelope of a plan with sets, a plan with its predicates, another
  format, or a bare plan of before. \<open>display_members_added\<close> stands beside each.\<close>

datatype row_payload =
    Set_row int json "forced_predicate list" "(string \<times> forced_predicate list) list" "date option"
      response_policy "string option" "string list option"
  | Plan_row json "forced_predicate list option" "response_policy option" "string option" "string list option"
  | Other_version int
  | Bare_row json "string list option"

record plan_row =
  pw_id :: string
  pw_payload :: row_payload
  pw_fingerprint :: string
  pw_created :: rat
  pw_expires :: rat
  pw_principal :: "string option"
  pw_project :: "string option"
  pw_entity :: "string option"
  pw_department :: "string option"
  pw_manifest :: "string option"
  pw_bundle :: "string option"

text \<open>How a plan is written as JSON, by itself and inside an envelope, and read back.\<close>

record plan_json =
  pj_canonical :: "plan \<Rightarrow> json"
  pj_dump :: "plan \<Rightarrow> json"
  pj_validate :: "json \<Rightarrow> plan option"

definition row_of_stored :: "plan_json \<Rightarrow> stored_plan \<Rightarrow> plan_row" where
  "row_of_stored j s =
     \<lparr>pw_id = sp_id s,
      pw_payload =
        (case sp_payload s of
           Some p \<Rightarrow> Set_row (dp_version p) (pj_dump j (dp_plan p)) (dp_forced p) (dp_derived p) (dp_date p)
                       (dp_policy p) (dp_question p) (Some (sp_display s))
         | None \<Rightarrow> Plan_row (pj_canonical j (sp_plan s)) (Some (sp_forced s)) (Some (sp_response s))
                     (sp_question s) (Some (sp_display s))),
      pw_fingerprint = sp_fingerprint s, pw_created = sp_created s, pw_expires = sp_expires s,
      pw_principal = sp_principal s, pw_project = sp_project s, pw_entity = sp_entity s,
      pw_department = sp_department s, pw_manifest = sp_policy_hash s, pw_bundle = sp_bundle s\<rparr>"

text \<open>What the payload gives: the plan, its predicates, policy, question, envelope and display members.\<close>

type_synonym payload_parts =
  "plan \<times> forced_predicate list \<times> response_policy \<times> string option \<times> derived_payload option \<times> string list"

definition or_empty :: "'a list option \<Rightarrow> 'a list" where
  "or_empty x = (case x of None \<Rightarrow> [] | Some xs \<Rightarrow> xs)"

definition plain_plan :: "plan_json \<Rightarrow> json \<Rightarrow> store_error + plan" where
  "plain_plan j v =
     (case pj_validate j v of
        None \<Rightarrow> Inl Bad_row
      | Some p \<Rightarrow> if plan_sets p \<noteq> [] then Inl Bad_row else Inr p)"

definition read_payload :: "plan_json \<Rightarrow> row_payload \<Rightarrow> store_error + payload_parts" where
  "read_payload j payload =
     (case payload of
        Set_row version v forced derived date policy question members \<Rightarrow>
          (if version \<notin> {2, 3} then Inl Bad_row
           else case pj_validate j v of
               None \<Rightarrow> Inl Bad_row
             | Some p \<Rightarrow>
                 (let envelope = \<lparr>dp_version = version, dp_plan = p, dp_forced = forced, dp_derived = derived,
                        dp_date = date, dp_policy = policy, dp_question = question\<rparr> in
                  if payload_ok envelope then Inr (p, forced, policy, question, Some envelope, or_empty members)
                  else Inl Bad_row))
      | Other_version version \<Rightarrow> Inl Bad_row
      | Plan_row v forced policy question members \<Rightarrow>
          rbind (plain_plan j v) (\<lambda>p.
          Inr (p, or_empty forced, case policy of None \<Rightarrow> Allow_partial | Some x \<Rightarrow> x, question, None, or_empty members))
      | Bare_row v members \<Rightarrow>
          rbind (plain_plan j v) (\<lambda>p. Inr (p, [], Allow_partial, None, None, or_empty members)))"

definition stored_of_row :: "plan_json \<Rightarrow> plan_row \<Rightarrow> store_error + stored_plan" where
  "stored_of_row j row =
     rbind (read_payload j (pw_payload row)) (\<lambda>(p, forced, policy, question, envelope, members).
       Inr \<lparr>sp_id = pw_id row, sp_plan = p, sp_fingerprint = pw_fingerprint row, sp_created = pw_created row,
            sp_expires = pw_expires row, sp_principal = pw_principal row, sp_project = pw_project row,
            sp_entity = pw_entity row, sp_department = pw_department row, sp_bundle = pw_bundle row,
            sp_policy_hash = pw_manifest row, sp_total = None, sp_forced = forced, sp_response = policy,
            sp_question = question, sp_payload = envelope, sp_hint = None, sp_display = members\<rparr>)"

text \<open>The table by its primary key; an insert of a known key does nothing.\<close>

type_synonym plan_table = "(string, plan_row) dict"

definition insert_row :: "plan_table \<Rightarrow> plan_row \<Rightarrow> plan_table" where
  "insert_row t row = (if dict_has t (pw_id row) then t else dict_set t (pw_id row) row)"

definition pg_save_plan :: "plan_json \<Rightarrow> plan_table \<Rightarrow> stored_plan \<Rightarrow> (store_error + stored_plan) \<times> plan_table" where
  "pg_save_plan j t stored =
     (let t' = insert_row t (row_of_stored j stored) in
      (case dict_get t' (sp_id stored) of None \<Rightarrow> Inl Bad_row | Some row \<Rightarrow> stored_of_row j row, t'))"

definition pg_get_plan :: "plan_json \<Rightarrow> plan_table \<Rightarrow> string \<Rightarrow> rat \<Rightarrow> store_error + stored_plan option" where
  "pg_get_plan j t i now =
     (case dict_get t i of
        None \<Rightarrow> Inr None
      | Some row \<Rightarrow> if pw_expires row \<le> now then Inr None else rbind (stored_of_row j row) (\<lambda>s. Inr (Some s)))"

definition pg_held :: "plan_json \<Rightarrow> plan_table \<Rightarrow> string \<Rightarrow> store_error + stored_plan option" where
  "pg_held j t i =
     (case dict_get t i of None \<Rightarrow> Inr None | Some row \<Rightarrow> rbind (stored_of_row j row) (\<lambda>s. Inr (Some s)))"

text \<open>What the table has no column for is lost.\<close>

definition as_stored :: "stored_plan \<Rightarrow> stored_plan" where
  "as_stored s = s\<lparr>sp_total := None, sp_hint := None\<rparr>"

definition writable :: "plan_json \<Rightarrow> stored_plan \<Rightarrow> bool" where
  "writable j s \<longleftrightarrow> stored_ok s \<and>
     pj_validate j (pj_canonical j (sp_plan s)) = Some (sp_plan s) \<and>
     pj_validate j (pj_dump j (sp_plan s)) = Some (sp_plan s)"

text \<open>A row gives its plan back.\<close>

lemma row_roundtrip:
  assumes "writable j s"
  shows "stored_of_row j (row_of_stored j s) = Inr (as_stored s)"
proof (cases "sp_payload s")
  case None
  with assms show ?thesis
    by (simp add: stored_of_row_def row_of_stored_def read_payload_def plain_plan_def writable_def stored_ok_def
        or_empty_def as_stored_def)
next
  case (Some p)
  with assms have p: "payload_ok p" "dp_plan p = sp_plan s" "dp_forced p = sp_forced s" "dp_policy p = sp_response s"
    "dp_question p = sp_question s" "pj_validate j (pj_dump j (dp_plan p)) = Some (dp_plan p)"
    by (auto simp: writable_def stored_ok_def)
  have "read_payload j (pw_payload (row_of_stored j s)) =
      Inr (dp_plan p, dp_forced p, dp_policy p, dp_question p, Some p, sp_display s)"
    using p by (simp add: Some row_of_stored_def read_payload_def or_empty_def payload_ok_def Let_def)
  with p Some show ?thesis
    by (simp add: stored_of_row_def) (simp add: row_of_stored_def as_stored_def)
qed

lemma stored_of_row_fields: "stored_of_row j row = Inr s \<Longrightarrow> sp_expires s = pw_expires row \<and> sp_id s = pw_id row"
  by (auto simp: stored_of_row_def)

interpretation postgres: plan_store "pg_save_plan j" "pg_get_plan j" "pg_held j" as_stored "writable j" for j
proof
  fix s p q i x now
  have id: "pw_id (row_of_stored j p) = sp_id p" by (simp add: row_of_stored_def)
  show "pg_held j s (sp_id p) = Inr None \<Longrightarrow> writable j p \<Longrightarrow>
      fst (pg_save_plan j s p) = Inr (as_stored p) \<and> pg_held j (snd (pg_save_plan j s p)) (sp_id p) = Inr (Some (as_stored p))"
    by (cases "dict_get s (sp_id p)")
       (auto simp: pg_held_def pg_save_plan_def insert_row_def id dict_has_iff update_conv' row_roundtrip Let_def)
  show "pg_held j s (sp_id p) = Inr (Some q) \<Longrightarrow>
      fst (pg_save_plan j s p) = Inr q \<and> pg_held j (snd (pg_save_plan j s p)) (sp_id p) = Inr (Some q)"
    by (auto simp: pg_held_def pg_save_plan_def insert_row_def id dict_has_iff Let_def split: option.splits)
  show "i \<noteq> sp_id p \<Longrightarrow> pg_held j (snd (pg_save_plan j s p)) i = pg_held j s i"
    by (simp add: pg_held_def pg_save_plan_def insert_row_def id update_conv' Let_def)
  show "pg_held j s i = Inr x \<Longrightarrow> pg_get_plan j s i now =
      Inr (case x of None \<Rightarrow> None | Some p \<Rightarrow> if sp_expires p \<le> now then None else Some p)"
    using stored_of_row_fields [of j]
    by (auto simp: pg_held_def pg_get_plan_def split: option.splits)
qed

subsection \<open>The stores agree\<close>


text \<open>
  C19. The plan a cursor points at never changes: once a plan was saved in Postgres under an id, every later
  save under that id answers with the first plan and leaves it in place.
\<close>

theorem first_plan_wins:
  assumes "pg_held j t (sp_id p) = Inr (Some q)"
  shows "fst (pg_save_plan j t p) = Inr q \<and>
    pg_get_plan j (foldl (\<lambda>t p. snd (pg_save_plan j t p)) t ps) (sp_id p) now =
      Inr (if sp_expires q \<le> now then None else Some q)"
  using postgres.get_held [OF postgres.held_stays [OF assms, of ps], of now] postgres.save_again [OF assms]
  by (simp add: postgres.saves_def)

definition demo_stored :: stored_plan where
  "demo_stored = \<lparr>sp_id = ''q1'', sp_plan = Plan (rows_of [''customer''] None) [], sp_fingerprint = ''f'',
     sp_created = 0, sp_expires = 900, sp_principal = Some ''u'', sp_project = Some ''p'', sp_entity = Some ''7'',
     sp_department = Some ''3'', sp_bundle = Some ''h'', sp_policy_hash = Some ''m'', sp_total = Some 40,
     sp_forced = [scope_predicate ''customers'' ''entity_id'' (S_int 7)],
     sp_response = Allow_partial, sp_question = None, sp_payload = None, sp_hint = None, sp_display = []\<rparr>"

definition demo_json :: plan_json where
  "demo_json = \<lparr>pj_canonical = (\<lambda>p. JNull), pj_dump = (\<lambda>p. JNull), pj_validate = (\<lambda>v. Some (sp_plan demo_stored))\<rparr>"


theorem first_plan_wins_witness:
  "fst (pg_save_plan demo_json (snd (pg_save_plan demo_json [] demo_stored)) (demo_stored\<lparr>sp_fingerprint := ''g''\<rparr>)) =
     Inr (as_stored demo_stored)"
proof -
  have "writable demo_json demo_stored"
    by (simp add: writable_def demo_json_def stored_ok_def) (simp add: demo_stored_def)
  moreover have "pg_held demo_json [] (sp_id demo_stored) = Inr None" by (simp add: pg_held_def)
  ultimately have "pg_held demo_json (snd (pg_save_plan demo_json [] demo_stored)) (sp_id demo_stored) =
      Inr (Some (as_stored demo_stored))" by (simp add: postgres.save_first)
  then show ?thesis
    using first_plan_wins [of demo_json _ "demo_stored\<lparr>sp_fingerprint := ''g''\<rparr>"]
    by simp
qed

end
