(* ===== verification/Continuation.thy ===== *)
theory Continuation
  imports Plan_Store Plan_Rewrites
begin

text \<open>
  A stored plan run again (app/business_query/compile/pagination/scope_binding.py,
  continued_operation.py): who may continue it, its predicates reconciled with the ones the caller has
  now, and the continuation itself, with an optional patch. The scoping function is a parameter; the
  service passes \<open>apply_role_scope\<close>.
\<close>

subsection \<open>Binding a scope\<close>

record scope_binding =
  sb_user :: "string option"
  sb_entity :: "string option"
  sb_department :: "string option"
  sb_policy :: "string option"
  sb_project :: "string option"
  sb_bundle :: "string option"

definition binding_department :: "principal \<Rightarrow> int option" where
  "binding_department who =
     (case scope_department who of Some d \<Rightarrow> Some d | None \<Rightarrow> pr_department who)"

definition from_principal :: "principal \<Rightarrow> string option \<Rightarrow> string option \<Rightarrow> scope_binding" where
  "from_principal who project bundle_hash =
     \<lparr>sb_user = Some (pr_user who), sb_entity = map_option show_int (pr_entity who),
      sb_department = map_option show_int (binding_department who),
      sb_policy = Some (case pr_manifest who of None \<Rightarrow> [] | Some m \<Rightarrow> m),
      sb_project = project, sb_bundle = bundle_hash\<rparr>"

definition from_stored_plan :: "stored_plan \<Rightarrow> scope_binding" where
  "from_stored_plan s =
     \<lparr>sb_user = sp_principal s, sb_entity = sp_entity s, sb_department = sp_department s,
      sb_policy = sp_policy_hash s, sb_project = sp_project s, sb_bundle = sp_bundle s\<rparr>"

text \<open>A field that is absent binds nothing; in a cursor an empty policy hash neither.\<close>

definition binds :: "string option \<Rightarrow> string option \<Rightarrow> bool" where
  "binds mine other \<longleftrightarrow> mine = None \<or> mine = other"

definition verify_caller :: "scope_binding \<Rightarrow> scope_binding \<Rightarrow> string \<Rightarrow> bool" where
  "verify_caller cursor caller project \<longleftrightarrow>
     sb_project cursor = Some project \<and> sb_user cursor = sb_user caller \<and>
     binds (sb_entity cursor) (sb_entity caller) \<and> binds (sb_department cursor) (sb_department caller) \<and>
     (truthy_str (sb_policy cursor) \<longrightarrow> sb_policy cursor = sb_policy caller)"

definition verify_stored :: "scope_binding \<Rightarrow> scope_binding \<Rightarrow> scope_binding \<Rightarrow> string \<Rightarrow> string \<Rightarrow> bool" where
  "verify_stored stored cursor caller project bundle_hash \<longleftrightarrow>
     (sb_project stored \<noteq> None \<longrightarrow> sb_project stored = Some project \<and>
        (truthy_str (sb_project cursor) \<longrightarrow> sb_project stored = sb_project cursor)) \<and>
     binds (sb_user stored) (sb_user cursor) \<and>
     binds (sb_entity stored) (sb_entity cursor) \<and> binds (sb_entity stored) (sb_entity caller) \<and>
     binds (sb_department stored) (sb_department cursor) \<and> binds (sb_department stored) (sb_department caller) \<and>
     binds (sb_policy stored) (sb_policy cursor) \<and> binds (sb_policy stored) (sb_policy caller) \<and>
     binds (sb_bundle stored) (sb_bundle cursor) \<and> binds (sb_bundle stored) (Some bundle_hash)"

subsection \<open>Refusals\<close>

datatype continuation_reason =
    Subject_unknown | Principal_mismatch | Bundle_changed | Scope_mismatch | Patch_refused | Member_unauthorized

definition binding_refusal ::
    "stored_plan \<Rightarrow> principal \<Rightarrow> bundle_definitions \<Rightarrow> string \<Rightarrow> continuation_reason option" where
  "binding_refusal stored who b project =
     (if sp_principal stored \<noteq> None \<and> sp_principal stored \<noteq> Some (pr_user who) then Some Principal_mismatch
      else if truthy_str (sp_bundle stored) \<and> sp_bundle stored \<noteq> Some (bd_hash b) then Some Bundle_changed
      else
        (let caller = from_principal who (Some project) (Some (bd_hash b)) in
         if verify_stored (from_stored_plan stored) caller caller project (bd_hash b) then None
         else Some Scope_mismatch))"

subsection \<open>Reconciling forced predicates\<close>

definition with_source :: "forced_source \<Rightarrow> forced_predicate list \<Rightarrow> forced_predicate list" where
  "with_source src fs = filter (\<lambda>f. fp_source f = src) fs"

fun merge_forced :: "forced_predicate list \<Rightarrow> forced_predicate list \<Rightarrow> forced_predicate list" where
  "merge_forced merged [] = merged"
| "merge_forced merged (f # fs) = merge_forced (if f \<in> set merged then merged else merged @ [f]) fs"

definition reconcile_forced ::
    "forced_predicate list \<Rightarrow> forced_predicate list \<Rightarrow> bool \<Rightarrow> scope_error + forced_predicate list" where
  "reconcile_forced current stored is_derived =
     (let curr_principal = with_source Principal_scope current;
          stored_principal = with_source Principal_scope stored;
          curr_record = with_source Record_referent current;
          stored_record = with_source Record_referent stored in
      if (stored_principal \<noteq> [] \<or> is_derived) \<and> \<not> same_canonical curr_principal stored_principal then Inl Scope_denied
      else if curr_record \<noteq> [] \<and> \<not> same_canonical curr_record stored_record then Inl Scope_denied
      else Inr (merge_forced curr_principal stored_record))"

subsection \<open>Restoring the scope\<close>

primrec bind_scope_context :: "scope_context \<Rightarrow> scoped_plan \<Rightarrow> scoped_plan"
  and bind_set_context :: "scope_context \<Rightarrow> scoped_set \<Rightarrow> scoped_set" where
  "bind_scope_context cx (Scoped_plan p rs fs ds old) = Scoped_plan p rs fs (map (bind_set_context cx) ds) cx"
| "bind_set_context cx (Scoped_set i key mode s) = Scoped_set i key mode (bind_scope_context cx s)"

definition with_forced :: "forced_predicate list \<Rightarrow> scoped_plan \<Rightarrow> scoped_plan" where
  "with_forced fs sp = Scoped_plan (sc_plan sp) (sc_resources sp) fs (sc_derived sp) (sc_context sp)"

definition with_derived :: "scoped_set list \<Rightarrow> scoped_plan \<Rightarrow> scoped_plan" where
  "with_derived ds sp = Scoped_plan (sc_plan sp) (sc_resources sp) (sc_forced sp) ds (sc_context sp)"

definition restore_set :: "(string, forced_predicate list) dict \<Rightarrow> scoped_set \<Rightarrow> scope_error + scoped_set" where
  "restore_set snapshots d =
     (case dict_get snapshots (ss_id d) of
        None \<Rightarrow> Inl Scope_denied
      | Some stored \<Rightarrow>
          rbind (reconcile_forced (sc_forced (ss_scoped d)) stored True) (\<lambda>fs.
          Inr (Scoped_set (ss_id d) (ss_key d) (ss_mode d) (with_forced fs (ss_scoped d)))))"

text \<open>The snapshots have distinct ids (\<open>payload_ok\<close>), so the dict of them is the list itself.\<close>

definition restore_stored_scope ::
    "scoped_plan \<Rightarrow> stored_plan \<Rightarrow> principal \<Rightarrow> bundle_definitions \<Rightarrow> scope_error + scoped_plan" where
  "restore_stored_scope sp stored who b =
     (let frozen = (case sp_payload stored of None \<Rightarrow> None | Some p \<Rightarrow> dp_date p);
          bound = bind_scope_context
            \<lparr>sx_principal = Some who, sx_date = frozen, sx_hash = Some (bd_hash b), sx_policy = sp_response stored\<rparr> sp in
      rbind (reconcile_forced (sc_forced bound) (sp_forced stored) (sp_payload stored \<noteq> None)) (\<lambda>fs.
      let scoped = with_forced fs bound;
          snapshots = (case sp_payload stored of None \<Rightarrow> [] | Some p \<Rightarrow> dp_derived p) in
      if set (map fst snapshots) \<noteq> set (map ss_id (sc_derived scoped)) then Inl Scope_denied
      else if sp_payload stored = None then Inr scoped
      else rbind (rmap (restore_set snapshots) (sc_derived scoped)) (\<lambda>ds. Inr (with_derived ds scoped))))"

subsection \<open>The continuation\<close>

text \<open>A scoping function is called with the business date, and again without it when it does not take one.\<close>

datatype scope_call = Scope_returns "scope_error + scoped_plan" | Scope_type_error

type_synonym scope_fn = "plan \<Rightarrow> date option option \<Rightarrow> scope_call"

datatype continuation_error = Store_failed store_error | Plan_refusal string string | Scope_fn_type_error

definition call_scope_fn :: "scope_fn \<Rightarrow> plan \<Rightarrow> date option \<Rightarrow> scope_call" where
  "call_scope_fn f p today =
     (case f p (Some today) of Scope_returns r \<Rightarrow> Scope_returns r | Scope_type_error \<Rightarrow> f p None)"

record continued =
  ct_scoped :: scoped_plan
  ct_stored :: stored_plan
  ct_changes :: "diff_category list"

text \<open>What is around a continuation: the stored plan the store reads, the dump, the validation and the
  fingerprint of a plan. An exception that nothing here catches is on the left.\<close>

record continuation_world =
  cw_read :: "string \<Rightarrow> rat \<Rightarrow> store_error + stored_plan option"
  cw_scope :: scope_fn
  cw_dump :: "plan \<Rightarrow> json"
  cw_validate :: "json \<Rightarrow> plan option"
  cw_fingerprint :: "plan \<Rightarrow> string"

definition patched_plan :: "continuation_world \<Rightarrow> plan \<Rightarrow> plan_patch option \<Rightarrow> plan option" where
  "patched_plan w p patch =
     (case patch of
        None \<Rightarrow> Some p
      | Some q \<Rightarrow> (case apply_plan_patch (cw_dump w) (cw_validate w) p (pp_ops q) of Inl e \<Rightarrow> None | Inr p' \<Rightarrow> Some p'))"

definition rescope ::
    "continuation_world \<Rightarrow> stored_plan \<Rightarrow> plan \<Rightarrow> principal \<Rightarrow> bundle_definitions \<Rightarrow> date option \<Rightarrow>
       continuation_error + (continuation_reason + scoped_plan)" where
  "rescope w stored p who b today =
     (case call_scope_fn (cw_scope w) p today of
        Scope_type_error \<Rightarrow> Inl Scope_fn_type_error
      | Scope_returns (Inl (Plan_refused reason site)) \<Rightarrow> Inl (Plan_refusal reason site)
      | Scope_returns (Inl Scope_denied) \<Rightarrow> Inr (Inl Member_unauthorized)
      | Scope_returns (Inr sp) \<Rightarrow>
          (case restore_stored_scope sp stored who b of
             Inl (Plan_refused reason site) \<Rightarrow> Inl (Plan_refusal reason site)
           | Inl Scope_denied \<Rightarrow> Inr (Inl Member_unauthorized)
           | Inr restored \<Rightarrow> Inr (Inr restored)))"

definition execute_continued_operation ::
    "continuation_world \<Rightarrow> string \<Rightarrow> plan_patch option \<Rightarrow> principal \<Rightarrow> bundle_definitions \<Rightarrow> rat \<Rightarrow> date option \<Rightarrow>
       string \<Rightarrow> continuation_error + (continuation_reason + continued)" where
  "execute_continued_operation w subject patch who b now today project =
     (case cw_read w subject now of
        Inl e \<Rightarrow> Inl (Store_failed e)
      | Inr None \<Rightarrow> Inr (Inl Subject_unknown)
      | Inr (Some stored) \<Rightarrow>
          (case binding_refusal stored who b project of
             Some reason \<Rightarrow> Inr (Inl reason)
           | None \<Rightarrow>
               (case patched_plan w (sp_plan stored) patch of
                  None \<Rightarrow> Inr (Inl Patch_refused)
                | Some p \<Rightarrow>
                    rbind (rescope w stored p who b today) (\<lambda>r.
                    Inr (rbind r (\<lambda>sp. Inr \<lparr>ct_scoped = sp, ct_stored = stored,
                           ct_changes = classify_plan_diff (cw_fingerprint w) (sp_plan stored) p\<rparr>))))))"


subsection \<open>What is sealed with an answer\<close>

text \<open>The plan the seal stores with an answer (app/business_query/seal/evidence.py); its fingerprint and the
  question are given.\<close>

definition stored_from_scoped ::
    "string \<Rightarrow> string \<Rightarrow> scoped_plan \<Rightarrow> principal \<Rightarrow> string \<Rightarrow> rat \<Rightarrow> rat \<Rightarrow> int \<Rightarrow> string option \<Rightarrow>
       owner_hint option \<Rightarrow> string list \<Rightarrow> stored_plan" where
  "stored_from_scoped answer_id fingerprint sp who project created ttl row_count question hint display =
     (let bundle_hash = (case sx_hash (sc_context sp) of None \<Rightarrow> [] | Some h \<Rightarrow> h);
          binding = from_principal who (Some project) (Some bundle_hash) in
      \<lparr>sp_id = answer_id, sp_plan = sc_plan sp, sp_fingerprint = fingerprint, sp_created = created,
       sp_expires = created + ttl, sp_principal = Some (pr_user who), sp_project = Some project,
       sp_entity = map_option show_int (pr_entity who), sp_department = sb_department binding,
       sp_bundle = Some bundle_hash,
       sp_policy_hash = Some (case pr_manifest who of None \<Rightarrow> [] | Some m \<Rightarrow> m), sp_total = Some row_count,
       sp_forced = sc_forced sp, sp_response = sx_policy (sc_context sp), sp_question = question,
       sp_payload = (if plan_sets (sc_plan sp) \<noteq> [] then Some (derived_plan_payload sp question) else None),
       sp_hint = hint, sp_display = display\<rparr>)"

subsection \<open>What reconciling keeps\<close>

lemma set_merge_forced: "set (merge_forced merged fs) = set merged \<union> set fs"
  by (induction merged fs rule: merge_forced.induct) auto

lemma with_source_simps [simp]:
  "f \<in> set (with_source src fs) \<longleftrightarrow> f \<in> set fs \<and> fp_source f = src"
  "with_source src [] = []"
  by (auto simp: with_source_def)

lemma reconcile_forced_cases:
  assumes "reconcile_forced current stored is_derived = Inr out"
  shows "set out = {f \<in> set current. fp_source f = Principal_scope} \<union> {f \<in> set stored. fp_source f = Record_referent}"
    and "with_source Principal_scope stored \<noteq> [] \<or> is_derived \<Longrightarrow>
       same_canonical (with_source Principal_scope current) (with_source Principal_scope stored)"
  using assms
  by (auto simp: reconcile_forced_def Let_def set_merge_forced split: if_splits)

text \<open>A row passes when every predicate on its resource has one of its values, compared as the database and
  Python compare numbers.\<close>

definition passes :: "forced_predicate list \<Rightarrow> string \<Rightarrow> row \<Rightarrow> bool" where
  "passes fs r row \<longleftrightarrow>
     (\<forall>f\<in>set fs. fp_resource f = r \<longrightarrow>
        (\<exists>v\<in>set (fp_values f). \<exists>w. row (fp_column f) = Some w \<and> same_scalar w v))"

lemma passes_subset: "passes fs r row \<Longrightarrow> set gs \<subseteq> set fs \<Longrightarrow> passes gs r row"
  by (auto simp: passes_def)

lemma passes_same:
  assumes "passes fs r row" and "f \<in> set fs" and "same_forced f g" and "fp_resource g = r"
  shows "\<exists>v\<in>set (fp_values g). \<exists>w. row (fp_column g) = Some w \<and> same_scalar w v"
proof -
  from assms obtain v w where v: "v \<in> set (fp_values f)" "row (fp_column g) = Some w" "same_scalar w v"
    by (auto simp: passes_def same_forced_def)
  then obtain i where i: "i < length (fp_values f)" "fp_values f ! i = v" by (auto simp: in_set_conv_nth)
  with assms(3) have "same_scalar v (fp_values g ! i)" "i < length (fp_values g)"
    by (auto simp: same_forced_def list_all2_conv_all_nth)
  with v same_scalar_trans show ?thesis by (meson nth_mem)
qed

lemma reconciled_rows:
  assumes "reconcile_forced current stored is_derived = Inr out" and "passes out r row"
    and "with_source Principal_scope stored \<noteq> [] \<or> is_derived"
  shows "passes stored r row"
  unfolding passes_def
proof (intro ballI impI)
  fix g assume g: "g \<in> set stored" "fp_resource g = r"
  note out = reconcile_forced_cases(1) [OF assms(1)]
  show "\<exists>v\<in>set (fp_values g). \<exists>w. row (fp_column g) = Some w \<and> same_scalar w v"
  proof (cases "fp_source g")
    case Principal_scope
    with g(1) have "g \<in> set (with_source Principal_scope stored)" by simp
    from same_canonicalD [OF reconcile_forced_cases(2) [OF assms(1,3)] this] obtain f where
      f: "f \<in> set current" "fp_source f = Principal_scope" "same_forced f g" by auto
    with out have "f \<in> set out" by simp
    from passes_same [OF assms(2) this f(3) g(2)] show ?thesis .
  next
    case Record_referent
    with g out have "g \<in> set out" by simp
    with assms(2) g(2) show ?thesis by (simp add: passes_def)
  qed
qed

lemma reconciled_current:
  assumes "reconcile_forced current stored is_derived = Inr out" and "f \<in> set current"
    and "fp_source f = Principal_scope"
  shows "f \<in> set out"
  using reconcile_forced_cases(1) [OF assms(1)] assms(2,3) by simp

subsection \<open>What restoring keeps\<close>

lemma bound_fields [simp]:
  "sc_plan (bind_scope_context cx sp) = sc_plan sp" "sc_resources (bind_scope_context cx sp) = sc_resources sp"
  "sc_forced (bind_scope_context cx sp) = sc_forced sp"
  "sc_derived (bind_scope_context cx sp) = map (bind_set_context cx) (sc_derived sp)"
  "sc_context (bind_scope_context cx sp) = cx"
  by (cases sp; simp)+

lemma bound_set_fields [simp]:
  "ss_id (bind_set_context cx d) = ss_id d" "ss_key (bind_set_context cx d) = ss_key d"
  "ss_mode (bind_set_context cx d) = ss_mode d"
  "ss_scoped (bind_set_context cx d) = bind_scope_context cx (ss_scoped d)"
  by (cases d; simp)+

lemma with_fields [simp]:
  "sc_plan (with_forced fs sp) = sc_plan sp" "sc_resources (with_forced fs sp) = sc_resources sp"
  "sc_forced (with_forced fs sp) = fs" "sc_derived (with_forced fs sp) = sc_derived sp"
  "sc_plan (with_derived ds sp) = sc_plan sp" "sc_resources (with_derived ds sp) = sc_resources sp"
  "sc_forced (with_derived ds sp) = sc_forced sp" "sc_derived (with_derived ds sp) = ds"
  by (simp_all add: with_forced_def with_derived_def)

lemma restore_outer:
  assumes "restore_stored_scope sp stored who b = Inr out"
  shows "reconcile_forced (sc_forced sp) (sp_forced stored) (sp_payload stored \<noteq> None) = Inr (sc_forced out)"
    and "sc_plan out = sc_plan sp" and "sc_resources out = sc_resources sp"
  using assms by (auto simp: restore_stored_scope_def Let_def split: if_splits)

lemma restore_sets:
  assumes "restore_stored_scope sp stored who b = Inr out" and "d \<in> set (sc_derived out)"
  shows "\<exists>payload fs old. sp_payload stored = Some payload \<and> dict_get (dp_derived payload) (ss_id d) = Some fs \<and>
    old \<in> set (sc_derived sp) \<and> ss_id old = ss_id d \<and>
    reconcile_forced (sc_forced (ss_scoped old)) fs True = Inr (sc_forced (ss_scoped d))"
proof (cases "sp_payload stored")
  case None
  with assms show ?thesis by (auto simp: restore_stored_scope_def Let_def split: if_splits)
next
  case (Some payload)
  define bound where "bound = bind_scope_context \<lparr>sx_principal = Some who, sx_date = dp_date payload,
      sx_hash = Some (bd_hash b), sx_policy = sp_response stored\<rparr> sp"
  from assms(1) Some obtain ds where ds: "rmap (restore_set (dp_derived payload)) (sc_derived bound) = Inr ds"
    and out: "sc_derived out = ds"
    by (auto simp: restore_stored_scope_def Let_def bound_def split: if_splits)
  from rmap_source [OF ds] assms(2) out obtain old where old: "old \<in> set (sc_derived bound)"
    "restore_set (dp_derived payload) old = Inr d" by blast
  from old(1) obtain src where src: "src \<in> set (sc_derived sp)" "ss_id src = ss_id old"
    "sc_forced (ss_scoped src) = sc_forced (ss_scoped old)" by (auto simp: bound_def)
  from old(2) obtain fs where "dict_get (dp_derived payload) (ss_id old) = Some fs" "ss_id d = ss_id old"
    "reconcile_forced (sc_forced (ss_scoped old)) fs True = Inr (sc_forced (ss_scoped d))"
    by (auto simp: restore_set_def split: option.splits)
  with src Some show ?thesis by auto
qed

subsection \<open>What a continuation keeps\<close>

lemma continued_cases:
  assumes "execute_continued_operation w subject patch who b now today project = Inr (Inr c)"
  obtains p sp where "cw_read w subject now = Inr (Some (ct_stored c))"
    and "binding_refusal (ct_stored c) who b project = None"
    and "patched_plan w (sp_plan (ct_stored c)) patch = Some p"
    and "call_scope_fn (cw_scope w) p today = Scope_returns (Inr sp)"
    and "restore_stored_scope sp (ct_stored c) who b = Inr (ct_scoped c)"
    and "ct_changes c = classify_plan_diff (cw_fingerprint w) (sp_plan (ct_stored c)) p"
  using assms
  by (auto simp: execute_continued_operation_def rescope_def
      split: sum.splits option.splits scope_call.splits scope_error.splits)


text \<open>The scoping function of the service.\<close>

definition role_scope_fn :: "principal \<Rightarrow> bundle_definitions \<Rightarrow> scope_fn" where
  "role_scope_fn who b = (\<lambda>p today.
     Scope_returns (apply_role_scope p who b (case today of None \<Rightarrow> None | Some d \<Rightarrow> d)))"

lemma scoped_entity_predicate:
  assumes "apply_role_scope p who b today = Inr sp" and "\<not> cross_entity who"
    and "n \<in> set (scoped_nodes sp)" and "r \<in> set (sc_resources n)"
  shows "\<exists>binding column entity. last_resource b r = Some binding \<and>
    rb_entity_column binding = Some column \<and> pr_entity who = Some entity \<and>
    scope_predicate r column (S_int entity) \<in> set (sc_forced n)"
proof -
  from good_node_forced [OF scoped_good [OF assms(1,3)] assms(4)] obtain binding ps where
    binding: "last_resource b r = Some binding" "rb_name binding = r"
    and ps: "forced_for_resource binding who = Inr ps" "set ps \<subseteq> set (sc_forced n)" by blast
  from ps(1) assms(2) obtain column entity where
    "rb_entity_column binding = Some column" "pr_entity who = Some entity"
    "scope_predicate (rb_name binding) column (S_int entity) \<in> set ps"
    by (auto simp: forced_for_resource_def entity_predicate_def split: option.splits)
  with binding ps(2) show ?thesis by blast
qed



subsection \<open>An answer can be continued\<close>

lemma forced_by_scope:
  "forced_for_resource r who = Inr ps \<Longrightarrow> f \<in> set ps \<Longrightarrow> fp_source f = Principal_scope"
  by (auto simp: forced_for_resource_def entity_predicate_def department_predicate_def scope_predicate_def
      split: if_splits option.splits)

lemma good_node_sources:
  assumes "good_node who b n" and "f \<in> set (sc_forced n)"
  shows "fp_source f = Principal_scope"
proof -
  from assms(1) obtain forced where
    "rmap (forced_on b who) (sc_resources n) = Inr forced" "sc_forced n = concat forced"
    by (auto elim: good_nodeE)
  with assms(2) obtain ps where "ps \<in> set forced" "f \<in> set ps" by auto
  with rmap_source [OF \<open>rmap _ _ = _\<close>] show ?thesis
    by (fastforce simp: forced_on_def split: option.splits intro: forced_by_scope)
qed

lemma reconcile_same:
  assumes "\<forall>f\<in>set fs. fp_source f = Principal_scope"
  shows "reconcile_forced fs fs d = Inr fs"
proof -
  have "with_source Principal_scope fs = fs" "with_source Record_referent fs = []"
    using assms by (auto simp: with_source_def filter_empty_conv)
  then show ?thesis by (simp add: reconcile_forced_def)
qed

lemma scoped_set_nodes:
  "d \<in> set (sc_derived sp) \<Longrightarrow> n \<in> set (scoped_nodes (ss_scoped d)) \<Longrightarrow> n \<in> set (scoped_nodes sp)"
  by (cases sp; cases d) force

lemma with_forced_same [simp]: "with_forced (sc_forced sp) sp = sp"
  by (simp add: with_forced_def)

lemma with_derived_same [simp]: "with_derived (sc_derived sp) sp = sp"
  by (simp add: with_derived_def)

lemma restore_same_set:
  assumes "distinct (map ss_id ds)" and "d \<in> set ds" and "\<forall>f\<in>set (sc_forced (ss_scoped d)). fp_source f = Principal_scope"
  shows "restore_set (map (\<lambda>s. (ss_id s, sc_forced (ss_scoped s))) ds) (bind_set_context cx d) = Inr (bind_set_context cx d)"
proof -
  have "dict_get (map (\<lambda>s. (ss_id s, sc_forced (ss_scoped s))) ds) (ss_id d) = Some (sc_forced (ss_scoped d))"
    using assms(1,2) by (intro map_of_is_SomeI) (auto simp: comp_def)
  then show ?thesis
    using reconcile_same [OF assms(3), of True]
    by (cases d) (simp add: restore_set_def with_forced_def, metis scoped_plan.collapse bound_fields)
qed

lemma scope_plan_context:
  "apply_role_scope p who b today = Inr sp \<Longrightarrow> sc_context sp =
     \<lparr>sx_principal = Some who, sx_date = today, sx_hash = Some (bd_hash b), sx_policy = Allow_partial\<rparr>"
  by (auto simp: apply_role_scope_def scope_plan.simps)

lemma restore_same:
  assumes scope: "apply_role_scope p who b today = Inr sp" and ids: "distinct (map set_id (plan_sets p))"
    and stored: "sp_forced stored = sc_forced sp"
      "sp_payload stored = (if plan_sets p \<noteq> [] then Some (derived_plan_payload sp question) else None)"
  shows "\<exists>cx. restore_stored_scope sp stored who b = Inr (bind_scope_context cx sp)"
proof -
  have erased: "sc_plan sp = p" "map as_derived (sc_derived sp) = plan_sets p"
    using scope_keeps_plan(1) [of who b today "[]" p sp] scope by (simp_all add: apply_role_scope_def)
  then have "map set_id (plan_sets p) = map ss_id (sc_derived sp)"
    by (simp add: as_derived_def comp_def flip: erased(2))
  with ids have distinct: "distinct (map ss_id (sc_derived sp))" by simp
  have sources: "\<forall>f\<in>set (sc_forced n). fp_source f = Principal_scope" if "n \<in> set (scoped_nodes sp)" for n
    using good_node_sources [OF scoped_good [OF scope that]] by blast
  note same = reconcile_same [OF sources [OF scoped_nodes_self]]
  note forced = with_forced_same [of "bind_scope_context cx sp" for cx, simplified]
  note kept = with_derived_same [of "bind_scope_context cx sp" for cx, simplified]
  have "restore_stored_scope sp stored who b =
      Inr (bind_scope_context \<lparr>sx_principal = Some who, sx_date = None, sx_hash = Some (bd_hash b),
        sx_policy = sp_response stored\<rparr> sp)" if empty: "plan_sets p = []"
  proof -
    from empty erased(2) have "sc_derived sp = []" by simp
    with empty same forced stored show ?thesis by (simp add: restore_stored_scope_def Let_def)
  qed
  moreover have "restore_stored_scope sp stored who b =
      Inr (bind_scope_context \<lparr>sx_principal = Some who, sx_date = dp_date (derived_plan_payload sp question),
        sx_hash = Some (bd_hash b), sx_policy = sp_response stored\<rparr> sp)" (is "_ = Inr (bind_scope_context ?cx sp)")
    if sets: "plan_sets p \<noteq> []"
  proof -
    have "restore_set (map (\<lambda>s. (ss_id s, sc_forced (ss_scoped s))) (sc_derived sp)) (bind_set_context ?cx d) =
        Inr (bind_set_context ?cx d)" if d: "d \<in> set (sc_derived sp)" for d
      by (rule restore_same_set [OF distinct d]) (rule sources [OF scoped_set_nodes [OF d scoped_nodes_self]])
    then have restored: "rmap (restore_set (map (\<lambda>s. (ss_id s, sc_forced (ss_scoped s))) (sc_derived sp)))
        (map (bind_set_context ?cx) (sc_derived sp)) = Inr (map (bind_set_context ?cx) (sc_derived sp))"
      by (intro rmap_id) auto
    have "dp_derived (derived_plan_payload sp question) = map (\<lambda>s. (ss_id s, sc_forced (ss_scoped s))) (sc_derived sp)"
      by (simp add: derived_plan_payload_def)
    with sets same forced [of ?cx] kept [of ?cx] stored restored show ?thesis
      by (simp add: restore_stored_scope_def Let_def comp_def image_image)
  qed
  ultimately show ?thesis by (cases "plan_sets p = []") blast+
qed

lemma own_binding:
  "binding_refusal (as_stored (stored_from_scoped i fp sp who project created ttl n q hint display)) who b project = None"
  if "sx_hash (sc_context sp) = Some (bd_hash b)"
  using that
  by (simp add: binding_refusal_def stored_from_scoped_def as_stored_def verify_stored_def from_stored_plan_def
      from_principal_def binds_def Let_def)

lemma answer_continues:
  assumes "apply_role_scope p who b today = Inr sp" and "distinct (map set_id (plan_sets p))"
    and "cw_scope w = role_scope_fn who b"
    and "cw_read w subject now = Inr (Some (as_stored (stored_from_scoped i fp sp who project created ttl n q hint display)))"
  shows "\<exists>c. execute_continued_operation w subject None who b now today project = Inr (Inr c) \<and>
    ct_stored c = as_stored (stored_from_scoped i fp sp who project created ttl n q hint display) \<and> ct_changes c = [] \<and>
    sc_plan (ct_scoped c) = p \<and> sc_resources (ct_scoped c) = sc_resources sp \<and> sc_forced (ct_scoped c) = sc_forced sp"
proof -
  let ?stored = "as_stored (stored_from_scoped i fp sp who project created ttl n q hint display)"
  have plan: "sc_plan sp = p"
    using scope_keeps_plan(1) [of who b today "[]" p sp] assms(1) by (simp add: apply_role_scope_def)
  have stored: "sp_plan ?stored = p" "sp_forced ?stored = sc_forced sp"
    "sp_payload ?stored = (if plan_sets p \<noteq> [] then Some (derived_plan_payload sp q) else None)"
    by (simp_all add: as_stored_def stored_from_scoped_def Let_def plan)
  from restore_same [OF assms(1,2) stored(2,3)] obtain cx where
    restored: "restore_stored_scope sp ?stored who b = Inr (bind_scope_context cx sp)" by blast
  have "call_scope_fn (cw_scope w) p today = Scope_returns (Inr sp)"
    using assms(1,3) by (simp add: call_scope_fn_def role_scope_fn_def)
  with restored have "rescope w ?stored p who b today = Inr (Inr (bind_scope_context cx sp))"
    by (simp add: rescope_def)
  moreover have "binding_refusal ?stored who b project = None"
    by (rule own_binding) (simp add: scope_plan_context [OF assms(1)])
  ultimately show ?thesis
    using assms(4) stored(1) plan
    by (simp add: execute_continued_operation_def patched_plan_def classify_plan_diff_def)
qed

text \<open>
  C17. An answer can be continued: what was scoped, sealed and read back from Postgres is, for the same
  caller under the same bundle and business date, the same plan on the same resources under the same
  predicates, and is classified as unchanged.
\<close>

theorem sealed_answer_continues:
  assumes "apply_role_scope p who b today = Inr sp" and "distinct (map set_id (plan_sets p))"
    and "cw_scope w = role_scope_fn who b"
    and "cw_read w subject now = Inr (Some (as_stored (stored_from_scoped i fp sp who project created ttl n q hint display)))"
  shows "\<exists>c. execute_continued_operation w subject None who b now today project = Inr (Inr c) \<and>
    ct_changes c = [] \<and> sc_plan (ct_scoped c) = p \<and> sc_resources (ct_scoped c) = sc_resources sp \<and>
    sc_forced (ct_scoped c) = sc_forced sp"
  using answer_continues [OF assms] by blast

text \<open>
  C8. Only the caller a plan was stored for continues it: the stored user, entity, department, policy and bundle,
  where they are given, are the caller's own, and the project is the current one.
\<close>

theorem continued_by_its_caller:
  assumes "execute_continued_operation w subject patch who b now today project = Inr (Inr c)"
  shows "(let s = ct_stored c in
    cw_read w subject now = Inr (Some s) \<and>
    binds (sp_principal s) (Some (pr_user who)) \<and> binds (sp_entity s) (map_option show_int (pr_entity who)) \<and>
    binds (sp_department s) (map_option show_int (binding_department who)) \<and>
    binds (sp_policy_hash s) (Some (case pr_manifest who of None \<Rightarrow> [] | Some m \<Rightarrow> m)) \<and>
    binds (sp_bundle s) (Some (bd_hash b)) \<and> binds (sp_project s) (Some project))"
  using assms
proof (rule continued_cases)
  assume read: "cw_read w subject now = Inr (Some (ct_stored c))"
    and bound: "binding_refusal (ct_stored c) who b project = None"
  from bound have "verify_stored (from_stored_plan (ct_stored c)) (from_principal who (Some project) (Some (bd_hash b)))
      (from_principal who (Some project) (Some (bd_hash b))) project (bd_hash b)"
    by (auto simp: binding_refusal_def Let_def split: if_splits)
  with read show ?thesis
    by (auto simp: verify_stored_def from_stored_plan_def from_principal_def binds_def Let_def)
qed

subsection \<open>A refused plan escapes\<close>

definition continuation_demo :: "stored_plan \<Rightarrow> plan \<Rightarrow> continuation_world" where
  "continuation_demo stored patched = \<lparr>cw_read = (\<lambda>i now. Inr (Some stored)), cw_scope = role_scope_fn demo_caller demo_bundle,
     cw_dump = (\<lambda>p. JObj [(''filters'', JNull)]), cw_validate = (\<lambda>v. Some patched), cw_fingerprint = (\<lambda>p. [])\<rparr>"

definition unknown_plan :: plan where
  "unknown_plan = Plan (rows_of [''nothing''] None) []"

lemma unknown_refused:
  "apply_role_scope unknown_plan demo_caller demo_bundle today = Inl (Plan_refused ''member_not_found'' [])"
proof -
  have "plan_member_names unknown_plan = {''nothing''}"
    by (simp add: unknown_plan_def local_plan_member_names_def rows_of_def filter_members_def)
  moreover have "''nothing'' \<notin> known_members demo_bundle"
    by (simp add: known_members_def demo_bundle_def)
  ultimately show ?thesis
    using scope_of_invisible [of unknown_plan demo_caller demo_bundle today] by (simp add: demo_visible)
qed


subsection \<open>The guarantees on a stored answer\<close>

lemma demo_continues:
  "\<exists>w c. cw_scope w = role_scope_fn demo_caller demo_bundle \<and>
     execute_continued_operation w ''q'' None demo_caller demo_bundle 5 None ''p'' = Inr (Inr c) \<and>
     sp_payload (ct_stored c) \<noteq> None \<and> ''orders'' \<in> set (sc_resources (ct_scoped c))"
proof -
  obtain sp where sp: "apply_role_scope demo_plan demo_caller demo_bundle None = Inr sp"
    "sc_resources sp = [''customers'', ''orders'']" using demo_scoped by blast
  have plan: "sc_plan sp = demo_plan"
    using scope_keeps_plan(1) [of demo_caller demo_bundle None "[]" demo_plan sp] sp(1) by (simp add: apply_role_scope_def)
  let ?w = "continuation_demo (as_stored (stored_from_scoped ''q'' [] sp demo_caller ''p'' 0 9 1 None None [])) demo_plan"
  have "distinct (map set_id (plan_sets demo_plan))" by (simp add: demo_plan_def)
  from answer_continues [OF sp(1) this, of "continuation_demo (as_stored (stored_from_scoped ''q'' [] sp demo_caller ''p'' 0 9 1 None None [])) demo_plan"
      "''q''" 5 "''q''" "[]" "''p''" 0 9 1 None None "[]"]
  have "\<exists>c. execute_continued_operation ?w ''q'' None demo_caller demo_bundle 5 None ''p'' = Inr (Inr c) \<and>
      ct_stored c = as_stored (stored_from_scoped ''q'' [] sp demo_caller ''p'' 0 9 1 None None []) \<and>
      sc_resources (ct_scoped c) = sc_resources sp"
    by (auto simp: continuation_demo_def)
  moreover have "sp_payload (as_stored (stored_from_scoped ''q'' [] sp demo_caller ''p'' 0 9 1 None None [])) \<noteq> None"
    by (simp add: as_stored_def stored_from_scoped_def Let_def plan) (simp add: demo_plan_def)
  ultimately obtain c where c: "execute_continued_operation ?w ''q'' None demo_caller demo_bundle 5 None ''p'' = Inr (Inr c)"
    "sp_payload (ct_stored c) \<noteq> None" "sc_resources (ct_scoped c) = sc_resources sp" by auto
  have "cw_scope ?w = role_scope_fn demo_caller demo_bundle" by (simp add: continuation_demo_def)
  moreover from c(3) sp(2) have "''orders'' \<in> set (sc_resources (ct_scoped c))" by simp
  ultimately show ?thesis using c(1,2) by blast
qed



theorem continued_by_its_caller_witness:
  "\<exists>w c. execute_continued_operation w ''q'' None demo_caller demo_bundle 5 None ''p'' = Inr (Inr c) \<and>
     binds (sp_principal (ct_stored c)) (Some ''u'')"
proof -
  obtain w c where c: "execute_continued_operation w ''q'' None demo_caller demo_bundle 5 None ''p'' = Inr (Inr c)"
    using demo_continues by blast
  have "pr_user demo_caller = ''u''" by (simp add: demo_caller_def)
  with continued_by_its_caller [OF c] c show ?thesis by (auto simp: Let_def)
qed

theorem sealed_answer_continues_witness:
  "\<exists>w c. execute_continued_operation w ''q'' None demo_caller demo_bundle 5 None ''p'' = Inr (Inr c) \<and>
     sc_plan (ct_scoped c) = demo_plan"
proof -
  obtain sp where sp: "apply_role_scope demo_plan demo_caller demo_bundle None = Inr sp" using demo_scoped by blast
  have "distinct (map set_id (plan_sets demo_plan))" by (simp add: demo_plan_def)
  from sealed_answer_continues [OF sp this, of "continuation_demo (as_stored (stored_from_scoped ''q'' [] sp demo_caller ''p'' 0 9 1 None None [])) demo_plan"
      "''q''" 5 "''q''" "[]" "''p''" 0 9 1 None None "[]"]
  show ?thesis by (auto simp: continuation_demo_def)
qed

end
